(* ===== verification/UB_Prelude.thy ===== *)
theory UB_Prelude
  imports Main "HOL-Library.Word"
begin

text \<open>
  Shared vocabulary of the development: the C integer types as words, little-endian
  images of integers, a byte-addressed kernel memory with \<open>memcpy\<close>, and the list and
  word lemmas the components share. Nothing here models a line of the repository; the
  C language and its memory model are what is described.
\<close>

unbundle bit_operations_syntax

section \<open>C integer types\<close>

type_synonym u8 = "8 word"
type_synonym u16 = "16 word"
type_synonym u32 = "32 word"
type_synonym u64 = "64 word"

text \<open>A C \<open>int\<close> is kept as its 32-bit pattern; \<open>sint\<close> reads its value.\<close>

type_synonym cint = "32 word"

named_theorems mem_simps \<open>reading and writing byte memory\<close>
named_theorems enc_simps \<open>images of integers in memory\<close>

text \<open>\<open>x & m\<close> used as a C condition.\<close>

definition test :: "'a::len word \<Rightarrow> 'a word \<Rightarrow> bool" where
  "test x m \<longleftrightarrow> x AND m \<noteq> 0"

section \<open>Byte memory\<close>

text \<open>
  Kernel virtual memory as seen by the module: \<open>None\<close> is an address that is not mapped,
  where an access faults. \<open>mem_write\<close> is the store side of \<open>memcpy\<close>: \<open>None\<close> is the fault.
\<close>

type_synonym mem = "u64 \<rightharpoonup> u8"

primrec mem_write :: "mem \<Rightarrow> u64 \<Rightarrow> u8 list \<Rightarrow> mem option" where
  "mem_write m a [] = Some m"
| "mem_write m a (b # bs) =
     (case m a of None \<Rightarrow> None | Some _ \<Rightarrow> mem_write (m(a \<mapsto> b)) (a + 1) bs)"

primrec mem_read :: "mem \<Rightarrow> u64 \<Rightarrow> nat \<Rightarrow> u8 list option" where
  "mem_read m a 0 = Some []"
| "mem_read m a (Suc n) =
     (case m a of None \<Rightarrow> None
      | Some b \<Rightarrow> (case mem_read m (a + 1) n of None \<Rightarrow> None | Some bs \<Rightarrow> Some (b # bs)))"

text \<open>The \<open>n\<close> bytes from \<open>a\<close> on are mapped.\<close>

definition mapped :: "mem \<Rightarrow> u64 \<Rightarrow> nat \<Rightarrow> bool" where
  "mapped m a n \<longleftrightarrow> list_all (\<lambda>i. m (a + of_nat i) \<noteq> None) [0..<n]"

section \<open>Little-endian images\<close>

definition enc :: "nat \<Rightarrow> 'a::len word \<Rightarrow> u8 list" where
  "enc n w = map (\<lambda>i. ucast (drop_bit (8 * i) w)) [0..<n]"

definition dec :: "u8 list \<Rightarrow> 'a::len word" where
  "dec bs = foldr (\<lambda>b acc. ucast b OR push_bit 8 acc) bs 0"

section \<open>Lemmas on words and lists\<close>

lemma unat_of_nat_small: "n < 2 ^ LENGTH('a) \<Longrightarrow> unat (of_nat n :: 'a::len word) = n"
  by (simp add: unat_of_nat)

lemma mod_lt_word: "0 < n \<Longrightarrow> n < 2 ^ LENGTH('a) \<Longrightarrow> unat (x mod of_nat n :: 'a::len word) < n"
  by (simp add: unat_mod unat_of_nat_small)

lemma test_or: "test x (a OR b) \<longleftrightarrow> test x a \<or> test x b"
  by (simp add: test_def bit.conj_disj_distrib or_eq_0_iff)

lemma test_zero [simp]: "\<not> test x 0"
  by (simp add: test_def)

lemma test_zero_left [simp]: "\<not> test 0 x"
  by (simp add: test_def)

lemma list_all_nth_upt: "list_all P [0..<n] \<longleftrightarrow> (\<forall>i<n. P i)"
  by (auto simp: list_all_iff)

lemma sum_list_map_update:
  fixes f :: "'a \<Rightarrow> nat"
  assumes "i < length xs"
  shows "sum_list (map f (xs[i := x])) + f (xs ! i) = sum_list (map f xs) + f x"
  using assms
proof (induction xs arbitrary: i)
  case (Cons y ys)
  then show ?case by (cases i) auto
qed simp

lemma of_nat_inj_word:
  "i < 2 ^ LENGTH('a) \<Longrightarrow> j < 2 ^ LENGTH('a) \<Longrightarrow> (of_nat i :: 'a::len word) = of_nat j \<longleftrightarrow> i = j"
  by (metis unat_of_nat_small)

lemma sint_small:
  assumes "unat (w :: cint) < 2 ^ 31"
  shows "sint w = int (unat w)"
proof -
  have "int (unat w) < int (2 ^ 31)" using assms by (simp only: of_nat_less_iff)
  then have "uint w < 2 ^ 31" by simp
  then have "signed_take_bit 31 (uint w) = uint w"
    by (intro signed_take_bit_int_eq_self) (auto intro: order_trans [OF _ uint_ge_0])
  then show ?thesis by (simp add: sint_uint)
qed

section \<open>Lemmas on byte memory\<close>

lemma mapped_0 [simp]: "mapped m a 0"
  by (simp add: mapped_def)

lemma mapped_iff: "mapped m a n \<longleftrightarrow> (\<forall>i<n. m (a + of_nat i) \<noteq> None)"
  by (simp add: mapped_def list_all_nth_upt)

lemma mapped_Suc: "mapped m a (Suc n) \<longleftrightarrow> m a \<noteq> None \<and> mapped m (a + 1) n"
proof -
  have "(\<forall>i<Suc n. m (a + of_nat i) \<noteq> None) \<longleftrightarrow>
      m a \<noteq> None \<and> (\<forall>i<n. m (a + 1 + of_nat i) \<noteq> None)"
    by (auto simp: less_Suc_eq_0_disj add.assoc)
  then show ?thesis by (simp only: mapped_iff)
qed

lemma mapped_mono: "mapped m a n \<Longrightarrow> k + j \<le> n \<Longrightarrow> mapped m (a + of_nat k) j"
  unfolding mapped_iff
proof (intro allI impI)
  fix i assume m: "\<forall>i<n. m (a + of_nat i) \<noteq> None" and "k + j \<le> n" "i < j"
  then have "k + i < n" by simp
  with m have "m (a + of_nat (k + i)) \<noteq> None" by blast
  then show "m (a + of_nat k + of_nat i) \<noteq> None" by (simp add: add.assoc)
qed

lemma mapped_upd: "mapped m b n \<Longrightarrow> mapped (m(a \<mapsto> v)) b n"
  by (auto simp: mapped_iff)

lemma mem_write_Some_iff [mem_simps]: "(\<exists>m'. mem_write m a bs = Some m') \<longleftrightarrow> mapped m a (length bs)"
proof (induction bs arbitrary: m a)
  case Nil
  then show ?case by simp
next
  case (Cons b bs)
  show ?case
  proof (cases "m a")
    case None
    then show ?thesis by (simp add: mapped_Suc)
  next
    case (Some x)
    have "(\<exists>m'. mem_write (m(a \<mapsto> b)) (a + 1) bs = Some m') \<longleftrightarrow>
        mapped (m(a \<mapsto> b)) (a + 1) (length bs)"
      by (rule Cons.IH)
    also have "\<dots> \<longleftrightarrow> mapped m (a + 1) (length bs)"
      unfolding mapped_iff by (metis Some fun_upd_apply option.distinct(1))
    finally show ?thesis
      using Some by (simp add: mapped_Suc)
  qed
qed

lemma mem_write_dom: "mem_write m a bs = Some m' \<Longrightarrow> dom m' = dom m"
proof (induction bs arbitrary: m a)
  case (Cons b bs)
  then show ?case by (force split: option.splits if_splits)
qed simp

lemma mem_write_frame:
  assumes "mem_write m a bs = Some m'" and "\<forall>i<length bs. x \<noteq> a + of_nat i"
  shows "m' x = m x"
  using assms
proof (induction bs arbitrary: m a)
  case (Cons b bs)
  from Cons.prems(1) obtain y where y: "m a = Some y"
    and w: "mem_write (m(a \<mapsto> b)) (a + 1) bs = Some m'"
    by (auto split: option.splits)
  have ne: "x \<noteq> a" using Cons.prems(2) by force
  have "\<forall>i<length bs. x \<noteq> a + 1 + of_nat i"
  proof (intro allI impI)
    fix i assume "i < length bs"
    then have "x \<noteq> a + of_nat (Suc i)" using Cons.prems(2) by (metis Suc_less_eq length_Cons)
    then show "x \<noteq> a + 1 + of_nat i" by (simp add: add.assoc)
  qed
  then have "m' x = (m(a \<mapsto> b)) x" by (rule Cons.IH [OF w])
  with ne show ?case by simp
qed simp

lemma mem_write_nth:
  assumes "mem_write m a bs = Some m'" and "i < length bs" and "length bs \<le> 2 ^ 64"
  shows "m' (a + of_nat i) = Some (bs ! i)"
  using assms
proof (induction bs arbitrary: m a i)
  case (Cons b bs)
  from Cons.prems(1) have w: "mem_write (m(a \<mapsto> b)) (a + 1) bs = Some m'"
    by (auto split: option.splits)
  show ?case
  proof (cases i)
    case 0
    have "\<forall>j<length bs. a \<noteq> a + 1 + of_nat j"
    proof (intro allI impI notI)
      fix j assume j: "j < length bs" and "a = a + 1 + of_nat j"
      then have "(of_nat (Suc j) :: u64) = of_nat 0" by simp
      moreover have "Suc j < 2 ^ 64" using j Cons.prems(3) by simp
      ultimately show False
        using of_nat_inj_word [where 'a = 64, of "Suc j" 0] by simp
    qed
    then have "m' a = (m(a \<mapsto> b)) a" by (rule mem_write_frame [OF w])
    with 0 show ?thesis by simp
  next
    case (Suc k)
    with Cons.prems have "m' (a + 1 + of_nat k) = Some (bs ! k)"
      by (intro Cons.IH [OF w]) auto
    with Suc show ?thesis by (simp add: add.assoc)
  qed
qed simp

lemma mem_read_eqI:
  assumes "\<And>i. i < length bs \<Longrightarrow> m (a + of_nat i) = Some (bs ! i)"
  shows "mem_read m a (length bs) = Some bs"
  using assms
proof (induction bs arbitrary: a)
  case (Cons b bs)
  have "m a = Some b" using Cons.prems [of 0] by simp
  moreover have "mem_read m (a + 1) (length bs) = Some bs"
  proof (rule Cons.IH)
    fix i assume "i < length bs"
    then show "m (a + 1 + of_nat i) = Some (bs ! i)"
      using Cons.prems [of "Suc i"] by (simp add: add.assoc)
  qed
  ultimately show ?case by simp
qed simp

lemma mem_read_nth:
  assumes "mem_read m a n = Some bs"
  shows "length bs = n" and "i < n \<Longrightarrow> m (a + of_nat i) = Some (bs ! i)"
proof -
  have "length bs = n \<and> (\<forall>i<n. m (a + of_nat i) = Some (bs ! i))"
    using assms
  proof (induction n arbitrary: a bs)
    case (Suc n)
    then obtain b bs' where b: "m a = Some b" and r: "mem_read m (a + 1) n = Some bs'"
      and bs: "bs = b # bs'"
      by (auto split: option.splits)
    from Suc.IH [OF r] have IH: "length bs' = n" "\<And>i. i < n \<Longrightarrow> m (a + 1 + of_nat i) = Some (bs' ! i)"
      by auto
    show ?case
      using IH b bs by (auto simp: less_Suc_eq_0_disj add.assoc)
  qed simp
  then show "length bs = n" and "i < n \<Longrightarrow> m (a + of_nat i) = Some (bs ! i)" by auto
qed

lemma mem_write_read:
  "mem_write m a bs = Some m' \<Longrightarrow> length bs \<le> 2 ^ 64 \<Longrightarrow> mem_read m' a (length bs) = Some bs"
  by (rule mem_read_eqI) (simp add: mem_write_nth)

section \<open>Lemmas on images\<close>

lemma length_enc [simp]: "length (enc n w) = n"
  by (simp add: enc_def)

lemma enc_Suc: "enc (Suc n) w = ucast w # enc n (drop_bit 8 w)"
proof -
  have "map f [0..<Suc n] = f 0 # map (\<lambda>i. f (Suc i)) [0..<n]" for f :: "nat \<Rightarrow> u8"
    by (simp add: upt_conv_Cons map_Suc_upt [symmetric] del: upt_Suc)
  then show ?thesis
    by (simp add: enc_def drop_bit_drop_bit add.commute del: upt_Suc)
qed

lemma dec_enc_take: "dec (enc n w) = take_bit (8 * n) w"
proof (induction n arbitrary: w)
  case 0
  then show ?case by (simp add: dec_def enc_def)
next
  case (Suc n)
  have "dec (enc (Suc n) w) = ucast (ucast w :: u8) OR push_bit 8 (dec (enc n (drop_bit 8 w)) :: 'a word)"
    by (simp add: enc_Suc dec_def)
  also have "\<dots> = ucast (ucast w :: u8) OR push_bit 8 (take_bit (8 * n) (drop_bit 8 w))"
    by (simp add: Suc.IH)
  also have "\<dots> = take_bit (8 * Suc n) w"
    by (rule bit_word_eqI)
      (auto simp: bit_or_iff bit_ucast_iff bit_push_bit_iff bit_take_bit_iff bit_drop_bit_eq
        dest: bit_imp_le_length)
  finally show ?case .
qed

lemma dec_enc [enc_simps]: "LENGTH('a) \<le> 8 * n \<Longrightarrow> dec (enc n (w :: 'a::len word)) = w"
  by (simp add: dec_enc_take take_bit_word_eq_self)

lemma dec_enc4 [simp]: "dec (enc 4 (w :: u32)) = w"
  by (simp add: enc_simps)

lemma dec_enc8 [simp]: "dec (enc 8 (w :: u64)) = w"
  by (simp add: enc_simps)

end
