(* ===== verification/Pg_Hdr.thy ===== *)
theory Pg_Hdr
  imports UB_Prelude
begin

text \<open>
  What \<open>kernel_modify/pageattr.c\<close> and \<open>kernel_modify/fault.c\<close> take from the rest of the
  kernel: page-table constants, accessors on page-table words, linker symbols, boot-time
  variables and allocators. None of it is in the repository, so it is one record \<open>hdr\<close>
  that every definition of the page-table model takes as its first argument. What the
  theorems need of it is stated by the predicates at the end: documented facts of the
  x86-64 paging format and of the allocators.
\<close>

section \<open>Levels and page-table memory\<close>

text \<open>
  The level a walk ends at; the kernel numbers them so that subtracting one gives the next
  smaller page.
\<close>

datatype pg_level = PG_LEVEL_NONE | PG_LEVEL_4K | PG_LEVEL_2M | PG_LEVEL_1G | PG_LEVEL_512G

text \<open>Page-table words by the address they are stored at.\<close>

type_synonym ptmem = "u64 \<Rightarrow> u64"

section \<open>The parameters\<close>

text \<open>
  Families of accessors that differ only in the table level share one field:
  \<open>pmd_none\<close> is \<open>ent_none h Pmd\<close>. The abbreviations below restore the kernel's names.
\<close>

datatype lvl = Pgd | P4d | Pud | Pmd | Pte

datatype pbit = BPRESENT | BRW | BNX | BPSE | BGLOBAL | BENC | BCACHE_MASK | BKERNPG_TABLE

datatype ksym = STEXT | SETEXT | SBRK_END | SSTART_RODATA | SEND_RODATA | SEND_RODATA_HPAGE

datatype cmode = MODE_WB | MODE_WC | MODE_UC_MINUS | MODE_UC | MODE_WT | MODE_WP

record hdr =
  PAGE_SHIFT :: nat
  ent_size :: "lvl \<Rightarrow> u64"
  ent_mask :: "lvl \<Rightarrow> u64"
  PTRS_PER_PTE :: nat
  page_level_size :: "pg_level \<Rightarrow> u64"
  page_level_mask :: "pg_level \<Rightarrow> u64"
  page_bit :: "pbit \<Rightarrow> u64"
  supported_pte_mask :: u64
  ent_none :: "lvl \<Rightarrow> u64 \<Rightarrow> bool"
  ent_large :: "lvl \<Rightarrow> u64 \<Rightarrow> bool"
  ent_present :: "lvl \<Rightarrow> u64 \<Rightarrow> bool"
  pte_write :: "u64 \<Rightarrow> bool"
  pte_exec :: "u64 \<Rightarrow> bool"
  pgd_index :: "u64 \<Rightarrow> u64"
  pgd_offset_k :: "u64 \<Rightarrow> u64"
  ent_offset :: "lvl \<Rightarrow> ptmem \<Rightarrow> u64 \<Rightarrow> u64 \<Rightarrow> u64"
  ent_page_vaddr :: "lvl \<Rightarrow> u64 \<Rightarrow> u64"
  ent_pfn :: "lvl \<Rightarrow> u64 \<Rightarrow> u64"
  ent_pgprot :: "lvl \<Rightarrow> u64 \<Rightarrow> u64"
  pfn_ent :: "lvl \<Rightarrow> u64 \<Rightarrow> u64 \<Rightarrow> u64"
  ent_mkhuge :: "lvl \<Rightarrow> u64 \<Rightarrow> u64"
  mk_pte :: "u64 \<Rightarrow> u64 \<Rightarrow> u64"
  pgprot_large_2_4k :: "u64 \<Rightarrow> u64"
  pgprot_4k_2_large :: "u64 \<Rightarrow> u64"
  canon_pgprot :: "u64 \<Rightarrow> u64"
  pgprot_encrypted :: "u64 \<Rightarrow> u64"
  pgprot2cachemode :: "u64 \<Rightarrow> cmode"
  cachemode2pgprot :: "cmode \<Rightarrow> u64"
  page_address :: "u64 \<Rightarrow> u64"
  page_to_pfn :: "u64 \<Rightarrow> u64"
  PageHighMem :: "u64 \<Rightarrow> bool"
  phys_of :: "u64 \<Rightarrow> u64"
  virt_of :: "u64 \<Rightarrow> u64"
  pa_symbol :: "u64 \<Rightarrow> u64"
  PFN_DOWN :: "u64 \<Rightarrow> u64"
  roundup_to :: "u64 \<Rightarrow> u64 \<Rightarrow> u64"
  virt_addr_valid :: "u64 \<Rightarrow> bool"
  pfn_range_is_mapped :: "u64 \<Rightarrow> u64 \<Rightarrow> bool"
  PAGE_OFFSET :: u64
  START_KERNEL_map :: u64
  phys_base :: u64
  max_pfn_mapped :: u64
  init_mm_pgd :: u64
  ksym :: "ksym \<Rightarrow> u64"
  kernel_set_to_readonly :: bool
  mem_encrypt_active :: bool
  boot_cpu_has_GBPAGES :: bool
  cpu_has_CLFLUSH :: bool
  boot_cpu_x86 :: nat
  x86_clflush_size :: u64
  tlb_single_page_flush_ceiling :: u64
  irqs_disabled :: bool
  early_boot_irqs_disabled :: bool
  alloc_pages :: "nat \<Rightarrow> u64"
  get_zeroed_page :: "nat \<Rightarrow> u64"
  reserve_memtype :: "nat \<Rightarrow> u64 \<Rightarrow> u64 \<Rightarrow> cmode \<Rightarrow> int"
  EINVAL :: int
  ENOMEM :: int
  EFAULT :: int

section \<open>The kernel's names\<close>

abbreviation PAGE_SIZE :: "'h hdr_scheme \<Rightarrow> u64" where "PAGE_SIZE h \<equiv> ent_size h Pte"
abbreviation PAGE_MASK :: "'h hdr_scheme \<Rightarrow> u64" where "PAGE_MASK h \<equiv> ent_mask h Pte"
abbreviation PMD_SIZE :: "'h hdr_scheme \<Rightarrow> u64" where "PMD_SIZE h \<equiv> ent_size h Pmd"
abbreviation PMD_MASK :: "'h hdr_scheme \<Rightarrow> u64" where "PMD_MASK h \<equiv> ent_mask h Pmd"
abbreviation PUD_SIZE :: "'h hdr_scheme \<Rightarrow> u64" where "PUD_SIZE h \<equiv> ent_size h Pud"
abbreviation PUD_MASK :: "'h hdr_scheme \<Rightarrow> u64" where "PUD_MASK h \<equiv> ent_mask h Pud"
abbreviation PAGE_PRESENT :: "'h hdr_scheme \<Rightarrow> u64" where "PAGE_PRESENT h \<equiv> page_bit h BPRESENT"
abbreviation PAGE_RW :: "'h hdr_scheme \<Rightarrow> u64" where "PAGE_RW h \<equiv> page_bit h BRW"
abbreviation PAGE_NX :: "'h hdr_scheme \<Rightarrow> u64" where "PAGE_NX h \<equiv> page_bit h BNX"
abbreviation PAGE_PSE :: "'h hdr_scheme \<Rightarrow> u64" where "PAGE_PSE h \<equiv> page_bit h BPSE"
abbreviation PAGE_GLOBAL :: "'h hdr_scheme \<Rightarrow> u64" where "PAGE_GLOBAL h \<equiv> page_bit h BGLOBAL"
abbreviation PAGE_ENC :: "'h hdr_scheme \<Rightarrow> u64" where "PAGE_ENC h \<equiv> page_bit h BENC"
abbreviation PAGE_CACHE_MASK :: "'h hdr_scheme \<Rightarrow> u64" where "PAGE_CACHE_MASK h \<equiv> page_bit h BCACHE_MASK"
abbreviation KERNPG_TABLE :: "'h hdr_scheme \<Rightarrow> u64" where "KERNPG_TABLE h \<equiv> page_bit h BKERNPG_TABLE"
abbreviation pgd_none :: "'h hdr_scheme \<Rightarrow> u64 \<Rightarrow> bool" where "pgd_none h \<equiv> ent_none h Pgd"
abbreviation pgd_present :: "'h hdr_scheme \<Rightarrow> u64 \<Rightarrow> bool" where "pgd_present h \<equiv> ent_present h Pgd"
abbreviation p4d_none :: "'h hdr_scheme \<Rightarrow> u64 \<Rightarrow> bool" where "p4d_none h \<equiv> ent_none h P4d"
abbreviation p4d_large :: "'h hdr_scheme \<Rightarrow> u64 \<Rightarrow> bool" where "p4d_large h \<equiv> ent_large h P4d"
abbreviation p4d_present :: "'h hdr_scheme \<Rightarrow> u64 \<Rightarrow> bool" where "p4d_present h \<equiv> ent_present h P4d"
abbreviation p4d_offset :: "'h hdr_scheme \<Rightarrow> ptmem \<Rightarrow> u64 \<Rightarrow> u64 \<Rightarrow> u64" where "p4d_offset h \<equiv> ent_offset h P4d"
abbreviation pud_none :: "'h hdr_scheme \<Rightarrow> u64 \<Rightarrow> bool" where "pud_none h \<equiv> ent_none h Pud"
abbreviation pud_large :: "'h hdr_scheme \<Rightarrow> u64 \<Rightarrow> bool" where "pud_large h \<equiv> ent_large h Pud"
abbreviation pud_present :: "'h hdr_scheme \<Rightarrow> u64 \<Rightarrow> bool" where "pud_present h \<equiv> ent_present h Pud"
abbreviation pud_offset :: "'h hdr_scheme \<Rightarrow> ptmem \<Rightarrow> u64 \<Rightarrow> u64 \<Rightarrow> u64" where "pud_offset h \<equiv> ent_offset h Pud"
abbreviation pud_pfn :: "'h hdr_scheme \<Rightarrow> u64 \<Rightarrow> u64" where "pud_pfn h \<equiv> ent_pfn h Pud"
abbreviation pud_pgprot :: "'h hdr_scheme \<Rightarrow> u64 \<Rightarrow> u64" where "pud_pgprot h \<equiv> ent_pgprot h Pud"
abbreviation pud_page_vaddr :: "'h hdr_scheme \<Rightarrow> u64 \<Rightarrow> u64" where "pud_page_vaddr h \<equiv> ent_page_vaddr h Pud"
abbreviation pud_mkhuge :: "'h hdr_scheme \<Rightarrow> u64 \<Rightarrow> u64" where "pud_mkhuge h \<equiv> ent_mkhuge h Pud"
abbreviation pmd_none :: "'h hdr_scheme \<Rightarrow> u64 \<Rightarrow> bool" where "pmd_none h \<equiv> ent_none h Pmd"
abbreviation pmd_large :: "'h hdr_scheme \<Rightarrow> u64 \<Rightarrow> bool" where "pmd_large h \<equiv> ent_large h Pmd"
abbreviation pmd_present :: "'h hdr_scheme \<Rightarrow> u64 \<Rightarrow> bool" where "pmd_present h \<equiv> ent_present h Pmd"
abbreviation pmd_offset :: "'h hdr_scheme \<Rightarrow> ptmem \<Rightarrow> u64 \<Rightarrow> u64 \<Rightarrow> u64" where "pmd_offset h \<equiv> ent_offset h Pmd"
abbreviation pmd_pfn :: "'h hdr_scheme \<Rightarrow> u64 \<Rightarrow> u64" where "pmd_pfn h \<equiv> ent_pfn h Pmd"
abbreviation pmd_pgprot :: "'h hdr_scheme \<Rightarrow> u64 \<Rightarrow> u64" where "pmd_pgprot h \<equiv> ent_pgprot h Pmd"
abbreviation pmd_page_vaddr :: "'h hdr_scheme \<Rightarrow> u64 \<Rightarrow> u64" where "pmd_page_vaddr h \<equiv> ent_page_vaddr h Pmd"
abbreviation pmd_mkhuge :: "'h hdr_scheme \<Rightarrow> u64 \<Rightarrow> u64" where "pmd_mkhuge h \<equiv> ent_mkhuge h Pmd"
abbreviation pte_none :: "'h hdr_scheme \<Rightarrow> u64 \<Rightarrow> bool" where "pte_none h \<equiv> ent_none h Pte"
abbreviation pte_present :: "'h hdr_scheme \<Rightarrow> u64 \<Rightarrow> bool" where "pte_present h \<equiv> ent_present h Pte"
abbreviation pte_pfn :: "'h hdr_scheme \<Rightarrow> u64 \<Rightarrow> u64" where "pte_pfn h \<equiv> ent_pfn h Pte"
abbreviation pte_pgprot :: "'h hdr_scheme \<Rightarrow> u64 \<Rightarrow> u64" where "pte_pgprot h \<equiv> ent_pgprot h Pte"
abbreviation pte_offset_kernel :: "'h hdr_scheme \<Rightarrow> ptmem \<Rightarrow> u64 \<Rightarrow> u64 \<Rightarrow> u64" where
  "pte_offset_kernel h \<equiv> ent_offset h Pte"
abbreviation pfn_pte :: "'h hdr_scheme \<Rightarrow> u64 \<Rightarrow> u64 \<Rightarrow> u64" where "pfn_pte h \<equiv> pfn_ent h Pte"
abbreviation pfn_pmd :: "'h hdr_scheme \<Rightarrow> u64 \<Rightarrow> u64 \<Rightarrow> u64" where "pfn_pmd h \<equiv> pfn_ent h Pmd"
abbreviation pfn_pud :: "'h hdr_scheme \<Rightarrow> u64 \<Rightarrow> u64 \<Rightarrow> u64" where "pfn_pud h \<equiv> pfn_ent h Pud"

section \<open>What the theorems rely on\<close>

text \<open>The page sizes of x86-64.\<close>

definition x86_layout :: "'h hdr_scheme \<Rightarrow> bool" where
  "x86_layout h \<longleftrightarrow> PAGE_SHIFT h = 12 \<and> PAGE_SIZE h = 4096 \<and> PAGE_MASK h = NOT 4095
     \<and> PMD_SIZE h = 0x200000 \<and> PMD_MASK h = NOT 0x1FFFFF
     \<and> PUD_SIZE h = 0x40000000 \<and> PUD_MASK h = NOT 0x3FFFFFFF
     \<and> PTRS_PER_PTE h = 512
     \<and> page_level_size h PG_LEVEL_2M = 0x200000 \<and> page_level_mask h PG_LEVEL_2M = NOT 0x1FFFFF
     \<and> page_level_size h PG_LEVEL_1G = 0x40000000
     \<and> page_level_mask h PG_LEVEL_1G = NOT 0x3FFFFFFF"

text \<open>The permission bits are single, distinct bits of the entry.\<close>

definition x86_bits :: "'h hdr_scheme \<Rightarrow> bool" where
  "x86_bits h \<longleftrightarrow> PAGE_PRESENT h = 1 \<and> PAGE_RW h = 2 \<and> PAGE_PSE h = 0x80
     \<and> PAGE_GLOBAL h = 0x100 \<and> PAGE_NX h = 0x8000000000000000"

text \<open>
  An entry is a frame number and protection bits: building an entry from the two and
  reading them back gives them again, and every entry is built from its own two parts.
  \<open>pfn_pte\<close> drops the bits the CPU does not support (\<open>__supported_pte_mask\<close>).
\<close>

definition pte_format :: "'h hdr_scheme \<Rightarrow> (u64 \<Rightarrow> bool) \<Rightarrow> (u64 \<Rightarrow> bool) \<Rightarrow> bool" where
  "pte_format h okpfn okprot \<longleftrightarrow>
     (\<forall>pfn prot. okpfn pfn \<longrightarrow> okprot prot \<longrightarrow>
        pte_pfn h (pfn_pte h pfn prot) = pfn \<and> pte_pgprot h (pfn_pte h pfn prot) = prot)
     \<and> (\<forall>e. okpfn (pte_pfn h e) \<and> okprot (pte_pgprot h e)
        \<and> pfn_pte h (pte_pfn h e) (pte_pgprot h e) = e)
     \<and> (\<forall>p q. okprot p \<longrightarrow> okprot (p AND q))"

section \<open>A concrete machine\<close>

text \<open>
  Values of the parameters for an x86-64 machine with four-level paging whose direct mapping
  is the identity. Witnesses of the theorems evaluate on it.
\<close>

definition frame_mask :: u64 where
  "frame_mask = 0x000FFFFFFFFFF000"

definition hdr0 :: hdr where
  "hdr0 = \<lparr>PAGE_SHIFT = 12,
     ent_size = (\<lambda>l. case l of Pte \<Rightarrow> 4096 | Pmd \<Rightarrow> 0x200000 | Pud \<Rightarrow> 0x40000000 | _ \<Rightarrow> 0x8000000000),
     ent_mask = (\<lambda>l. case l of Pte \<Rightarrow> NOT 4095 | Pmd \<Rightarrow> NOT 0x1FFFFF | Pud \<Rightarrow> NOT 0x3FFFFFFF
                          | _ \<Rightarrow> NOT 0x7FFFFFFFFF),
     PTRS_PER_PTE = 512,
     page_level_size = (\<lambda>l. case l of PG_LEVEL_2M \<Rightarrow> 0x200000 | PG_LEVEL_1G \<Rightarrow> 0x40000000 | _ \<Rightarrow> 4096),
     page_level_mask = (\<lambda>l. case l of PG_LEVEL_2M \<Rightarrow> NOT 0x1FFFFF | PG_LEVEL_1G \<Rightarrow> NOT 0x3FFFFFFF
                                 | _ \<Rightarrow> NOT 4095),
     page_bit = (\<lambda>b. case b of BPRESENT \<Rightarrow> 1 | BRW \<Rightarrow> 2 | BNX \<Rightarrow> 0x8000000000000000 | BPSE \<Rightarrow> 0x80
                      | BGLOBAL \<Rightarrow> 0x100 | BENC \<Rightarrow> 0 | BCACHE_MASK \<Rightarrow> 0x98 | BKERNPG_TABLE \<Rightarrow> 0x63),
     supported_pte_mask = - 1,
     ent_none = (\<lambda>l e. l \<noteq> Pgd \<and> e = 0),
     ent_large = (\<lambda>l e. (l = Pud \<or> l = Pmd) \<and> test e 0x80),
     ent_present = (\<lambda>l e. l = Pgd \<or> test e 1),
     pte_write = (\<lambda>e. test e 2),
     pte_exec = (\<lambda>e. \<not> test e 0x8000000000000000),
     pgd_index = (\<lambda>a. drop_bit 39 a AND 511),
     pgd_offset_k = (\<lambda>a. 0x1000 + 8 * (drop_bit 39 a AND 511)),
     ent_offset = (\<lambda>l m p a. case l of
         Pud \<Rightarrow> (m p AND frame_mask) + 8 * (drop_bit 30 a AND 511)
       | Pmd \<Rightarrow> (m p AND frame_mask) + 8 * (drop_bit 21 a AND 511)
       | Pte \<Rightarrow> (m p AND frame_mask) + 8 * (drop_bit 12 a AND 511)
       | _ \<Rightarrow> p),
     ent_page_vaddr = (\<lambda>l e. e AND frame_mask),
     ent_pfn = (\<lambda>l e. drop_bit 12 (e AND frame_mask)),
     ent_pgprot = (\<lambda>l e. e AND NOT frame_mask),
     pfn_ent = (\<lambda>l p q. (push_bit 12 p AND frame_mask) OR q),
     ent_mkhuge = (\<lambda>l e. e OR 0x80),
     mk_pte = (\<lambda>p q. p OR q),
     pgprot_large_2_4k = (\<lambda>q. q), pgprot_4k_2_large = (\<lambda>q. q), canon_pgprot = (\<lambda>q. q),
     pgprot_encrypted = (\<lambda>q. q), pgprot2cachemode = (\<lambda>_. MODE_WB), cachemode2pgprot = (\<lambda>_. 0),
     page_address = (\<lambda>p. p), page_to_pfn = (\<lambda>p. drop_bit 12 p), PageHighMem = (\<lambda>_. False),
     phys_of = (\<lambda>a. a), virt_of = (\<lambda>a. a), pa_symbol = (\<lambda>a. a), PFN_DOWN = (\<lambda>a. drop_bit 12 a),
     roundup_to = (\<lambda>a b. ((a + b - 1) div b) * b), virt_addr_valid = (\<lambda>_. True),
     pfn_range_is_mapped = (\<lambda>_ _. True), PAGE_OFFSET = 0, START_KERNEL_map = 0, phys_base = 0,
     max_pfn_mapped = 0x100000, init_mm_pgd = 0x1000,
     ksym = (\<lambda>y. case y of STEXT \<Rightarrow> 0x1000000 | SETEXT \<Rightarrow> 0x1200000 | SSTART_RODATA \<Rightarrow> 0x1200000
              | SEND_RODATA \<Rightarrow> 0x1400000 | SEND_RODATA_HPAGE \<Rightarrow> 0x1400000 | SBRK_END \<Rightarrow> 0x2000000),
     kernel_set_to_readonly = True, mem_encrypt_active = False, boot_cpu_has_GBPAGES = True,
     cpu_has_CLFLUSH = True, boot_cpu_x86 = 6, x86_clflush_size = 64,
     tlb_single_page_flush_ceiling = 33, irqs_disabled = False, early_boot_irqs_disabled = False,
     alloc_pages = (\<lambda>k. 0x80000000 + 4096 * of_nat k),
     get_zeroed_page = (\<lambda>k. 0x80000000 + 4096 * of_nat k),
     reserve_memtype = (\<lambda>_ _ _ _. 0), EINVAL = 22, ENOMEM = 12, EFAULT = 14\<rparr>"

lemma x86_layout_simps:
  assumes "x86_layout h"
  shows "PAGE_SHIFT h = 12" "PAGE_SIZE h = 4096" "PAGE_MASK h = NOT 4095"
    "PMD_SIZE h = 0x200000" "PMD_MASK h = NOT 0x1FFFFF" "PUD_SIZE h = 0x40000000"
    "PUD_MASK h = NOT 0x3FFFFFFF" "PTRS_PER_PTE h = 512"
    "page_level_size h PG_LEVEL_2M = 0x200000" "page_level_mask h PG_LEVEL_2M = NOT 0x1FFFFF"
    "page_level_size h PG_LEVEL_1G = 0x40000000"
    "page_level_mask h PG_LEVEL_1G = NOT 0x3FFFFFFF"
  using assms by (simp_all add: x86_layout_def)

lemma x86_bits_simps:
  assumes "x86_bits h"
  shows "PAGE_PRESENT h = 1" "PAGE_RW h = 2" "PAGE_PSE h = 0x80" "PAGE_GLOBAL h = 0x100"
    "PAGE_NX h = 0x8000000000000000"
  using assms by (simp_all add: x86_bits_def)

end
