(* ===== verification/Pageattr.thy ===== *)
theory Pageattr
  imports Pg_Hdr
begin

text \<open>
  The first half of \<open>kernel_modify/pageattr.c\<close>: the flushing context \<open>struct cpa_data\<close>,
  address ranges, the static protections of kernel text, rodata and the BIOS area, page
  table walks, and cache/TLB flushing. The state \<open>pt_st\<close> holds the page-table words, the
  per-level mapping counters, and a log of the flushes, frees and warnings, in order.
  The configuration is the one of \<open>kernel_modify/.config\<close>: 64 bit, \<open>CONFIG_PROC_FS\<close>, no CPA
  statistics, no page-allocation debugging (so \<open>cpa_lock\<close> is taken), no PCI BIOS (a 32-bit option).
\<close>

section \<open>Data\<close>

datatype cpa_warn = CPA_CONFLICT | CPA_PROTECT | CPA_DETECT

text \<open>The C enum is compared with \<open>>\<close>; its order is the order of declaration.\<close>

primrec cpa_warn_ord :: "cpa_warn \<Rightarrow> nat" where
  "cpa_warn_ord CPA_CONFLICT = 0"
| "cpa_warn_ord CPA_PROTECT = 1"
| "cpa_warn_ord CPA_DETECT = 2"

instantiation cpa_warn :: linorder
begin

definition less_eq_cpa_warn :: "cpa_warn \<Rightarrow> cpa_warn \<Rightarrow> bool" where
  "less_eq_cpa_warn a b \<longleftrightarrow> cpa_warn_ord a \<le> cpa_warn_ord b"

definition less_cpa_warn :: "cpa_warn \<Rightarrow> cpa_warn \<Rightarrow> bool" where
  "less_cpa_warn a b \<longleftrightarrow> cpa_warn_ord a < cpa_warn_ord b"

instance
proof
  fix a b :: cpa_warn
  show "a \<le> b \<Longrightarrow> b \<le> a \<Longrightarrow> a = b"
    by (cases a; cases b) (simp_all add: less_eq_cpa_warn_def)
qed (auto simp: less_eq_cpa_warn_def less_cpa_warn_def)

end

definition cpa_warn_level :: cpa_warn where
  "cpa_warn_level = CPA_PROTECT"

definition CPA_FLUSHTLB :: u32 where "CPA_FLUSHTLB = 1"
definition CPA_ARRAY :: u32 where "CPA_ARRAY = 2"
definition CPA_PAGES_ARRAY :: u32 where "CPA_PAGES_ARRAY = 4"
definition CPA_NO_CHECK_ALIAS :: u32 where "CPA_NO_CHECK_ALIAS = 8"

text \<open>The fields of the C struct; those whose names are common variable names carry a leading \<open>c\<close>.
  \<open>cvaddr\<close> is the array the C pointer points to; \<open>cpgd = None\<close> is the null pointer.\<close>

record cpa_data =
  cvaddr :: "u64 list"
  cpgd :: "u64 option"
  mask_set :: u64
  mask_clr :: u64
  numpages :: u64
  curpage :: u64
  cpfn :: u64
  cflags :: u32
  force_split :: bool
  force_static_prot :: bool
  force_flush_all :: bool
  cpages :: "u64 list"

text \<open>A warning that \<open>check_conflict\<close> prints: text, range, frame, request and what is prevented.\<close>

type_synonym cpa_msg = "string \<times> u64 \<times> u64 \<times> u64 \<times> u64 \<times> u64"

datatype pt_event =
    FlushTlbAll                 \<comment> \<open>\<open>flush_tlb_all()\<close>: every CPU\<close>
  | FlushTlbLocal               \<comment> \<open>\<open>__flush_tlb_all()\<close>\<close>
  | FlushTlbOne u64             \<comment> \<open>\<open>__flush_tlb_one_kernel()\<close>\<close>
  | Wbinvd
  | Clflush u64
  | Mb
  | FreePage u64
  | ReserveMemtype u64 u64 cmode
  | FreeMemtype u64 u64
  | ParavirtAllocPte u64
  | KmapFlushUnused
  | VmUnmapAliases
  | Warn cpa_msg
  | WarnOnce string

record pt_st =
  ptm :: ptmem
  page_calls :: nat
  direct_pages_count :: "pg_level \<Rightarrow> u64"
  pt_log :: "pt_event list"

definition pt_event :: "pt_event list \<Rightarrow> 's pt_st_scheme \<Rightarrow> 's pt_st_scheme" where
  "pt_event es s = s\<lparr>pt_log := pt_log s @ es\<rparr>"

definition set_pte :: "u64 \<Rightarrow> u64 \<Rightarrow> 's pt_st_scheme \<Rightarrow> 's pt_st_scheme" where
  "set_pte p e s = s\<lparr>ptm := (ptm s)(p := e)\<rparr>"

section \<open>Counters of the direct mapping\<close>

definition update_page_count :: "pg_level \<Rightarrow> u64 \<Rightarrow> 's pt_st_scheme \<Rightarrow> 's pt_st_scheme" where
  "update_page_count level n s =
     s\<lparr>direct_pages_count := (direct_pages_count s)(level := direct_pages_count s level + n)\<rparr>"

text \<open>\<open>level - 1\<close> of the kernel's numbering.\<close>

primrec level_below :: "pg_level \<Rightarrow> pg_level" where
  "level_below PG_LEVEL_NONE = PG_LEVEL_NONE"
| "level_below PG_LEVEL_4K = PG_LEVEL_NONE"
| "level_below PG_LEVEL_2M = PG_LEVEL_4K"
| "level_below PG_LEVEL_1G = PG_LEVEL_2M"
| "level_below PG_LEVEL_512G = PG_LEVEL_1G"

definition split_page_count :: "'h hdr_scheme \<Rightarrow> pg_level \<Rightarrow> 's pt_st_scheme \<Rightarrow> 's pt_st_scheme" where
  "split_page_count h level s =
     (if direct_pages_count s level = 0 then s
      else let c = (direct_pages_count s)(level := direct_pages_count s level - 1)
        in s\<lparr>direct_pages_count :=
              c(level_below level := c (level_below level) + of_nat (PTRS_PER_PTE h))\<rparr>)"

text \<open>The lines of \<open>/proc/meminfo\<close>: a name and a number of kilobytes.\<close>

definition arch_report_meminfo :: "bool \<Rightarrow> 's pt_st_scheme \<Rightarrow> (string \<times> u64) list" where
  "arch_report_meminfo direct_gbpages s =
     [(''DirectMap4k'', push_bit 2 (direct_pages_count s PG_LEVEL_4K)),
      (''DirectMap2M'', push_bit 11 (direct_pages_count s PG_LEVEL_2M))]
     @ (if direct_gbpages then [(''DirectMap1G'', push_bit 20 (direct_pages_count s PG_LEVEL_1G))] else [])"

section \<open>Ranges and addresses\<close>

definition within :: "u64 \<Rightarrow> u64 \<Rightarrow> u64 \<Rightarrow> bool" where
  "within addr start end' \<longleftrightarrow> addr \<ge> start \<and> addr < end'"

definition within_inclusive :: "u64 \<Rightarrow> u64 \<Rightarrow> u64 \<Rightarrow> bool" where
  "within_inclusive addr start end' \<longleftrightarrow> addr \<ge> start \<and> addr \<le> end'"

definition highmap_start_pfn :: "'h hdr_scheme \<Rightarrow> u64" where
  "highmap_start_pfn h = drop_bit (PAGE_SHIFT h) (pa_symbol h (ksym h STEXT))"

definition highmap_end_pfn :: "'h hdr_scheme \<Rightarrow> u64" where
  "highmap_end_pfn h =
     drop_bit (PAGE_SHIFT h) (pa_symbol h (roundup_to h (ksym h SBRK_END) (PMD_SIZE h) - 1))"

definition cpa_pfn_in_highmap :: "'h hdr_scheme \<Rightarrow> u64 \<Rightarrow> bool" where
  "cpa_pfn_in_highmap h pf = within_inclusive pf (highmap_start_pfn h) (highmap_end_pfn h)"

text \<open>\<open>(long)(addr << 1) >> 1\<close>: the shift right is arithmetic.\<close>

definition fix_addr :: "u64 \<Rightarrow> u64" where
  "fix_addr addr = signed_drop_bit 1 (push_bit 1 addr)"

definition cpa_addr :: "'h hdr_scheme \<Rightarrow> cpa_data \<Rightarrow> u64 \<Rightarrow> u64" where
  "cpa_addr h cpa idx =
     (if test (cflags cpa) CPA_PAGES_ARRAY
      then let page = cpages cpa ! unat idx
        in if PageHighMem h page then 0 else page_address h page
      else if test (cflags cpa) CPA_ARRAY then cvaddr cpa ! unat idx
      else hd (cvaddr cpa) + idx * PAGE_SIZE h)"

definition overlaps :: "u64 \<Rightarrow> u64 \<Rightarrow> u64 \<Rightarrow> u64 \<Rightarrow> bool" where
  "overlaps r1_start r1_end r2_start r2_end \<longleftrightarrow>
     (r1_start \<le> r2_end \<and> r1_end \<ge> r2_start) \<or> (r2_start \<le> r1_end \<and> r2_end \<ge> r1_start)"

section \<open>Page-table walks\<close>

text \<open>The pointer (\<open>None\<close> for null) and what \<open>*level\<close> holds on return.\<close>

definition lookup_address_in_pgd ::
  "'h hdr_scheme \<Rightarrow> ptmem \<Rightarrow> u64 \<Rightarrow> u64 \<Rightarrow> u64 option \<times> pg_level" where
  "lookup_address_in_pgd h m pgd address =
     (if pgd_none h (m pgd) then (None, PG_LEVEL_NONE) else
      let p4d = p4d_offset h m pgd address in
      if p4d_none h (m p4d) then (None, PG_LEVEL_NONE) else
      if p4d_large h (m p4d) \<or> \<not> p4d_present h (m p4d) then (Some p4d, PG_LEVEL_512G) else
      let pud = pud_offset h m p4d address in
      if pud_none h (m pud) then (None, PG_LEVEL_512G) else
      if pud_large h (m pud) \<or> \<not> pud_present h (m pud) then (Some pud, PG_LEVEL_1G) else
      let pmd = pmd_offset h m pud address in
      if pmd_none h (m pmd) then (None, PG_LEVEL_1G) else
      if pmd_large h (m pmd) \<or> \<not> pmd_present h (m pmd) then (Some pmd, PG_LEVEL_2M) else
      (Some (pte_offset_kernel h m pmd address), PG_LEVEL_4K))"

definition lookup_address :: "'h hdr_scheme \<Rightarrow> ptmem \<Rightarrow> u64 \<Rightarrow> u64 option \<times> pg_level" where
  "lookup_address h m address = lookup_address_in_pgd h m (pgd_offset_k h address) address"

text \<open>\<open>cpa->pgd + pgd_index(address)\<close> is pointer arithmetic on 8-byte entries.\<close>

definition lookup_address_cpa ::
  "'h hdr_scheme \<Rightarrow> ptmem \<Rightarrow> cpa_data \<Rightarrow> u64 \<Rightarrow> u64 option \<times> pg_level" where
  "lookup_address_cpa h m cpa address =
     (case cpgd cpa of
        Some p \<Rightarrow> lookup_address_in_pgd h m (p + 8 * pgd_index h address) address
      | None \<Rightarrow> lookup_address h m address)"

definition lookup_pmd_address :: "'h hdr_scheme \<Rightarrow> ptmem \<Rightarrow> u64 \<Rightarrow> u64 option" where
  "lookup_pmd_address h m address =
     (let pgd = pgd_offset_k h address in
      if pgd_none h (m pgd) then None else
      let p4d = p4d_offset h m pgd address in
      if p4d_none h (m p4d) \<or> p4d_large h (m p4d) \<or> \<not> p4d_present h (m p4d) then None else
      let pud = pud_offset h m p4d address in
      if pud_none h (m pud) \<or> pud_large h (m pud) \<or> \<not> pud_present h (m pud) then None else
      Some (pmd_offset h m pud address))"

text \<open>\<open>None\<close> is the \<open>BUG_ON(!pte)\<close>.\<close>

definition slow_virt_to_phys :: "'h hdr_scheme \<Rightarrow> ptmem \<Rightarrow> u64 \<Rightarrow> u64 option" where
  "slow_virt_to_phys h m virt_addr =
     (case lookup_address h m virt_addr of
        (None, _) \<Rightarrow> None
      | (Some pte, level) \<Rightarrow>
          let (phys_addr, offset) =
            (case level of
               PG_LEVEL_1G \<Rightarrow> (push_bit (PAGE_SHIFT h) (pud_pfn h (m pte)), virt_addr AND NOT (PUD_MASK h))
             | PG_LEVEL_2M \<Rightarrow> (push_bit (PAGE_SHIFT h) (pmd_pfn h (m pte)), virt_addr AND NOT (PMD_MASK h))
             | _ \<Rightarrow> (push_bit (PAGE_SHIFT h) (pte_pfn h (m pte)), virt_addr AND NOT (PAGE_MASK h)))
          in Some (phys_addr OR offset))"

section \<open>Static protections\<close>

text \<open>\<open>CONFIG_PCI_BIOS\<close> is a 32-bit option.\<close>

definition protect_pci_bios :: "u64 \<Rightarrow> u64 \<Rightarrow> u64" where
  "protect_pci_bios spfn epfn = 0"

definition protect_rodata :: "'h hdr_scheme \<Rightarrow> u64 \<Rightarrow> u64 \<Rightarrow> u64" where
  "protect_rodata h spfn epfn =
     (let spfn_ro = PFN_DOWN h (pa_symbol h (ksym h SSTART_RODATA));
          epfn_ro = PFN_DOWN h (pa_symbol h (ksym h SEND_RODATA)) - 1
      in if kernel_set_to_readonly h \<and> overlaps spfn epfn spfn_ro epfn_ro then PAGE_RW h else 0)"

definition protect_kernel_text :: "'h hdr_scheme \<Rightarrow> u64 \<Rightarrow> u64 \<Rightarrow> u64" where
  "protect_kernel_text h start end' =
     (let t_end = ksym h SETEXT - 1; t_start = ksym h STEXT
      in if overlaps start end' t_start t_end then PAGE_NX h else 0)"

definition protect_kernel_text_ro :: "'h hdr_scheme \<Rightarrow> ptmem \<Rightarrow> u64 \<Rightarrow> u64 \<Rightarrow> u64" where
  "protect_kernel_text_ro h m start end' =
     (let t_end = ksym h SEND_RODATA_HPAGE - 1; t_start = ksym h STEXT
      in if \<not> kernel_set_to_readonly h \<or> \<not> overlaps start end' t_start t_end then 0
         else let (pte, level) = lookup_address h m start
           in if pte \<noteq> None \<and> level \<noteq> PG_LEVEL_4K then PAGE_RW h else 0)"

definition conflicts :: "u64 \<Rightarrow> u64 \<Rightarrow> bool" where
  "conflicts prot val \<longleftrightarrow> (prot AND NOT val) \<noteq> prot"

definition check_conflict ::
  "cpa_warn \<Rightarrow> u64 \<Rightarrow> u64 \<Rightarrow> u64 \<Rightarrow> u64 \<Rightarrow> u64 \<Rightarrow> string \<Rightarrow> pt_event list" where
  "check_conflict warnlvl prot val start end' pf txt =
     (if warnlvl > cpa_warn_level \<or> \<not> conflicts prot val then []
      else [Warn (txt, start, end', pf, prot, val)])"

text \<open>The protection and the warnings printed, in order.\<close>

definition static_protections ::
  "'h hdr_scheme \<Rightarrow> ptmem \<Rightarrow> u64 \<Rightarrow> u64 \<Rightarrow> u64 \<Rightarrow> u64 \<Rightarrow> u64 \<Rightarrow> cpa_warn \<Rightarrow> u64 \<times> pt_event list" where
  "static_protections h m prot start pf npg lpsize warnlvl =
     (if \<not> test prot (PAGE_PRESENT h) then (prot, []) else
      let end' = start + npg * PAGE_SIZE h - 1;
          res1 = protect_kernel_text h start end';
          w1 = check_conflict warnlvl prot res1 start end' pf ''Text NX'';
          (res2, w2) =
            (if lpsize \<noteq> npg * PAGE_SIZE h \<or> test start (lpsize - 1)
             then let res = protect_kernel_text_ro h m start end'
               in (res, check_conflict warnlvl prot res start end' pf ''Text RO'')
             else (0, []));
          res3 = protect_pci_bios pf (pf + npg - 1);
          w3 = check_conflict warnlvl prot res3 start end' pf ''PCIBIOS NX'';
          res4 = protect_rodata h pf (pf + npg - 1);
          w4 = check_conflict warnlvl prot res4 start end' pf ''Rodata RO'';
          forbidden = ((res1 OR res2) OR res3) OR res4
      in (prot AND NOT forbidden, w1 @ w2 @ w3 @ w4))"

definition pgprot_clear_protnone_bits :: "'h hdr_scheme \<Rightarrow> u64 \<Rightarrow> u64" where
  "pgprot_clear_protnone_bits h prot =
     (if \<not> test prot (PAGE_PRESENT h) then prot AND NOT (PAGE_GLOBAL h) else prot)"

section \<open>Flushing\<close>

text \<open>
  \<open>for (; p < vend; p += clflush_size) clflushopt(p)\<close>: \<open>n\<close> bounds the number of steps. The
  loop runs over \<open>size\<close> bytes and the part of a line before them, so \<open>size + clflush_size\<close>
  steps are enough for a line size of at least one byte.
\<close>

primrec clflush_lines :: "nat \<Rightarrow> u64 \<Rightarrow> u64 \<Rightarrow> u64 \<Rightarrow> pt_event list" where
  "clflush_lines 0 clsz p vend = []"
| "clflush_lines (Suc n) clsz p vend =
     (if p < vend then Clflush p # clflush_lines n clsz (p + clsz) vend else [])"

definition clflush_cache_range_opt :: "'h hdr_scheme \<Rightarrow> u64 \<Rightarrow> u32 \<Rightarrow> pt_event list" where
  "clflush_cache_range_opt h va sz =
     (let clsz = x86_clflush_size h; p = va AND NOT (clsz - 1); vend = va + ucast sz
      in if p \<ge> vend then [] else clflush_lines (unat sz + unat clsz) clsz p vend)"

definition clflush_cache_range :: "'h hdr_scheme \<Rightarrow> u64 \<Rightarrow> u32 \<Rightarrow> 's pt_st_scheme \<Rightarrow> 's pt_st_scheme" where
  "clflush_cache_range h va sz s = pt_event ([Mb] @ clflush_cache_range_opt h va sz @ [Mb]) s"

text \<open>The \<open>size_t\<close> argument is truncated to \<open>unsigned int\<close> by the call.\<close>

definition arch_invalidate_pmem :: "'h hdr_scheme \<Rightarrow> u64 \<Rightarrow> u64 \<Rightarrow> 's pt_st_scheme \<Rightarrow> 's pt_st_scheme" where
  "arch_invalidate_pmem h addr sz s = clflush_cache_range h addr (ucast sz) s"

definition raw_cpa_flush_all :: "'h hdr_scheme \<Rightarrow> bool \<Rightarrow> pt_event list" where
  "raw_cpa_flush_all h cache =
     [FlushTlbLocal] @ (if cache \<and> boot_cpu_x86 h \<ge> 4 then [Wbinvd] else [])"

text \<open>\<open>None\<close> is the \<open>BUG_ON\<close> of flushing with interrupts off.\<close>

definition cpa_flush_all :: "'h hdr_scheme \<Rightarrow> bool \<Rightarrow> 's pt_st_scheme \<Rightarrow> 's pt_st_scheme option" where
  "cpa_flush_all h cache s =
     (if irqs_disabled h \<and> \<not> early_boot_irqs_disabled h then None
      else Some (pt_event (raw_cpa_flush_all h cache) s))"

definition raw_cpa_flush_tlb :: "'h hdr_scheme \<Rightarrow> cpa_data \<Rightarrow> pt_event list" where
  "raw_cpa_flush_tlb h cpa =
     map (\<lambda>i. FlushTlbOne (fix_addr (cpa_addr h cpa (of_nat i)))) [0..<unat (numpages cpa)]"

definition cpa_flush_line :: "'h hdr_scheme \<Rightarrow> ptmem \<Rightarrow> cpa_data \<Rightarrow> nat \<Rightarrow> pt_event list" where
  "cpa_flush_line h m cpa i =
     (let addr = cpa_addr h cpa (of_nat i) in
      case lookup_address h m addr of
        (Some pte, _) \<Rightarrow>
          if test (m pte) (PAGE_PRESENT h)
          then clflush_cache_range_opt h (fix_addr addr) (ucast (PAGE_SIZE h)) else []
      | (None, _) \<Rightarrow> [])"

definition cpa_flush :: "'h hdr_scheme \<Rightarrow> cpa_data \<Rightarrow> bool \<Rightarrow> 's pt_st_scheme \<Rightarrow> 's pt_st_scheme option" where
  "cpa_flush h cpa cache s =
     (if irqs_disabled h \<and> \<not> early_boot_irqs_disabled h then None
      else if cache \<and> \<not> cpu_has_CLFLUSH h then cpa_flush_all h cache s
      else let s1 = pt_event
             (if force_flush_all cpa \<or> numpages cpa > tlb_single_page_flush_ceiling h
              then [FlushTlbAll] else raw_cpa_flush_tlb h cpa) s
        in if \<not> cache then Some s1
           else Some (pt_event ([Mb] @ concat (map (cpa_flush_line h (ptm s) cpa)
                  [0..<unat (numpages cpa)]) @ [Mb]) s1))"

section \<open>The counters stay consistent\<close>

text \<open>
  C39: Splitting a large page of the direct mapping keeps the account: the kilobytes that
  \<open>/proc/meminfo\<close> reports for the direct mapping add up to the same number before and after, for a
  2M page, and for a 1G page where those are reported, and the counter of the level goes down by one
  unless it was 0, in which case nothing changes.
\<close>

theorem meminfo_split:
  assumes "PTRS_PER_PTE h = 512" and "level = PG_LEVEL_2M \<or> level = PG_LEVEL_1G \<and> gb"
  shows "sum_list (map snd (arch_report_meminfo gb (split_page_count h level s))) = sum_list (map snd (arch_report_meminfo gb s))
    \<and> unat (direct_pages_count (split_page_count h level s) level) = unat (direct_pages_count s level) - 1"
  using assms
  by (auto simp: arch_report_meminfo_def split_page_count_def Let_def push_bit_eq_mult algebra_simps unat_minus_one)

theorem meminfo_split_witness:
  "sum_list (map snd (arch_report_meminfo True (split_page_count hdr0 PG_LEVEL_1G
     \<lparr>ptm = (\<lambda>_. 0), page_calls = 0, direct_pages_count = (\<lambda>l. 3), pt_log = []\<rparr>))) = 12 + 6144 + 3145728"
proof -
  have "PTRS_PER_PTE hdr0 = 512" by (simp add: hdr0_def)
  from meminfo_split [OF this, of PG_LEVEL_1G True "\<lparr>ptm = (\<lambda>_. 0), page_calls = 0, direct_pages_count = (\<lambda>l. 3), pt_log = []\<rparr>"]
  show ?thesis by (simp add: arch_report_meminfo_def push_bit_eq_mult)
qed

end
