(* ===== verification/Cpa.thy ===== *)
theory Cpa
  imports Pageattr
begin

text \<open>
  The engine of \<open>kernel_modify/pageattr.c\<close>: deciding whether a large page must be split,
  splitting it, populating and unmapping ranges of an alternate page table, and the loop
  \<open>__change_page_attr_set_clr\<close> with its alias processing. A C function that returns an
  \<open>int\<close> and changes the context or the page tables returns the triple of the three. The
  locks (\<open>cpa_lock\<close>, \<open>pgd_lock\<close>) are not state of the model: operations are taken one at a
  time. A leading \<open>raw_\<close> stands for the leading underscores of a C name.
\<close>

named_theorems frame_simps \<open>the page-table code leaves the rest of the state alone\<close>

section \<open>Outcomes\<close>

text \<open>
  \<open>BUG\<close> is a failed \<open>BUG_ON\<close>; \<open>Spin\<close> is a \<open>repeat\<close> loop that used up its fuel; \<open>Oops\<close> is an
  access through a pointer that points to nothing (the page-table engine has none, its
  clients do).
\<close>

datatype 'a res = Ret 'a | BUG | Spin | Oops

primrec bind_res :: "'a res \<Rightarrow> ('a \<Rightarrow> 'b res) \<Rightarrow> 'b res" where
  "bind_res (Ret x) f = f x"
| "bind_res BUG f = BUG"
| "bind_res Spin f = Spin"
| "bind_res Oops f = Oops"

definition res_of_option :: "'a option \<Rightarrow> 'a res" where
  "res_of_option x = (case x of Some y \<Rightarrow> Ret y | None \<Rightarrow> BUG)"

section \<open>Keeping or splitting a large page\<close>

definition raw_should_split_large_page ::
  "'h hdr_scheme \<Rightarrow> u64 \<Rightarrow> u64 \<Rightarrow> cpa_data \<Rightarrow> 's pt_st_scheme \<Rightarrow> int \<times> cpa_data \<times> 's pt_st_scheme" where
  "raw_should_split_large_page h kpte address cpa s =
     (let m = ptm s; (tmp, level) = lookup_address_cpa h m cpa address in
      if tmp \<noteq> Some kpte then (1, cpa, s) else
      if level \<noteq> PG_LEVEL_2M \<and> level \<noteq> PG_LEVEL_1G then (- EINVAL h, cpa, s) else
      let old_prot = (if level = PG_LEVEL_2M then pmd_pgprot h (m kpte) else pud_pgprot h (m kpte));
          old_pfn = (if level = PG_LEVEL_2M then pmd_pfn h (m kpte) else pud_pfn h (m kpte));
          psize = page_level_size h level;
          pmask = page_level_mask h level;
          fit = drop_bit (PAGE_SHIFT h) (((address + psize) AND pmask) - address);
          cpa1 = (if fit < numpages cpa then cpa\<lparr>numpages := fit\<rparr> else cpa);
          req1 = (pgprot_large_2_4k h old_prot AND NOT (mask_clr cpa)) OR mask_set cpa;
          req2 = pgprot_clear_protnone_bits h (pgprot_4k_2_large h req1);
          req_prot = (if test req2 (PAGE_PRESENT h) then req2 OR PAGE_PSE h else req2);
          cpa2 = cpa1\<lparr>cpfn := old_pfn + drop_bit (PAGE_SHIFT h) (address AND (psize - 1))\<rparr>;
          lpaddr = address AND pmask;
          npg = drop_bit (PAGE_SHIFT h) psize;
          (chk_prot, w) = static_protections h m old_prot lpaddr old_pfn npg psize CPA_CONFLICT;
          s1 = pt_event w s
      in if chk_prot \<noteq> old_prot
         then (1, cpa2\<lparr>force_static_prot := True\<rparr>, pt_event [WarnOnce ''static protections''] s1)
         else if req_prot = old_prot then (0, cpa2, s1)
         else if address \<noteq> lpaddr \<or> numpages cpa2 \<noteq> npg then (1, cpa2, s1)
         else let (new_prot, w') = static_protections h m req_prot lpaddr old_pfn npg psize CPA_DETECT;
                  s2 = pt_event w' s1
           in if req_prot \<noteq> new_prot then (1, cpa2, s2)
              else (0, cpa2\<lparr>cflags := cflags cpa2 OR CPA_FLUSHTLB\<rparr>,
                    set_pte kpte (pfn_pte h old_pfn new_prot) s2))"

definition should_split_large_page ::
  "'h hdr_scheme \<Rightarrow> u64 \<Rightarrow> u64 \<Rightarrow> cpa_data \<Rightarrow> 's pt_st_scheme \<Rightarrow> int \<times> cpa_data \<times> 's pt_st_scheme" where
  "should_split_large_page h kpte address cpa s =
     (if force_split cpa then (1, cpa, s) else raw_should_split_large_page h kpte address cpa s)"

definition split_set_pte ::
  "'h hdr_scheme \<Rightarrow> cpa_data \<Rightarrow> u64 \<Rightarrow> u64 \<Rightarrow> u64 \<Rightarrow> u64 \<Rightarrow> u64 \<Rightarrow> 's pt_st_scheme \<Rightarrow> 's pt_st_scheme" where
  "split_set_pte h cpa pte pf ref_prot address sz s =
     (if \<not> force_static_prot cpa then set_pte pte (pfn_pte h pf ref_prot) s
      else let npg = ucast (ucast (PFN_DOWN h sz) :: u32);
               (prot, w) = static_protections h (ptm s) ref_prot address pf npg 0 CPA_PROTECT;
               s1 = pt_event w s
        in if prot = ref_prot then set_pte pte (pfn_pte h pf ref_prot) s1
           else if sz = PAGE_SIZE h then set_pte pte (pfn_pte h pf prot) s1
           else set_pte pte (pfn_pte h pf ref_prot)
                  (pt_event [WarnOnce ''CPA: Cannot fixup static protections for PUD split''] s1))"

text \<open>The \<open>for\<close> loop that fills the new table; \<open>n\<close> entries are left.\<close>

primrec split_ptes ::
  "nat \<Rightarrow> 'h hdr_scheme \<Rightarrow> cpa_data \<Rightarrow> u64 \<Rightarrow> u64 \<Rightarrow> u64 \<Rightarrow> u64 \<Rightarrow> u64 \<Rightarrow> u64
     \<Rightarrow> 's pt_st_scheme \<Rightarrow> 's pt_st_scheme" where
  "split_ptes 0 h cpa pte pf pfninc ref_prot lpaddr lpinc s = s"
| "split_ptes (Suc n) h cpa pte pf pfninc ref_prot lpaddr lpinc s =
     split_ptes n h cpa (pte + 8) (pf + pfninc) pfninc ref_prot (lpaddr + lpinc) lpinc
       (split_set_pte h cpa pte pf ref_prot lpaddr lpinc s)"

definition raw_split_large_page ::
  "'h hdr_scheme \<Rightarrow> cpa_data \<Rightarrow> u64 \<Rightarrow> u64 \<Rightarrow> u64 \<Rightarrow> 's pt_st_scheme \<Rightarrow> int \<times> 's pt_st_scheme" where
  "raw_split_large_page h cpa kpte address base s =
     (let m = ptm s; (tmp, level) = lookup_address_cpa h m cpa address in
      if tmp \<noteq> Some kpte then (1, s) else
      let s0 = pt_event [ParavirtAllocPte (page_to_pfn h base)] s in
      if level \<noteq> PG_LEVEL_2M \<and> level \<noteq> PG_LEVEL_1G then (1, s0) else
      let (ref0, ref_pfn, lpaddr, lpinc, pfninc) =
            (if level = PG_LEVEL_2M
             then (pgprot_large_2_4k h (pmd_pgprot h (m kpte)), pmd_pfn h (m kpte),
                   address AND PMD_MASK h, PAGE_SIZE h, 1)
             else let p = pud_pgprot h (m kpte)
               in (if \<not> test p (PAGE_PRESENT h) then p AND NOT (PAGE_PSE h) else p,
                   pud_pfn h (m kpte), address AND PUD_MASK h, PMD_SIZE h,
                   drop_bit (PAGE_SHIFT h) (PMD_SIZE h)));
          ref_prot = pgprot_clear_protnone_bits h ref0;
          s1 = split_ptes (PTRS_PER_PTE h) h cpa (page_address h base) ref_pfn pfninc ref_prot
                 lpaddr lpinc s0;
          s2 = (if virt_addr_valid h address
                then let pf = PFN_DOWN h (phys_of h address)
                  in if pfn_range_is_mapped h pf (pf + 1) then split_page_count h level s1 else s1
                else s1);
          s3 = set_pte kpte (mk_pte h base (KERNPG_TABLE h)) s2
      in (0, pt_event [FlushTlbAll] s3))"

definition split_large_page ::
  "'h hdr_scheme \<Rightarrow> cpa_data \<Rightarrow> u64 \<Rightarrow> u64 \<Rightarrow> 's pt_st_scheme \<Rightarrow> int \<times> 's pt_st_scheme" where
  "split_large_page h cpa kpte address s =
     (let base = alloc_pages h (page_calls s); s1 = s\<lparr>page_calls := Suc (page_calls s)\<rparr> in
      if base = 0 then (- ENOMEM h, s1)
      else let (r, s2) = raw_split_large_page h cpa kpte address base s1
        in (0, if r \<noteq> 0 then pt_event [FreePage base] s2 else s2))"

section \<open>Unmapping a range\<close>

definition table_empty :: "'h hdr_scheme \<Rightarrow> lvl \<Rightarrow> ptmem \<Rightarrow> u64 \<Rightarrow> bool" where
  "table_empty h l m t \<longleftrightarrow> list_all (\<lambda>i. ent_none h l (m (t + 8 * of_nat i))) [0..<PTRS_PER_PTE h]"

definition try_to_free_pte_page :: "'h hdr_scheme \<Rightarrow> u64 \<Rightarrow> 's pt_st_scheme \<Rightarrow> bool \<times> 's pt_st_scheme" where
  "try_to_free_pte_page h pte s =
     (if table_empty h Pte (ptm s) pte then (True, pt_event [FreePage pte] s) else (False, s))"

definition try_to_free_pmd_page :: "'h hdr_scheme \<Rightarrow> u64 \<Rightarrow> 's pt_st_scheme \<Rightarrow> bool \<times> 's pt_st_scheme" where
  "try_to_free_pmd_page h pmd s =
     (if table_empty h Pmd (ptm s) pmd then (True, pt_event [FreePage pmd] s) else (False, s))"

text \<open>
  \<open>while (start < end)\<close> in steps of one page; \<open>n\<close> bounds the steps. The caller hands in one
  more than the number of whole pages of the range.
\<close>

primrec unmap_ptes ::
  "nat \<Rightarrow> 'h hdr_scheme \<Rightarrow> u64 \<Rightarrow> u64 \<Rightarrow> u64 \<Rightarrow> 's pt_st_scheme \<Rightarrow> 's pt_st_scheme" where
  "unmap_ptes 0 h pte start end' s = s"
| "unmap_ptes (Suc n) h pte start end' s =
     (if start < end'
      then unmap_ptes n h (pte + 8) (start + PAGE_SIZE h) end' (set_pte pte 0 s) else s)"

definition unmap_pte_range ::
  "'h hdr_scheme \<Rightarrow> u64 \<Rightarrow> u64 \<Rightarrow> u64 \<Rightarrow> 's pt_st_scheme \<Rightarrow> bool \<times> 's pt_st_scheme" where
  "unmap_pte_range h pmd start end' s =
     (let s1 = unmap_ptes (unat ((end' - start) div PAGE_SIZE h) + 1) h
                 (pte_offset_kernel h (ptm s) pmd start) start end' s;
          (freed, s2) = try_to_free_pte_page h (pmd_page_vaddr h (ptm s1 pmd)) s1
      in if freed then (True, set_pte pmd 0 s2) else (False, s2))"

definition raw_unmap_pmd_range ::
  "'h hdr_scheme \<Rightarrow> u64 \<Rightarrow> u64 \<Rightarrow> u64 \<Rightarrow> u64 \<Rightarrow> 's pt_st_scheme \<Rightarrow> 's pt_st_scheme" where
  "raw_unmap_pmd_range h pud pmd start end' s =
     (let (r, s1) = unmap_pte_range h pmd start end' s in
      if r then let (freed, s2) = try_to_free_pmd_page h (pud_page_vaddr h (ptm s1 pud)) s1
        in if freed then set_pte pud 0 s2 else s2
      else s1)"

text \<open>The 2M chunks; \<open>end - start\<close> shrinks by a chunk in every step, so \<open>n\<close> chunks are exact.\<close>

primrec unmap_pmd_chunks ::
  "nat \<Rightarrow> 'h hdr_scheme \<Rightarrow> u64 \<Rightarrow> u64 \<Rightarrow> u64 \<Rightarrow> u64 \<Rightarrow> 's pt_st_scheme
     \<Rightarrow> u64 \<times> u64 \<times> 's pt_st_scheme" where
  "unmap_pmd_chunks 0 h pud pmd start end' s = (pmd, start, s)"
| "unmap_pmd_chunks (Suc n) h pud pmd start end' s =
     (if end' - start \<ge> PMD_SIZE h
      then unmap_pmd_chunks n h pud (pmd + 8) (start + PMD_SIZE h) end'
             (if pmd_large h (ptm s pmd) then set_pte pmd 0 s
              else raw_unmap_pmd_range h pud pmd start (start + PMD_SIZE h) s)
      else (pmd, start, s))"

definition unmap_pmd_range ::
  "'h hdr_scheme \<Rightarrow> u64 \<Rightarrow> u64 \<Rightarrow> u64 \<Rightarrow> 's pt_st_scheme \<Rightarrow> 's pt_st_scheme" where
  "unmap_pmd_range h pud start end' s =
     (let pmd = pmd_offset h (ptm s) pud start;
          (pmd1, start1, s1) =
            (if test start (PMD_SIZE h - 1)
             then let pre_end = min end' ((start + PMD_SIZE h) AND PMD_MASK h)
               in (pmd + 8, pre_end, raw_unmap_pmd_range h pud pmd start pre_end s)
             else (pmd, start, s));
          (pmd2, start2, s2) =
            unmap_pmd_chunks (unat ((end' - start1) div PMD_SIZE h)) h pud pmd1 start1 end' s1
      in if start2 < end' then raw_unmap_pmd_range h pud pmd2 start2 end' s2
         else if \<not> pud_none h (ptm s2 pud)
         then let (freed, s3) = try_to_free_pmd_page h (pud_page_vaddr h (ptm s2 pud)) s2
           in if freed then set_pte pud 0 s3 else s3
         else s2)"

primrec unmap_pud_chunks ::
  "nat \<Rightarrow> 'h hdr_scheme \<Rightarrow> u64 \<Rightarrow> u64 \<Rightarrow> u64 \<Rightarrow> 's pt_st_scheme \<Rightarrow> u64 \<times> u64 \<times> 's pt_st_scheme" where
  "unmap_pud_chunks 0 h pud start end' s = (pud, start, s)"
| "unmap_pud_chunks (Suc n) h pud start end' s =
     (if end' - start \<ge> PUD_SIZE h
      then unmap_pud_chunks n h (pud + 8) (start + PUD_SIZE h) end'
             (if pud_large h (ptm s pud) then set_pte pud 0 s
              else unmap_pmd_range h pud start (start + PUD_SIZE h) s)
      else (pud, start, s))"

definition unmap_pud_range ::
  "'h hdr_scheme \<Rightarrow> u64 \<Rightarrow> u64 \<Rightarrow> u64 \<Rightarrow> 's pt_st_scheme \<Rightarrow> 's pt_st_scheme" where
  "unmap_pud_range h p4d start end' s =
     (let pud = pud_offset h (ptm s) p4d start;
          (pud1, start1, s1) =
            (if test start (PUD_SIZE h - 1)
             then let pre_end = min end' ((start + PUD_SIZE h) AND PUD_MASK h)
               in (pud + 8, pre_end, unmap_pmd_range h pud start pre_end s)
             else (pud, start, s));
          (pud2, start2, s2) =
            unmap_pud_chunks (unat ((end' - start1) div PUD_SIZE h)) h pud1 start1 end' s1
      in if start2 < end' then unmap_pmd_range h pud2 start2 end' s2 else s2)"

section \<open>Populating an alternate page table\<close>

text \<open>\<open>get_zeroed_page\<close>: the address of a page whose words are all zero, or 0.\<close>

primrec zero_words :: "nat \<Rightarrow> u64 \<Rightarrow> ptmem \<Rightarrow> ptmem" where
  "zero_words 0 a m = m"
| "zero_words (Suc n) a m = zero_words n (a + 8) (m(a := 0))"

definition zeroed_page :: "'h hdr_scheme \<Rightarrow> 's pt_st_scheme \<Rightarrow> u64 \<times> 's pt_st_scheme" where
  "zeroed_page h s =
     (let a = get_zeroed_page h (page_calls s); s1 = s\<lparr>page_calls := Suc (page_calls s)\<rparr>
      in (a, if a = 0 then s1 else s1\<lparr>ptm := zero_words (PTRS_PER_PTE h) a (ptm s1)\<rparr>))"

definition alloc_pte_page :: "'h hdr_scheme \<Rightarrow> u64 \<Rightarrow> 's pt_st_scheme \<Rightarrow> int \<times> 's pt_st_scheme" where
  "alloc_pte_page h pmd s =
     (let (pte, s1) = zeroed_page h s in
      if pte = 0 then (-1, s1) else (0, set_pte pmd (phys_of h pte OR KERNPG_TABLE h) s1))"

definition alloc_pmd_page :: "'h hdr_scheme \<Rightarrow> u64 \<Rightarrow> 's pt_st_scheme \<Rightarrow> int \<times> 's pt_st_scheme" where
  "alloc_pmd_page h pud s =
     (let (pmd, s1) = zeroed_page h s in
      if pmd = 0 then (-1, s1) else (0, set_pte pud (phys_of h pmd OR KERNPG_TABLE h) s1))"

text \<open>\<open>while (num_pages-- && start < end)\<close>\<close>

primrec populate_ptes ::
  "nat \<Rightarrow> 'h hdr_scheme \<Rightarrow> cpa_data \<Rightarrow> u64 \<Rightarrow> u64 \<Rightarrow> u64 \<Rightarrow> u64 \<Rightarrow> 's pt_st_scheme
     \<Rightarrow> cpa_data \<times> 's pt_st_scheme" where
  "populate_ptes 0 h cpa start end' pte prot s = (cpa, s)"
| "populate_ptes (Suc n) h cpa start end' pte prot s =
     (if start < end'
      then populate_ptes n h (cpa\<lparr>cpfn := cpfn cpa + 1\<rparr>) (start + PAGE_SIZE h) end' (pte + 8) prot
             (set_pte pte (pfn_pte h (cpfn cpa) prot) s)
      else (cpa, s))"

definition populate_pte ::
  "'h hdr_scheme \<Rightarrow> cpa_data \<Rightarrow> u64 \<Rightarrow> u64 \<Rightarrow> u32 \<Rightarrow> u64 \<Rightarrow> u64 \<Rightarrow> 's pt_st_scheme
     \<Rightarrow> cpa_data \<times> 's pt_st_scheme" where
  "populate_pte h cpa start end' num_pages pmd prot s =
     populate_ptes (unat num_pages) h cpa start end' (pte_offset_kernel h (ptm s) pmd start)
       (pgprot_clear_protnone_bits h prot) s"

text \<open>The 2M chunks of \<open>populate_pmd\<close>: \<open>None\<close> is the failed allocation of a PMD page.\<close>

primrec populate_pmd_chunks ::
  "nat \<Rightarrow> 'h hdr_scheme \<Rightarrow> cpa_data \<Rightarrow> u64 \<Rightarrow> u64 \<Rightarrow> u64 \<Rightarrow> u64 \<Rightarrow> u64 \<Rightarrow> 's pt_st_scheme
     \<Rightarrow> bool \<times> cpa_data \<times> u64 \<times> u64 \<times> 's pt_st_scheme" where
  "populate_pmd_chunks 0 h cpa start end' pud prot cur s = (True, cpa, start, cur, s)"
| "populate_pmd_chunks (Suc n) h cpa start end' pud prot cur s =
     (if end' - start \<ge> PMD_SIZE h
      then let (r, s1) = (if pud_none h (ptm s pud) then alloc_pmd_page h pud s else (0, s)) in
        if r \<noteq> 0 then (False, cpa, start, cur, s1)
        else let step = drop_bit (PAGE_SHIFT h) (PMD_SIZE h);
                 pmd = pmd_offset h (ptm s1) pud start;
                 s2 = set_pte pmd (pmd_mkhuge h (pfn_pmd h (cpfn cpa) (canon_pgprot h prot))) s1
          in populate_pmd_chunks n h (cpa\<lparr>cpfn := cpfn cpa + step\<rparr>) (start + PMD_SIZE h) end' pud
               prot (cur + step) s2
      else (True, cpa, start, cur, s))"

text \<open>
  \<open>num_pages\<close> is an \<open>unsigned\<close>: \<open>num_pages << PAGE_SHIFT\<close> is computed in 32 bits.
  \<open>cur_pages\<close> is a \<open>long\<close>.
\<close>

definition populate_pmd ::
  "'h hdr_scheme \<Rightarrow> cpa_data \<Rightarrow> u64 \<Rightarrow> u64 \<Rightarrow> u32 \<Rightarrow> u64 \<Rightarrow> u64 \<Rightarrow> 's pt_st_scheme
     \<Rightarrow> int \<times> cpa_data \<times> 's pt_st_scheme" where
  "populate_pmd h cpa start end' num_pages pud prot s =
     (let (r, cpa1, start1, cur1, s1) =
        (if test start (PMD_SIZE h - 1)
         then let pre_end = min (start + ucast (push_bit (PAGE_SHIFT h) num_pages))
                              ((start + PMD_SIZE h) AND PMD_MASK h);
                  cur32 = min num_pages (ucast (drop_bit (PAGE_SHIFT h) (pre_end - start)));
                  pmd = pmd_offset h (ptm s) pud start;
                  (r, s1) = (if pmd_none h (ptm s pmd) then alloc_pte_page h pmd s else (0, s))
           in if r \<noteq> 0 then (False, cpa, start, 0, s1)
              else let (cpa1, s2) = populate_pte h cpa start pre_end cur32 pmd prot s1
                in (True, cpa1, pre_end, ucast cur32, s2)
         else (True, cpa, start, 0, s))
      in if \<not> r then (-1, cpa1, s1)
         else if ucast num_pages = cur1 then (sint cur1, cpa1, s1)
         else let (r2, cpa2, start2, cur2, s2) =
                populate_pmd_chunks (unat ((end' - start1) div PMD_SIZE h)) h cpa1 start1 end' pud
                  (pgprot_4k_2_large h prot) cur1 s1
           in if \<not> r2 then (-1, cpa2, s2)
              else if start2 < end'
              then let pmd = pmd_offset h (ptm s2) pud start2;
                       (r3, s3) = (if pmd_none h (ptm s2 pmd) then alloc_pte_page h pmd s2 else (0, s2))
                in if r3 \<noteq> 0 then (-1, cpa2, s3)
                   else let (cpa3, s4) = populate_pte h cpa2 start2 end'
                              (num_pages - ucast cur2) pmd prot s3
                     in (uint num_pages, cpa3, s4)
              else (uint num_pages, cpa2, s2))"

text \<open>The 1G chunks of \<open>populate_pud\<close>.\<close>

primrec populate_pud_chunks ::
  "nat \<Rightarrow> 'h hdr_scheme \<Rightarrow> cpa_data \<Rightarrow> u64 \<Rightarrow> u64 \<Rightarrow> u64 \<Rightarrow> u64 \<Rightarrow> u64 \<Rightarrow> 's pt_st_scheme
     \<Rightarrow> cpa_data \<times> u64 \<times> u64 \<times> 's pt_st_scheme" where
  "populate_pud_chunks 0 h cpa start end' pud prot cur s = (cpa, start, cur, s)"
| "populate_pud_chunks (Suc n) h cpa start end' pud prot cur s =
     (if boot_cpu_has_GBPAGES h \<and> end' - start \<ge> PUD_SIZE h
      then let step = drop_bit (PAGE_SHIFT h) (PUD_SIZE h)
        in populate_pud_chunks n h (cpa\<lparr>cpfn := cpfn cpa + step\<rparr>) (start + PUD_SIZE h) end' (pud + 8)
             prot (cur + step)
             (set_pte pud (pud_mkhuge h (pfn_pud h (cpfn cpa) (canon_pgprot h prot))) s)
      else (cpa, start, cur, s))"

text \<open>\<open>min_t(int, (int)cpa->numpages, cur_pages)\<close> compares 32-bit signed values.\<close>

definition min_int :: "u64 \<Rightarrow> u64 \<Rightarrow> u64" where
  "min_int a b = (let x = (ucast a :: cint); y = (ucast b :: cint)
     in scast (if sint x < sint y then x else y))"

definition populate_pud ::
  "'h hdr_scheme \<Rightarrow> cpa_data \<Rightarrow> u64 \<Rightarrow> u64 \<Rightarrow> u64 \<Rightarrow> 's pt_st_scheme
     \<Rightarrow> int \<times> cpa_data \<times> 's pt_st_scheme" where
  "populate_pud h cpa start p4d prot s =
     (let end' = start + push_bit (PAGE_SHIFT h) (numpages cpa);
          (err, cpa1, start1, cur1, s1) =
        (if test start (PUD_SIZE h - 1)
         then let pre_end = min end' ((start + PUD_SIZE h) AND PUD_MASK h);
                  cur = min_int (numpages cpa) (drop_bit (PAGE_SHIFT h) (pre_end - start));
                  pud = pud_offset h (ptm s) p4d start;
                  (r, s1) = (if pud_none h (ptm s pud) then alloc_pmd_page h pud s else (0, s))
           in if r \<noteq> 0 then (Some (-1), cpa, start, 0, s1)
              else let (cp, cpa1, s2) = populate_pmd h cpa start pre_end (ucast cur) pud prot s1
                in if cp < 0 then (Some cp, cpa1, start, 0, s2)
                   else (None, cpa1, pre_end, word_of_int cp, s2)
         else (None, cpa, start, 0, s))
      in case err of
           Some e \<Rightarrow> (e, cpa1, s1)
         | None \<Rightarrow>
           if numpages cpa1 = cur1 then (sint (ucast cur1 :: cint), cpa1, s1)
           else let pud = pud_offset h (ptm s1) p4d start1;
                    (cpa2, start2, cur2, s2) =
                      populate_pud_chunks (unat ((end' - start1) div PUD_SIZE h)) h cpa1 start1 end'
                        pud (pgprot_4k_2_large h prot) cur1 s1
             in if start2 < end'
                then let pud2 = pud_offset h (ptm s2) p4d start2;
                         (r, s3) = (if pud_none h (ptm s2 pud2) then alloc_pmd_page h pud2 s2 else (0, s2))
                  in if r \<noteq> 0 then (-1, cpa2, s3)
                     else let (tmp, cpa3, s4) = populate_pmd h cpa2 start2 end'
                                (ucast (numpages cpa2 - cur2)) pud2 prot s3
                       in if tmp < 0 then (sint (ucast cur2 :: cint), cpa3, s4)
                          else (sint (ucast (cur2 + word_of_int tmp) :: cint), cpa3, s4)
                else (sint (ucast cur2 :: cint), cpa2, s2))"

definition populate_pgd ::
  "'h hdr_scheme \<Rightarrow> cpa_data \<Rightarrow> u64 \<Rightarrow> u64 \<Rightarrow> 's pt_st_scheme \<Rightarrow> int \<times> cpa_data \<times> 's pt_st_scheme" where
  "populate_pgd h cpa pgd0 addr s =
     (let pgd_entry = pgd0 + 8 * pgd_index h addr;
          (ok1, s1) =
            (if pgd_none h (ptm s pgd_entry)
             then let (p4d, s1) = zeroed_page h s
               in if p4d = 0 then (False, s1)
                  else (True, set_pte pgd_entry (phys_of h p4d OR KERNPG_TABLE h) s1)
             else (True, s))
      in if \<not> ok1 then (-1, cpa, s1) else
      let p4d = p4d_offset h (ptm s1) pgd_entry addr;
          (ok2, s2) =
            (if p4d_none h (ptm s1 p4d)
             then let (pud, s2) = zeroed_page h s1
               in if pud = 0 then (False, s2)
                  else (True, set_pte p4d (phys_of h pud OR KERNPG_TABLE h) s2)
             else (True, s1))
      in if \<not> ok2 then (-1, cpa, s2) else
      let prot = (KERNPG_TABLE h AND NOT (mask_clr cpa)) OR mask_set cpa;
          (ret, cpa1, s3) = populate_pud h cpa addr p4d prot s2
      in if ret < 0
         then (ret, cpa1, unmap_pud_range h p4d addr
                 (addr + push_bit (PAGE_SHIFT h) (numpages cpa1)) s3)
         else (0, cpa1\<lparr>numpages := word_of_int ret\<rparr>, s3))"

section \<open>Changing one page or one large page\<close>

definition raw_cpa_process_fault ::
  "'h hdr_scheme \<Rightarrow> cpa_data \<Rightarrow> u64 \<Rightarrow> bool \<Rightarrow> 's pt_st_scheme \<Rightarrow> int \<times> cpa_data \<times> 's pt_st_scheme" where
  "raw_cpa_process_fault h cpa va primary s =
     (case cpgd cpa of
        Some p \<Rightarrow> populate_pgd h cpa p va s
      | None \<Rightarrow>
          if \<not> primary then (0, cpa\<lparr>numpages := 1\<rparr>, s)
          else if within va (PAGE_OFFSET h)
                 (PAGE_OFFSET h + push_bit (PAGE_SHIFT h) (max_pfn_mapped h))
          then (0, cpa\<lparr>numpages := 1, cpfn := drop_bit (PAGE_SHIFT h) (phys_of h va)\<rparr>, s)
          else if cpa_pfn_in_highmap h (cpfn cpa) then (- EFAULT h, cpa, s)
          else (- EFAULT h, cpa, pt_event [WarnOnce ''CPA: called for zero pte''] s))"

text \<open>The 4K case of \<open>__change_page_attr\<close>: \<open>kpte\<close> is the entry of \<open>address\<close>.\<close>

definition change_4k ::
  "'h hdr_scheme \<Rightarrow> u64 \<Rightarrow> u64 \<Rightarrow> cpa_data \<Rightarrow> 's pt_st_scheme \<Rightarrow> cpa_data \<times> 's pt_st_scheme" where
  "change_4k h kpte address cpa s =
     (let old_pte = ptm s kpte;
          pf = pte_pfn h old_pte;
          prot1 = (pte_pgprot h old_pte AND NOT (mask_clr cpa)) OR mask_set cpa;
          (prot2, w) = static_protections h (ptm s) prot1 address pf 1 0 CPA_PROTECT;
          new_pte = pfn_pte h pf (pgprot_clear_protnone_bits h prot2);
          cpa1 = cpa\<lparr>cpfn := pf\<rparr>;
          s1 = pt_event w s
      in if old_pte \<noteq> new_pte
         then (cpa1\<lparr>cflags := cflags cpa1 OR CPA_FLUSHTLB, numpages := 1\<rparr>, set_pte kpte new_pte s1)
         else (cpa1\<lparr>numpages := 1\<rparr>, s1))"

text \<open>The body after \<open>repeat:\<close>; \<open>fuel\<close> counts the jumps back to it.\<close>

primrec raw_change_page_attr_at ::
  "nat \<Rightarrow> 'h hdr_scheme \<Rightarrow> u64 \<Rightarrow> cpa_data \<Rightarrow> bool \<Rightarrow> 's pt_st_scheme
     \<Rightarrow> (int \<times> cpa_data \<times> 's pt_st_scheme) res" where
  "raw_change_page_attr_at 0 h address cpa primary s = Spin"
| "raw_change_page_attr_at (Suc fuel) h address cpa primary s =
     (case lookup_address_cpa h (ptm s) cpa address of
        (None, _) \<Rightarrow> Ret (raw_cpa_process_fault h cpa address primary s)
      | (Some kpte, level) \<Rightarrow>
          if pte_none h (ptm s kpte) then Ret (raw_cpa_process_fault h cpa address primary s)
          else if level = PG_LEVEL_4K
          then let (cpa1, s1) = change_4k h kpte address cpa s in Ret (0, cpa1, s1)
          else let (do_split, cpa1, s1) = should_split_large_page h kpte address cpa s
            in if do_split \<le> 0 then Ret (do_split, cpa1, s1)
               else let (err, s2) = split_large_page h cpa1 kpte address s1
                 in if err = 0 then raw_change_page_attr_at fuel h address cpa1 primary s2
                    else Ret (err, cpa1, s2))"

text \<open>A walk ends at a 1G, a 2M or a 4K entry, so there are at most two splits per address.\<close>

definition repeat_fuel :: nat where
  "repeat_fuel = 3"

definition raw_change_page_attr ::
  "'h hdr_scheme \<Rightarrow> cpa_data \<Rightarrow> bool \<Rightarrow> 's pt_st_scheme \<Rightarrow> (int \<times> cpa_data \<times> 's pt_st_scheme) res" where
  "raw_change_page_attr h cpa primary s =
     raw_change_page_attr_at repeat_fuel h (cpa_addr h cpa (curpage cpa)) cpa primary s"

section \<open>The loop over the range\<close>

text \<open>
  \<open>__change_page_attr_set_clr\<close> and \<open>cpa_process_alias\<close> call each other, but the alias
  call passes \<open>checkalias = 0\<close>. The loop takes the alias processing as an argument
  (\<open>None\<close> for \<open>checkalias = 0\<close>). \<open>cpa->numpages\<close> pages are done in a step; the \<open>BUG_ON\<close>
  makes that at least one and at most what is left, so the loop ends.
\<close>

function cpa_pages ::
  "'h hdr_scheme
     \<Rightarrow> (cpa_data \<Rightarrow> 's pt_st_scheme \<Rightarrow> (int \<times> cpa_data \<times> 's pt_st_scheme) res) option
     \<Rightarrow> u64 \<Rightarrow> cpa_data \<Rightarrow> 's pt_st_scheme \<Rightarrow> (int \<times> cpa_data \<times> 's pt_st_scheme) res" where
  "cpa_pages h alias rempages cpa s =
     (if rempages = 0 then Ret (0, cpa, s) else
      let cpa0 = cpa\<lparr>numpages := (if test (cflags cpa) (CPA_ARRAY OR CPA_PAGES_ARRAY) then 1 else rempages)\<rparr> in
      bind_res (raw_change_page_attr h cpa0 (alias \<noteq> None) s) (\<lambda>(ret, cpa1, s1).
      if ret \<noteq> 0 then Ret (ret, cpa1, s1) else
      bind_res (case alias of None \<Rightarrow> Ret (0, cpa1, s1) | Some f \<Rightarrow> f cpa1 s1) (\<lambda>(ret2, cpa2, s2).
      if ret2 \<noteq> 0 then Ret (ret2, cpa2, s2)
      else if numpages cpa2 > rempages \<or> numpages cpa2 = 0 then BUG
      else cpa_pages h alias (rempages - numpages cpa2)
             (cpa2\<lparr>curpage := curpage cpa2 + numpages cpa2\<rparr>) s2)))"
  by pat_completeness auto
termination
proof (relation "measure (\<lambda>(h, alias, rempages, cpa, s). unat rempages)", goal_cases)
  case 1
  then show ?case by simp
next
  case (2 h al rempages cpa s)
  then show ?case
    by (simp add: unat_sub not_less word_le_nat_alt unat_gt_0)
qed

declare cpa_pages.simps [simp del]

definition cpa_set_clr ::
  "'h hdr_scheme
     \<Rightarrow> (cpa_data \<Rightarrow> 's pt_st_scheme \<Rightarrow> (int \<times> cpa_data \<times> 's pt_st_scheme) res) option
     \<Rightarrow> cpa_data \<Rightarrow> 's pt_st_scheme \<Rightarrow> (int \<times> cpa_data \<times> 's pt_st_scheme) res" where
  "cpa_set_clr h alias cpa s =
     bind_res (cpa_pages h alias (numpages cpa) cpa s) (\<lambda>(ret, cpa1, s1).
       Ret (ret, cpa1\<lparr>numpages := numpages cpa\<rparr>, s1))"

text \<open>\<open>alias_cpa\<close> is a copy: what the inner call does to it is dropped.\<close>

definition alias_cpa :: "cpa_data \<Rightarrow> u64 \<Rightarrow> cpa_data" where
  "alias_cpa cpa addr = cpa\<lparr>cvaddr := [addr],
     cflags := cflags cpa AND NOT (CPA_PAGES_ARRAY OR CPA_ARRAY), curpage := 0\<rparr>"

definition cpa_process_alias ::
  "'h hdr_scheme \<Rightarrow> cpa_data \<Rightarrow> 's pt_st_scheme \<Rightarrow> (int \<times> cpa_data \<times> 's pt_st_scheme) res" where
  "cpa_process_alias h cpa s =
     (let laddr = virt_of h (push_bit (PAGE_SHIFT h) (cpfn cpa)) in
      if \<not> pfn_range_is_mapped h (cpfn cpa) (cpfn cpa + 1) then Ret (0, cpa, s) else
      let va = cpa_addr h cpa (curpage cpa) in
      bind_res
        (if \<not> within va (PAGE_OFFSET h) (PAGE_OFFSET h + push_bit (PAGE_SHIFT h) (max_pfn_mapped h))
         then bind_res (cpa_set_clr h None (alias_cpa cpa laddr) s)
                (\<lambda>(ret, _, s1). Ret (ret, cpa\<lparr>force_flush_all := True\<rparr>, s1))
         else Ret (0, cpa, s))
        (\<lambda>(ret, cpa1, s1).
          if ret \<noteq> 0 then Ret (ret, cpa1, s1)
          else if \<not> within va (ksym h STEXT) (ksym h SBRK_END) \<and> cpa_pfn_in_highmap h (cpfn cpa1)
          then let temp = push_bit (PAGE_SHIFT h) (cpfn cpa1) + START_KERNEL_map h - phys_base h
            in bind_res (cpa_set_clr h None (alias_cpa cpa1 temp) s1)
                 (\<lambda>(_, _, s2). Ret (0, cpa1\<lparr>force_flush_all := True\<rparr>, s2))
          else Ret (0, cpa1, s1)))"

definition raw_change_page_attr_set_clr ::
  "'h hdr_scheme \<Rightarrow> cpa_data \<Rightarrow> bool \<Rightarrow> 's pt_st_scheme \<Rightarrow> (int \<times> cpa_data \<times> 's pt_st_scheme) res" where
  "raw_change_page_attr_set_clr h cpa checkalias s =
     cpa_set_clr h (if checkalias then Some (cpa_process_alias h) else None) cpa s"

definition cpa_zero :: cpa_data where
  "cpa_zero = \<lparr>cvaddr = [], cpgd = None, mask_set = 0, mask_clr = 0, numpages = 0, curpage = 0,
     cpfn = 0, cflags = 0, force_split = False, force_static_prot = False, force_flush_all = False,
     cpages = []\<rparr>"

text \<open>The addresses rounded down to pages, and the warning for an unaligned one.\<close>

definition cpa_align :: "'h hdr_scheme \<Rightarrow> u64 list \<Rightarrow> u32 \<Rightarrow> u64 list \<times> pt_event list" where
  "cpa_align h addr in_flag =
     (if test in_flag CPA_ARRAY
      then (map (\<lambda>a. a AND PAGE_MASK h) addr,
            if list_ex (\<lambda>a. test a (NOT (PAGE_MASK h))) addr then [WarnOnce ''unaligned address''] else [])
      else if \<not> test in_flag CPA_PAGES_ARRAY
      then ((hd addr AND PAGE_MASK h) # tl addr,
            if test (hd addr) (NOT (PAGE_MASK h)) then [WarnOnce ''unaligned address''] else [])
      else (addr, []))"

text \<open>Flushing after the loop: nothing, everything, or the pages of the range.\<close>

definition cpa_finish ::
  "'h hdr_scheme \<Rightarrow> u64 \<Rightarrow> int \<Rightarrow> cpa_data \<Rightarrow> 's pt_st_scheme \<Rightarrow> (int \<times> 's pt_st_scheme) res" where
  "cpa_finish h mset ret cpa s =
     (if \<not> test (cflags cpa) CPA_FLUSHTLB then Ret (ret, s)
      else let cache = (pgprot2cachemode h mset \<noteq> MODE_WB)
        in if ret \<noteq> 0
           then bind_res (res_of_option (cpa_flush_all h cache s)) (\<lambda>s1. Ret (ret, s1))
           else bind_res (res_of_option (cpa_flush h cpa cache s)) (\<lambda>s1. Ret (ret, s1)))"

definition change_page_attr_set_clr ::
  "'h hdr_scheme \<Rightarrow> u64 list \<Rightarrow> cint \<Rightarrow> u64 \<Rightarrow> u64 \<Rightarrow> bool \<Rightarrow> u32 \<Rightarrow> u64 list \<Rightarrow> 's pt_st_scheme
     \<Rightarrow> (int \<times> 's pt_st_scheme) res" where
  "change_page_attr_set_clr h addr n mset0 mclr fsplit in_flag pgs s =
     (let mset = canon_pgprot h mset0 in
      if mset = 0 \<and> mclr = 0 \<and> \<not> fsplit then Ret (0, s) else
      let (addr1, w) = cpa_align h addr in_flag;
          s1 = pt_event (w @ [KmapFlushUnused, VmUnmapAliases]) s;
          cpa = cpa_zero\<lparr>cvaddr := addr1, cpages := pgs, numpages := scast n, mask_set := mset,
                  mask_clr := mclr, force_split := fsplit,
                  cflags := (if test in_flag (CPA_ARRAY OR CPA_PAGES_ARRAY) then in_flag else 0)\<rparr>;
          checkalias = (mset OR mclr \<noteq> PAGE_NX h \<and> \<not> test in_flag CPA_NO_CHECK_ALIAS)
      in bind_res (raw_change_page_attr_set_clr h cpa checkalias s1) (\<lambda>(ret, cpa1, s2).
         cpa_finish h mset ret cpa1 s2))"

section \<open>The engine changes page tables only\<close>

text \<open>
  The state that clients put around the page tables (\<open>pt_st.more\<close>) is the same after every
  function of the engine.
\<close>

lemma pt_event_more [frame_simps]: "pt_st.more (pt_event es s) = pt_st.more s"
  by (simp add: pt_event_def)

lemma set_pte_more [frame_simps]: "pt_st.more (set_pte p e s) = pt_st.more s"
  by (simp add: set_pte_def)

lemmas frame_dist = if_distrib [of fst] if_distrib [of snd] if_distrib [of pt_st.more] Let_def
  split_beta prod.sel if_cancel

lemma split_page_count_more [frame_simps]: "pt_st.more (split_page_count h l s) = pt_st.more s"
  by (simp add: split_page_count_def Let_def)

lemma should_split_more [frame_simps]:
  "pt_st.more (snd (snd (raw_should_split_large_page h k a cpa s))) = pt_st.more s"
  by (simp only: raw_should_split_large_page_def frame_dist frame_simps)

lemma split_set_pte_more [frame_simps]:
  "pt_st.more (split_set_pte h cpa pte pf' p a sz s) = pt_st.more s"
  by (simp only: split_set_pte_def frame_dist frame_simps)

lemma split_ptes_more [frame_simps]:
  "pt_st.more (split_ptes n h cpa pte pf' i p a l s) = pt_st.more s"
  by (induction n arbitrary: pte pf' a s) (simp_all add: frame_simps)

lemma raw_split_more [frame_simps]:
  "pt_st.more (snd (raw_split_large_page h cpa k a b s)) = pt_st.more s"
  by (simp only: raw_split_large_page_def frame_dist frame_simps)

lemma should_split_large_page_more [frame_simps]:
  "pt_st.more (snd (snd (should_split_large_page h k a cpa s))) = pt_st.more s"
  by (simp add: should_split_large_page_def frame_simps)

lemma split_large_page_more [frame_simps]:
  "pt_st.more (snd (split_large_page h cpa k a s)) = pt_st.more s"
  by (simp add: split_large_page_def Let_def split_beta frame_simps)

lemma try_to_free_more [frame_simps]:
  "pt_st.more (snd (try_to_free_pte_page h p s)) = pt_st.more s"
  "pt_st.more (snd (try_to_free_pmd_page h p s)) = pt_st.more s"
  by (simp_all add: try_to_free_pte_page_def try_to_free_pmd_page_def frame_simps)

lemma unmap_ptes_more [frame_simps]: "pt_st.more (unmap_ptes n h p a b s) = pt_st.more s"
  by (induction n arbitrary: p a s) (simp_all add: frame_simps)

lemma unmap_pte_range_more [frame_simps]: "pt_st.more (snd (unmap_pte_range h p a b s)) = pt_st.more s"
  by (simp add: unmap_pte_range_def Let_def split_beta frame_simps)

lemma raw_unmap_pmd_range_more [frame_simps]:
  "pt_st.more (raw_unmap_pmd_range h u p a b s) = pt_st.more s"
  by (simp add: raw_unmap_pmd_range_def Let_def split_beta frame_simps)

lemma unmap_pmd_chunks_more [frame_simps]:
  "pt_st.more (snd (snd (unmap_pmd_chunks n h u p a b s))) = pt_st.more s"
  by (induction n arbitrary: p a s) (simp_all add: frame_simps)

lemma unmap_pmd_range_more [frame_simps]: "pt_st.more (unmap_pmd_range h u a b s) = pt_st.more s"
  by (simp add: unmap_pmd_range_def Let_def split_beta frame_simps)

lemma unmap_pud_chunks_more [frame_simps]:
  "pt_st.more (snd (snd (unmap_pud_chunks n h u a b s))) = pt_st.more s"
  by (induction n arbitrary: u a s) (simp_all add: frame_simps)

lemma unmap_pud_range_more [frame_simps]: "pt_st.more (unmap_pud_range h u a b s) = pt_st.more s"
  by (simp add: unmap_pud_range_def Let_def split_beta frame_simps)

lemma zeroed_page_more [frame_simps]: "pt_st.more (snd (zeroed_page h s)) = pt_st.more s"
  by (simp add: zeroed_page_def Let_def)

lemma alloc_page_more [frame_simps]:
  "pt_st.more (snd (alloc_pte_page h p s)) = pt_st.more s"
  "pt_st.more (snd (alloc_pmd_page h p s)) = pt_st.more s"
  by (simp_all add: alloc_pte_page_def alloc_pmd_page_def split_beta frame_simps)

lemma populate_ptes_more [frame_simps]:
  "pt_st.more (snd (populate_ptes n h cpa a b p q s)) = pt_st.more s"
  by (induction n arbitrary: cpa a p s) (simp_all add: frame_simps)

lemma populate_pte_more [frame_simps]:
  "pt_st.more (snd (populate_pte h cpa a b n p q s)) = pt_st.more s"
  by (simp add: populate_pte_def frame_simps)

lemma populate_pmd_chunks_more [frame_simps]:
  "pt_st.more (snd (snd (snd (snd (populate_pmd_chunks n h cpa a b p q c s))))) = pt_st.more s"
  by (induction n arbitrary: cpa a c s) (simp_all add: Let_def split_beta frame_simps)

lemma populate_pud_chunks_more [frame_simps]:
  "pt_st.more (snd (snd (snd (populate_pud_chunks n h cpa a b p q c s)))) = pt_st.more s"
  by (induction n arbitrary: cpa a p c s) (simp_all add: Let_def split_beta frame_simps)

lemma cpa_flush_all_more: "cpa_flush_all h c s = Some s' \<Longrightarrow> pt_st.more s' = pt_st.more s"
  by (auto simp: cpa_flush_all_def frame_simps split: if_splits)

lemma cpa_flush_more: "cpa_flush h cpa c s = Some s' \<Longrightarrow> pt_st.more s' = pt_st.more s"
  by (auto simp: cpa_flush_def Let_def frame_simps dest: cpa_flush_all_more split: if_splits)


lemma populate_pmd_more [frame_simps]:
  "pt_st.more (snd (snd (populate_pmd h cpa a b n p q s))) = pt_st.more s"
  by (simp only: populate_pmd_def frame_dist frame_simps)

lemma populate_pud_more [frame_simps]:
  "pt_st.more (snd (snd (populate_pud h cpa a p q s))) = pt_st.more s"
  by (simp only: populate_pud_def frame_dist frame_simps option.case_distrib [of snd]
      option.case_distrib [of pt_st.more] split: option.split) simp

lemma populate_pgd_more [frame_simps]:
  "pt_st.more (snd (snd (populate_pgd h cpa p a s))) = pt_st.more s"
  by (simp only: populate_pgd_def frame_dist frame_simps)

lemma process_fault_more [frame_simps]:
  "pt_st.more (snd (snd (raw_cpa_process_fault h cpa a p s))) = pt_st.more s"
  by (simp add: raw_cpa_process_fault_def frame_simps split: option.split)

lemma change_4k_more [frame_simps]: "pt_st.more (snd (change_4k h k a cpa s)) = pt_st.more s"
  by (simp only: change_4k_def frame_dist frame_simps)

lemma bind_res_eq_Ret: "bind_res x f = Ret y \<longleftrightarrow> (\<exists>z. x = Ret z \<and> f z = Ret y)"
  by (cases x) auto

lemma res_of_option_eq_Ret: "res_of_option x = Ret y \<longleftrightarrow> x = Some y"
  by (auto simp: res_of_option_def split: option.splits)

lemma change_page_attr_at_more:
  "raw_change_page_attr_at n h a cpa p s = Ret t \<Longrightarrow> pt_st.more (snd (snd t)) = pt_st.more s"
proof (induction n arbitrary: cpa s t)
  case (Suc n)
  obtain ok lv where lk: "lookup_address_cpa h (ptm s) cpa a = (ok, lv)" by fastforce
  obtain d c1 s1 where sp: "\<And>k. ok = Some k \<Longrightarrow> should_split_large_page h k a cpa s = (d, c1, s1)"
    by (cases ok) (auto, metis prod_cases3)
  obtain e s2 where sl: "\<And>k. ok = Some k \<Longrightarrow> split_large_page h c1 k a s1 = (e, s2)"
    by (cases ok) (auto, metis surj_pair)
  have m1: "ok = Some k \<Longrightarrow> pt_st.more s1 = pt_st.more s" for k
    using should_split_large_page_more [of h k a cpa s] sp by simp
  have m2: "ok = Some k \<Longrightarrow> pt_st.more s2 = pt_st.more s1" for k
    using split_large_page_more [of h c1 k a s1] sl by simp
  show ?case
    using Suc.prems m1 m2 Suc.IH
    by (auto simp: lk sp sl split_beta frame_simps split: option.splits if_splits)
qed simp

lemma cpa_pages_more:
  assumes "cpa_pages h al n cpa s = Ret t"
    and "\<And>f c u r. al = Some f \<Longrightarrow> f c u = Ret r \<Longrightarrow> pt_st.more (snd (snd r)) = pt_st.more u"
  shows "pt_st.more (snd (snd t)) = pt_st.more s"
  using assms
proof (induction h al n cpa s arbitrary: t rule: cpa_pages.induct)
  case (1 h al n cpa s)
  show ?case
  proof (cases "n = 0")
    case True
    with "1.prems"(1) show ?thesis by (auto simp: cpa_pages.simps)
  next
    case False
    let ?c0 = "cpa\<lparr>numpages := if test (cflags cpa) (CPA_ARRAY OR CPA_PAGES_ARRAY) then 1 else n\<rparr>"
    from "1.prems"(1) False obtain r1 c1 s1 where
      a: "raw_change_page_attr h ?c0 (al \<noteq> None) s = Ret (r1, c1, s1)"
      by (subst (asm) cpa_pages.simps) (auto simp: Let_def bind_res_eq_Ret)
    then have m1: "pt_st.more s1 = pt_st.more s"
      using change_page_attr_at_more unfolding raw_change_page_attr_def by fastforce
    show ?thesis
    proof (cases "r1 = 0")
      case False
      with "1.prems"(1) a m1 \<open>n \<noteq> 0\<close> show ?thesis
        by (subst (asm) cpa_pages.simps) (auto simp: Let_def)
    next
      case True
      with "1.prems"(1) a \<open>n \<noteq> 0\<close> obtain r2 c2 s2 where
        b: "(case al of None \<Rightarrow> Ret (0, c1, s1) | Some f \<Rightarrow> f c1 s1) = Ret (r2, c2, s2)"
        by (subst (asm) cpa_pages.simps) (auto simp: Let_def bind_res_eq_Ret)
      then have m2: "pt_st.more s2 = pt_st.more s1"
        using "1.prems"(2) [of _ c1 s1 "(r2, c2, s2)"] by (auto split: option.splits)
      have z: "\<not> (0 :: int) \<noteq> 0" by simp
      have IH: "\<not> (n < numpages c2 \<or> numpages c2 = 0) \<Longrightarrow>
          cpa_pages h al (n - numpages c2) (c2\<lparr>curpage := curpage c2 + numpages c2\<rparr>) s2 = Ret t \<Longrightarrow>
          pt_st.more (snd (snd t)) = pt_st.more s2"
        using "1.IH" [OF \<open>n \<noteq> 0\<close> refl z z] "1.prems"(2) by blast
      show ?thesis
        using "1.prems"(1) a b m1 m2 \<open>n \<noteq> 0\<close> True IH
        by (subst (asm) cpa_pages.simps) (auto simp: Let_def split: if_splits)
    qed
  qed
qed

lemma cpa_set_clr_more:
  assumes "cpa_set_clr h al cpa s = Ret t"
    and "\<And>f c u r. al = Some f \<Longrightarrow> f c u = Ret r \<Longrightarrow> pt_st.more (snd (snd r)) = pt_st.more u"
  shows "pt_st.more (snd (snd t)) = pt_st.more s"
  using assms(1) cpa_pages_more [OF _ assms(2)]
  by (fastforce simp: cpa_set_clr_def bind_res_eq_Ret split_beta)

lemma cpa_set_clr_None_more:
  "cpa_set_clr h None cpa s = Ret t \<Longrightarrow> pt_st.more (snd (snd t)) = pt_st.more s"
  by (erule cpa_set_clr_more) simp

lemma cpa_process_alias_more:
  "cpa_process_alias h cpa s = Ret t \<Longrightarrow> pt_st.more (snd (snd t)) = pt_st.more s"
  by (fastforce simp: cpa_process_alias_def Let_def bind_res_eq_Ret split_beta
      dest!: cpa_set_clr_None_more split: if_splits)

lemma set_clr_more:
  "raw_change_page_attr_set_clr h cpa ck s = Ret t \<Longrightarrow> pt_st.more (snd (snd t)) = pt_st.more s"
  unfolding raw_change_page_attr_set_clr_def
  by (erule cpa_set_clr_more) (auto split: if_splits dest: cpa_process_alias_more)

lemma cpa_finish_more: "cpa_finish h m r cpa s = Ret t \<Longrightarrow> pt_st.more (snd t) = pt_st.more s"
  by (auto simp: cpa_finish_def Let_def bind_res_eq_Ret res_of_option_eq_Ret split: if_splits
      dest: cpa_flush_all_more cpa_flush_more)

lemma change_page_attr_set_clr_more:
  "change_page_attr_set_clr h addr n ms mc fs fl pgs s = Ret t \<Longrightarrow> pt_st.more (snd t) = pt_st.more s"
  by (auto simp: change_page_attr_set_clr_def Let_def bind_res_eq_Ret split_beta frame_simps
      dest!: cpa_finish_more set_clr_more split: if_splits)

end
