(* ===== verification/Set_Memory.thy ===== *)
theory Set_Memory
  imports Cpa
begin

text \<open>
  The entry points of \<open>kernel_modify/pageattr.c\<close>: \<open>set_memory_*\<close>, \<open>set_pages_*\<close>, the direct-map
  and EFI helpers. \<open>set_memory_x\<close> is the one the repository's patch exports and
  \<open>zz_lkm/exe.c\<close> calls on every code block.
\<close>

section \<open>Definitions\<close>

definition change_page_attr_set ::
  "'h hdr_scheme \<Rightarrow> u64 list \<Rightarrow> cint \<Rightarrow> u64 \<Rightarrow> bool \<Rightarrow> 's pt_st_scheme \<Rightarrow> (int \<times> 's pt_st_scheme) res" where
  "change_page_attr_set h addr n msk array s =
     change_page_attr_set_clr h addr n msk 0 False (if array then CPA_ARRAY else 0) [] s"

definition change_page_attr_clear ::
  "'h hdr_scheme \<Rightarrow> u64 list \<Rightarrow> cint \<Rightarrow> u64 \<Rightarrow> bool \<Rightarrow> 's pt_st_scheme \<Rightarrow> (int \<times> 's pt_st_scheme) res" where
  "change_page_attr_clear h addr n msk array s =
     change_page_attr_set_clr h addr n 0 msk False (if array then CPA_ARRAY else 0) [] s"

definition cpa_set_pages_array ::
  "'h hdr_scheme \<Rightarrow> u64 list \<Rightarrow> cint \<Rightarrow> u64 \<Rightarrow> 's pt_st_scheme \<Rightarrow> (int \<times> 's pt_st_scheme) res" where
  "cpa_set_pages_array h pgs n msk s =
     change_page_attr_set_clr h [] n msk 0 False CPA_PAGES_ARRAY pgs s"

definition cpa_clear_pages_array ::
  "'h hdr_scheme \<Rightarrow> u64 list \<Rightarrow> cint \<Rightarrow> u64 \<Rightarrow> 's pt_st_scheme \<Rightarrow> (int \<times> 's pt_st_scheme) res" where
  "cpa_clear_pages_array h pgs n msk s =
     change_page_attr_set_clr h [] n 0 msk False CPA_PAGES_ARRAY pgs s"

text \<open>\<open>reserve_memtype\<close> may answer differently at every call; the number of logged events dates it.\<close>

definition memtype_reserve ::
  "'h hdr_scheme \<Rightarrow> u64 \<Rightarrow> u64 \<Rightarrow> cmode \<Rightarrow> 's pt_st_scheme \<Rightarrow> int \<times> 's pt_st_scheme" where
  "memtype_reserve h a b mode s =
     (reserve_memtype h (length (pt_log s)) a b mode, pt_event [ReserveMemtype a b mode] s)"

definition memtype_free :: "u64 \<Rightarrow> u64 \<Rightarrow> 's pt_st_scheme \<Rightarrow> 's pt_st_scheme" where
  "memtype_free a b s = pt_event [FreeMemtype a b] s"

definition pa_end :: "'h hdr_scheme \<Rightarrow> u64 \<Rightarrow> cint \<Rightarrow> u64" where
  "pa_end h addr n = phys_of h addr + scast n * PAGE_SIZE h"

definition raw_set_memory_uc ::
  "'h hdr_scheme \<Rightarrow> u64 \<Rightarrow> cint \<Rightarrow> 's pt_st_scheme \<Rightarrow> (int \<times> 's pt_st_scheme) res" where
  "raw_set_memory_uc h addr n s =
     change_page_attr_set h [addr] n (cachemode2pgprot h MODE_UC_MINUS) False s"

definition set_memory_uc ::
  "'h hdr_scheme \<Rightarrow> u64 \<Rightarrow> cint \<Rightarrow> 's pt_st_scheme \<Rightarrow> (int \<times> 's pt_st_scheme) res" where
  "set_memory_uc h addr n s =
     (let (ret, s1) = memtype_reserve h (phys_of h addr) (pa_end h addr n) MODE_UC_MINUS s in
      if ret \<noteq> 0 then Ret (ret, s1)
      else bind_res (raw_set_memory_uc h addr n s1) (\<lambda>(ret2, s2).
        if ret2 \<noteq> 0 then Ret (ret2, memtype_free (phys_of h addr) (pa_end h addr n) s2)
        else Ret (0, s2)))"

definition raw_set_memory_wc ::
  "'h hdr_scheme \<Rightarrow> u64 \<Rightarrow> cint \<Rightarrow> 's pt_st_scheme \<Rightarrow> (int \<times> 's pt_st_scheme) res" where
  "raw_set_memory_wc h addr n s =
     bind_res (change_page_attr_set h [addr] n (cachemode2pgprot h MODE_UC_MINUS) False s)
       (\<lambda>(ret, s1).
        if ret = 0
        then change_page_attr_set_clr h [addr AND PAGE_MASK h] n (cachemode2pgprot h MODE_WC)
               (PAGE_CACHE_MASK h) False 0 [] s1
        else Ret (ret, s1))"

definition set_memory_wc ::
  "'h hdr_scheme \<Rightarrow> u64 \<Rightarrow> cint \<Rightarrow> 's pt_st_scheme \<Rightarrow> (int \<times> 's pt_st_scheme) res" where
  "set_memory_wc h addr n s =
     (let (ret, s1) = memtype_reserve h (phys_of h addr) (pa_end h addr n) MODE_WC s in
      if ret \<noteq> 0 then Ret (ret, s1)
      else bind_res (raw_set_memory_wc h addr n s1) (\<lambda>(ret2, s2).
        Ret (ret2, if ret2 \<noteq> 0 then memtype_free (phys_of h addr) (pa_end h addr n) s2 else s2)))"

definition raw_set_memory_wt ::
  "'h hdr_scheme \<Rightarrow> u64 \<Rightarrow> cint \<Rightarrow> 's pt_st_scheme \<Rightarrow> (int \<times> 's pt_st_scheme) res" where
  "raw_set_memory_wt h addr n s =
     change_page_attr_set h [addr] n (cachemode2pgprot h MODE_WT) False s"

definition raw_set_memory_wb ::
  "'h hdr_scheme \<Rightarrow> u64 \<Rightarrow> cint \<Rightarrow> 's pt_st_scheme \<Rightarrow> (int \<times> 's pt_st_scheme) res" where
  "raw_set_memory_wb h addr n s = change_page_attr_clear h [addr] n (PAGE_CACHE_MASK h) False s"

definition set_memory_wb ::
  "'h hdr_scheme \<Rightarrow> u64 \<Rightarrow> cint \<Rightarrow> 's pt_st_scheme \<Rightarrow> (int \<times> 's pt_st_scheme) res" where
  "set_memory_wb h addr n s =
     bind_res (raw_set_memory_wb h addr n s) (\<lambda>(ret, s1).
       if ret \<noteq> 0 then Ret (ret, s1)
       else Ret (0, memtype_free (phys_of h addr) (pa_end h addr n) s1))"

definition set_memory_x ::
  "'h hdr_scheme \<Rightarrow> u64 \<Rightarrow> cint \<Rightarrow> 's pt_st_scheme \<Rightarrow> (int \<times> 's pt_st_scheme) res" where
  "set_memory_x h addr n s =
     (if \<not> test (supported_pte_mask h) (PAGE_NX h) then Ret (0, s)
      else change_page_attr_clear h [addr] n (PAGE_NX h) False s)"

definition set_memory_nx ::
  "'h hdr_scheme \<Rightarrow> u64 \<Rightarrow> cint \<Rightarrow> 's pt_st_scheme \<Rightarrow> (int \<times> 's pt_st_scheme) res" where
  "set_memory_nx h addr n s =
     (if \<not> test (supported_pte_mask h) (PAGE_NX h) then Ret (0, s)
      else change_page_attr_set h [addr] n (PAGE_NX h) False s)"

definition set_memory_ro ::
  "'h hdr_scheme \<Rightarrow> u64 \<Rightarrow> cint \<Rightarrow> 's pt_st_scheme \<Rightarrow> (int \<times> 's pt_st_scheme) res" where
  "set_memory_ro h addr n s = change_page_attr_clear h [addr] n (PAGE_RW h) False s"

definition set_memory_rw ::
  "'h hdr_scheme \<Rightarrow> u64 \<Rightarrow> cint \<Rightarrow> 's pt_st_scheme \<Rightarrow> (int \<times> 's pt_st_scheme) res" where
  "set_memory_rw h addr n s = change_page_attr_set h [addr] n (PAGE_RW h) False s"

definition set_memory_np ::
  "'h hdr_scheme \<Rightarrow> u64 \<Rightarrow> cint \<Rightarrow> 's pt_st_scheme \<Rightarrow> (int \<times> 's pt_st_scheme) res" where
  "set_memory_np h addr n s = change_page_attr_clear h [addr] n (PAGE_PRESENT h) False s"

definition set_memory_np_noalias ::
  "'h hdr_scheme \<Rightarrow> u64 \<Rightarrow> cint \<Rightarrow> 's pt_st_scheme \<Rightarrow> (int \<times> 's pt_st_scheme) res" where
  "set_memory_np_noalias h addr n s =
     change_page_attr_set_clr h [addr] n 0 (PAGE_PRESENT h) False CPA_NO_CHECK_ALIAS [] s"

definition set_memory_4k ::
  "'h hdr_scheme \<Rightarrow> u64 \<Rightarrow> cint \<Rightarrow> 's pt_st_scheme \<Rightarrow> (int \<times> 's pt_st_scheme) res" where
  "set_memory_4k h addr n s = change_page_attr_set_clr h [addr] n 0 0 True 0 [] s"

definition set_memory_nonglobal ::
  "'h hdr_scheme \<Rightarrow> u64 \<Rightarrow> cint \<Rightarrow> 's pt_st_scheme \<Rightarrow> (int \<times> 's pt_st_scheme) res" where
  "set_memory_nonglobal h addr n s = change_page_attr_clear h [addr] n (PAGE_GLOBAL h) False s"

definition set_memory_global ::
  "'h hdr_scheme \<Rightarrow> u64 \<Rightarrow> cint \<Rightarrow> 's pt_st_scheme \<Rightarrow> (int \<times> 's pt_st_scheme) res" where
  "set_memory_global h addr n s = change_page_attr_set h [addr] n (PAGE_GLOBAL h) False s"

definition raw_set_memory_enc_dec ::
  "'h hdr_scheme \<Rightarrow> u64 \<Rightarrow> cint \<Rightarrow> bool \<Rightarrow> 's pt_st_scheme \<Rightarrow> (int \<times> 's pt_st_scheme) res" where
  "raw_set_memory_enc_dec h addr n enc' s =
     (if \<not> mem_encrypt_active h then Ret (0, s) else
      let bad = test addr (NOT (PAGE_MASK h));
          addr1 = (if bad then addr AND PAGE_MASK h else addr);
          s0 = pt_event ((if bad then [WarnOnce ''misaligned address''] else [])
                 @ [KmapFlushUnused, VmUnmapAliases]) s;
          cpa = cpa_zero\<lparr>cvaddr := [addr1], numpages := scast n,
                  mask_set := (if enc' then PAGE_ENC h else 0),
                  mask_clr := (if enc' then 0 else PAGE_ENC h), cpgd := Some (init_mm_pgd h)\<rparr>
      in bind_res (res_of_option (cpa_flush h cpa True s0)) (\<lambda>s1.
         bind_res (raw_change_page_attr_set_clr h cpa True s1) (\<lambda>(ret, cpa1, s2).
         bind_res (res_of_option (cpa_flush h cpa1 False s2)) (\<lambda>s3. Ret (ret, s3)))))"

definition set_memory_encrypted ::
  "'h hdr_scheme \<Rightarrow> u64 \<Rightarrow> cint \<Rightarrow> 's pt_st_scheme \<Rightarrow> (int \<times> 's pt_st_scheme) res" where
  "set_memory_encrypted h addr n s = raw_set_memory_enc_dec h addr n True s"

definition set_memory_decrypted ::
  "'h hdr_scheme \<Rightarrow> u64 \<Rightarrow> cint \<Rightarrow> 's pt_st_scheme \<Rightarrow> (int \<times> 's pt_st_scheme) res" where
  "set_memory_decrypted h addr n s = raw_set_memory_enc_dec h addr n False s"

section \<open>Arrays of pages\<close>

definition set_pages_uc ::
  "'h hdr_scheme \<Rightarrow> u64 \<Rightarrow> cint \<Rightarrow> 's pt_st_scheme \<Rightarrow> (int \<times> 's pt_st_scheme) res" where
  "set_pages_uc h page n s = set_memory_uc h (page_address h page) n s"

definition page_start :: "'h hdr_scheme \<Rightarrow> u64 \<Rightarrow> u64" where
  "page_start h page = push_bit (PAGE_SHIFT h) (page_to_pfn h page)"

text \<open>The reservation loop: whether every page was reserved, and how many pages were passed.\<close>

fun reserve_pages ::
  "'h hdr_scheme \<Rightarrow> cmode \<Rightarrow> u64 list \<Rightarrow> nat \<Rightarrow> 's pt_st_scheme \<Rightarrow> bool \<times> nat \<times> 's pt_st_scheme" where
  "reserve_pages h mode [] i s = (True, i, s)"
| "reserve_pages h mode (p # ps) i s =
     (if PageHighMem h p then reserve_pages h mode ps (Suc i) s
      else let (r, s1) = memtype_reserve h (page_start h p) (page_start h p + PAGE_SIZE h) mode s
        in if r \<noteq> 0 then (False, i, s1) else reserve_pages h mode ps (Suc i) s1)"

fun free_pages_memtype :: "'h hdr_scheme \<Rightarrow> u64 list \<Rightarrow> 's pt_st_scheme \<Rightarrow> 's pt_st_scheme" where
  "free_pages_memtype h [] s = s"
| "free_pages_memtype h (p # ps) s =
     free_pages_memtype h ps
       (if PageHighMem h p then s
        else memtype_free (page_start h p) (page_start h p + PAGE_SIZE h) s)"

definition raw_set_pages_array ::
  "'h hdr_scheme \<Rightarrow> u64 list \<Rightarrow> cint \<Rightarrow> cmode \<Rightarrow> 's pt_st_scheme \<Rightarrow> (int \<times> 's pt_st_scheme) res" where
  "raw_set_pages_array h pgs n new_type s =
     (let ps = take (nat (sint n)) pgs; (ok, i, s1) = reserve_pages h new_type ps 0 s in
      if \<not> ok then Ret (- EINVAL h, free_pages_memtype h (take i ps) s1) else
      let set_type = (if new_type = MODE_WC then MODE_UC_MINUS else new_type) in
      bind_res (cpa_set_pages_array h pgs n (cachemode2pgprot h set_type) s1) (\<lambda>(ret, s2).
      bind_res
        (if ret = 0 \<and> new_type = MODE_WC
         then change_page_attr_set_clr h [] n (cachemode2pgprot h MODE_WC) (PAGE_CACHE_MASK h) False
                CPA_PAGES_ARRAY pgs s2
         else Ret (ret, s2)) (\<lambda>(ret2, s3).
      if ret2 \<noteq> 0 then Ret (- EINVAL h, free_pages_memtype h (take i ps) s3) else Ret (0, s3))))"

definition set_pages_array_uc ::
  "'h hdr_scheme \<Rightarrow> u64 list \<Rightarrow> cint \<Rightarrow> 's pt_st_scheme \<Rightarrow> (int \<times> 's pt_st_scheme) res" where
  "set_pages_array_uc h pgs n s = raw_set_pages_array h pgs n MODE_UC_MINUS s"

definition set_pages_array_wc ::
  "'h hdr_scheme \<Rightarrow> u64 list \<Rightarrow> cint \<Rightarrow> 's pt_st_scheme \<Rightarrow> (int \<times> 's pt_st_scheme) res" where
  "set_pages_array_wc h pgs n s = raw_set_pages_array h pgs n MODE_WC s"

definition set_pages_array_wt ::
  "'h hdr_scheme \<Rightarrow> u64 list \<Rightarrow> cint \<Rightarrow> 's pt_st_scheme \<Rightarrow> (int \<times> 's pt_st_scheme) res" where
  "set_pages_array_wt h pgs n s = raw_set_pages_array h pgs n MODE_WT s"

definition set_pages_wb ::
  "'h hdr_scheme \<Rightarrow> u64 \<Rightarrow> cint \<Rightarrow> 's pt_st_scheme \<Rightarrow> (int \<times> 's pt_st_scheme) res" where
  "set_pages_wb h page n s = set_memory_wb h (page_address h page) n s"

definition set_pages_array_wb ::
  "'h hdr_scheme \<Rightarrow> u64 list \<Rightarrow> cint \<Rightarrow> 's pt_st_scheme \<Rightarrow> (int \<times> 's pt_st_scheme) res" where
  "set_pages_array_wb h pgs n s =
     bind_res (cpa_clear_pages_array h pgs n (PAGE_CACHE_MASK h) s) (\<lambda>(retval, s1).
       if retval \<noteq> 0 then Ret (retval, s1)
       else Ret (0, free_pages_memtype h (take (nat (sint n)) pgs) s1))"

definition set_pages_ro ::
  "'h hdr_scheme \<Rightarrow> u64 \<Rightarrow> cint \<Rightarrow> 's pt_st_scheme \<Rightarrow> (int \<times> 's pt_st_scheme) res" where
  "set_pages_ro h page n s = set_memory_ro h (page_address h page) n s"

definition set_pages_rw ::
  "'h hdr_scheme \<Rightarrow> u64 \<Rightarrow> cint \<Rightarrow> 's pt_st_scheme \<Rightarrow> (int \<times> 's pt_st_scheme) res" where
  "set_pages_rw h page n s = set_memory_rw h (page_address h page) n s"

section \<open>Direct map and alternate page tables\<close>

definition raw_set_pages_p ::
  "'h hdr_scheme \<Rightarrow> u64 \<Rightarrow> cint \<Rightarrow> 's pt_st_scheme \<Rightarrow> (int \<times> 's pt_st_scheme) res" where
  "raw_set_pages_p h page n s =
     bind_res (raw_change_page_attr_set_clr h
       (cpa_zero\<lparr>cvaddr := [page_address h page], numpages := scast n,
          mask_set := PAGE_PRESENT h OR PAGE_RW h\<rparr>) False s) (\<lambda>(ret, _, s1). Ret (ret, s1))"

definition raw_set_pages_np ::
  "'h hdr_scheme \<Rightarrow> u64 \<Rightarrow> cint \<Rightarrow> 's pt_st_scheme \<Rightarrow> (int \<times> 's pt_st_scheme) res" where
  "raw_set_pages_np h page n s =
     bind_res (raw_change_page_attr_set_clr h
       (cpa_zero\<lparr>cvaddr := [page_address h page], numpages := scast n,
          mask_clr := PAGE_PRESENT h OR PAGE_RW h\<rparr>) False s) (\<lambda>(ret, _, s1). Ret (ret, s1))"

definition set_direct_map_invalid_noflush ::
  "'h hdr_scheme \<Rightarrow> u64 \<Rightarrow> 's pt_st_scheme \<Rightarrow> (int \<times> 's pt_st_scheme) res" where
  "set_direct_map_invalid_noflush h page s = raw_set_pages_np h page 1 s"

definition set_direct_map_default_noflush ::
  "'h hdr_scheme \<Rightarrow> u64 \<Rightarrow> 's pt_st_scheme \<Rightarrow> (int \<times> 's pt_st_scheme) res" where
  "set_direct_map_default_noflush h page s = raw_set_pages_p h page 1 s"

definition raw_kernel_map_pages ::
  "'h hdr_scheme \<Rightarrow> u64 \<Rightarrow> cint \<Rightarrow> bool \<Rightarrow> 's pt_st_scheme \<Rightarrow> 's pt_st_scheme res" where
  "raw_kernel_map_pages h page n enable s =
     (if PageHighMem h page then Ret s
      else bind_res (if enable then raw_set_pages_p h page n s else raw_set_pages_np h page n s)
             (\<lambda>(_, s1). Ret (pt_event [FlushTlbLocal] s1)))"

text \<open>\<open>None\<close>: the C code reads through the null pointer that \<open>lookup_address\<close> returned.\<close>

definition kernel_page_present :: "'h hdr_scheme \<Rightarrow> ptmem \<Rightarrow> u64 \<Rightarrow> bool option" where
  "kernel_page_present h m page =
     (if PageHighMem h page then Some False
      else case fst (lookup_address h m (page_address h page)) of
             None \<Rightarrow> None
           | Some pte \<Rightarrow> Some (test (m pte) (PAGE_PRESENT h)))"

definition kernel_map_pages_in_pgd ::
  "'h hdr_scheme \<Rightarrow> u64 \<Rightarrow> u64 \<Rightarrow> u64 \<Rightarrow> u32 \<Rightarrow> u64 \<Rightarrow> 's pt_st_scheme \<Rightarrow> (int \<times> 's pt_st_scheme) res" where
  "kernel_map_pages_in_pgd h pgd0 pf address n page_flags s =
     (let clr = NOT page_flags AND (PAGE_NX h OR PAGE_RW h) in
      if \<not> test (supported_pte_mask h) (PAGE_NX h) then Ret (- EINVAL h, s) else
      let cpa = cpa_zero\<lparr>cvaddr := [address], cpfn := pf, cpgd := Some pgd0, numpages := ucast n,
                  mask_clr := (if \<not> test page_flags (PAGE_ENC h) then pgprot_encrypted h clr else clr),
                  mask_set := PAGE_PRESENT h OR page_flags\<rparr>
      in bind_res (raw_change_page_attr_set_clr h cpa False s) (\<lambda>(ret, _, s1).
           Ret (ret, pt_event [FlushTlbLocal] s1)))"

definition kernel_unmap_pages_in_pgd ::
  "'h hdr_scheme \<Rightarrow> u64 \<Rightarrow> u64 \<Rightarrow> u64 \<Rightarrow> 's pt_st_scheme \<Rightarrow> (int \<times> 's pt_st_scheme) res" where
  "kernel_unmap_pages_in_pgd h pgd0 address n s =
     (let cpa = cpa_zero\<lparr>cvaddr := [address], cpgd := Some pgd0, numpages := n,
                  mask_clr := PAGE_PRESENT h OR PAGE_RW h\<rparr>
      in bind_res (raw_change_page_attr_set_clr h cpa False s) (\<lambda>(ret, _, s1).
           Ret (ret, pt_event [FlushTlbLocal] s1)))"

section \<open>Frame\<close>

lemma set_memory_x_more: "set_memory_x h a n s = Ret t \<Longrightarrow> pt_st.more (snd t) = pt_st.more s"
  by (auto simp: set_memory_x_def change_page_attr_clear_def split: if_splits
      dest: change_page_attr_set_clr_more)

end
