(* ===== verification/Regs.thy ===== *)
theory Regs
  imports UB_Prelude
begin

text \<open>
  The saved user registers (\<open>struct pt_regs\<close>) as the module, the kernel entry code and the
  translated code see them, and the offsets by which \<open>asm_head.h\<close> reaches them from
  assembly. The copies of \<open>asm_head.h\<close> under \<open>ub/\<close> are identical.
\<close>

record pt_regs =
  r15 :: u64
  r14 :: u64
  r13 :: u64
  r12 :: u64
  bp :: u64
  bx :: u64
  r11 :: u64
  r10 :: u64
  r9 :: u64
  r8 :: u64
  ax :: u64
  cx :: u64
  dx :: u64
  si :: u64
  di :: u64
  orig_ax :: u64
  ip :: u64
  cs :: u64
  eflags :: u64
  sp :: u64
  ss :: u64

text \<open>The structure as an array of quad words, in memory order.\<close>

definition pt_words :: "pt_regs \<Rightarrow> u64 list" where
  "pt_words r = [r15 r, r14 r, r13 r, r12 r, bp r, bx r, r11 r, r10 r, r9 r, r8 r, ax r, cx r,
     dx r, si r, di r, orig_ax r, ip r, cs r, eflags r, sp r, ss r]"

section \<open>Offsets of \<open>asm_head.h\<close>\<close>

datatype asm_pt = PT_R15 | PT_R14 | PT_R13 | PT_R12 | PT_RBP | PT_RBX | PT_R11 | PT_R10 | PT_R9
  | PT_R8 | PT_RAX | PT_RCX | PT_RDX | PT_RSI | PT_RDI | PT_RIP | PT_EFLAGS | PT_RSP

text \<open>\<open>PT_x\<close> is \<open>QWORD PTR [PT_REG + 8*k]\<close>; this is \<open>k\<close>.\<close>

primrec pt_slot :: "asm_pt \<Rightarrow> nat" where
  "pt_slot PT_R15 = 0"
| "pt_slot PT_R14 = 1"
| "pt_slot PT_R13 = 2"
| "pt_slot PT_R12 = 3"
| "pt_slot PT_RBP = 4"
| "pt_slot PT_RBX = 5"
| "pt_slot PT_R11 = 6"
| "pt_slot PT_R10 = 7"
| "pt_slot PT_R9 = 8"
| "pt_slot PT_R8 = 9"
| "pt_slot PT_RAX = 10"
| "pt_slot PT_RCX = 11"
| "pt_slot PT_RDX = 12"
| "pt_slot PT_RSI = 13"
| "pt_slot PT_RDI = 14"
| "pt_slot PT_RIP = 16"
| "pt_slot PT_EFLAGS = 18"
| "pt_slot PT_RSP = 19"

datatype asm_stack = Stack_PT_REG | Stack_ARG_REG | Stack_RBP | Stack_RSP | Stack_R15 | Stack_R14
  | Stack_R13 | Stack_R12 | Stack_RGS | Stack_RFS | Stack_RIP | Stack_IJ | Stack_INST_CNT

text \<open>\<open>Stack_x\<close> is \<open>QWORD PTR [RBP - 8*k]\<close>; this is \<open>k\<close>.\<close>

primrec stack_slot :: "asm_stack \<Rightarrow> nat" where
  "stack_slot Stack_PT_REG = 6"
| "stack_slot Stack_ARG_REG = 7"
| "stack_slot Stack_RBP = 8"
| "stack_slot Stack_RSP = 9"
| "stack_slot Stack_R15 = 10"
| "stack_slot Stack_R14 = 11"
| "stack_slot Stack_R13 = 12"
| "stack_slot Stack_R12 = 13"
| "stack_slot Stack_RGS = 14"
| "stack_slot Stack_RFS = 15"
| "stack_slot Stack_RIP = 16"
| "stack_slot Stack_IJ = 17"
| "stack_slot Stack_INST_CNT = 18"

text \<open>The field of \<open>struct pt_regs\<close> that a name of \<open>asm_head.h\<close> is meant to reach.\<close>

primrec pt_field :: "asm_pt \<Rightarrow> pt_regs \<Rightarrow> u64" where
  "pt_field PT_R15 = r15"
| "pt_field PT_R14 = r14"
| "pt_field PT_R13 = r13"
| "pt_field PT_R12 = r12"
| "pt_field PT_RBP = bp"
| "pt_field PT_RBX = bx"
| "pt_field PT_R11 = r11"
| "pt_field PT_R10 = r10"
| "pt_field PT_R9 = r9"
| "pt_field PT_R8 = r8"
| "pt_field PT_RAX = ax"
| "pt_field PT_RCX = cx"
| "pt_field PT_RDX = dx"
| "pt_field PT_RSI = si"
| "pt_field PT_RDI = di"
| "pt_field PT_RIP = ip"
| "pt_field PT_EFLAGS = eflags"
| "pt_field PT_RSP = sp"

text \<open>A sample.\<close>

definition regs0 :: pt_regs where
  "regs0 = \<lparr>r15 = 0, r14 = 0, r13 = 0, r12 = 0, bp = 0, bx = 0, r11 = 0, r10 = 0, r9 = 0, r8 = 0,
     ax = 500, cx = 0, dx = 0, si = 0, di = 0, orig_ax = 0, ip = 0x400, cs = 0, eflags = 0, sp = 0,
     ss = 0\<rparr>"


end
