(* ===== verification/Direct_Map.thy ===== *)
theory Direct_Map
  imports UB_Prelude
begin

text \<open>
  Direct-mapped tables: an array in which the element of a key can only be in the slot that a
  hash of the key gives. The module has two: the table of code blocks (\<open>exes\<close>) and, per CPU,
  the table of callers. The locale states what such a table needs of its hash and proves, once,
  what both rely on: a lookup that inspects one slot misses nothing, no key is held twice, and
  the number of occupied slots is bounded by the number of claims.
\<close>

section \<open>Tables\<close>

text \<open>Slot \<open>i\<close> holds a key that belongs there.\<close>

definition placed_at :: "('k \<Rightarrow> nat) \<Rightarrow> ('e \<Rightarrow> 'k) \<Rightarrow> 'e list \<Rightarrow> nat \<Rightarrow> bool" where
  "placed_at idx key xs i \<longleftrightarrow> idx (key (xs ! i)) = i"

definition table_wf :: "('k \<Rightarrow> nat) \<Rightarrow> nat \<Rightarrow> ('e \<Rightarrow> 'k) \<Rightarrow> ('e \<Rightarrow> bool) \<Rightarrow> 'e list \<Rightarrow> bool" where
  "table_wf idx n key used xs \<longleftrightarrow>
     length xs = n \<and> list_all (\<lambda>i. used (xs ! i) \<longrightarrow> placed_at idx key xs i) [0..<n]"

definition n_placed :: "('k \<Rightarrow> nat) \<Rightarrow> ('e \<Rightarrow> 'k) \<Rightarrow> 'e list \<Rightarrow> nat" where
  "n_placed idx key xs = length (filter (placed_at idx key xs) [0..<length xs])"

text \<open>The table as a partial map from keys to elements.\<close>

definition tab_of :: "('k \<Rightarrow> nat) \<Rightarrow> ('e \<Rightarrow> 'k) \<Rightarrow> ('e \<Rightarrow> bool) \<Rightarrow> 'e list \<Rightarrow> 'k \<Rightarrow> 'e option" where
  "tab_of idx key used xs k = (let x = xs ! idx k in if used x \<and> key x = k then Some x else None)"

lemma table_wf_length: "table_wf idx n key used xs \<Longrightarrow> length xs = n"
  by (simp add: table_wf_def)

lemma table_wf_iff:
  "table_wf idx n key used xs \<longleftrightarrow> length xs = n \<and> (\<forall>i<n. used (xs ! i) \<longrightarrow> idx (key (xs ! i)) = i)"
  by (simp add: table_wf_def placed_at_def list_all_nth_upt)

lemma n_placed_card: "n_placed idx key xs = card {i. i < length xs \<and> idx (key (xs ! i)) = i}"
proof -
  have "set (filter (placed_at idx key xs) [0..<length xs]) = {i. i < length xs \<and> idx (key (xs ! i)) = i}"
    by (auto simp: placed_at_def)
  then show ?thesis
    unfolding n_placed_def by (metis distinct_card distinct_filter distinct_upt)
qed

lemma length_filter_card: "length (filter P xs) = card {i. i < length xs \<and> P (xs ! i)}"
  by (rule length_filter_conv_card)

lemma n_placed_replicate: "n_placed idx key (replicate n x) \<le> 1"
proof -
  have "{i. i < n \<and> idx (key (replicate n x ! i)) = i} \<subseteq> {idx (key x)}" by auto
  then have "card {i. i < n \<and> idx (key (replicate n x ! i)) = i} \<le> card {idx (key x)}"
    by (intro card_mono) auto
  then show ?thesis by (simp add: n_placed_card)
qed

section \<open>The interface\<close>

locale direct_mapped =
  fixes idx :: "'k \<Rightarrow> nat"
    and n :: nat
    and key :: "'e \<Rightarrow> 'k"
    and used :: "'e \<Rightarrow> bool"
  assumes idx_less: "idx k < n"
begin

lemma lookup_complete:
  assumes "table_wf idx n key used xs"
  shows "(\<exists>x \<in> set xs. used x \<and> key x = k) \<longleftrightarrow> used (xs ! idx k) \<and> key (xs ! idx k) = k"
proof
  assume "\<exists>x \<in> set xs. used x \<and> key x = k"
  then show "used (xs ! idx k) \<and> key (xs ! idx k) = k"
    using assms by (auto simp: table_wf_iff in_set_conv_nth)
next
  assume "used (xs ! idx k) \<and> key (xs ! idx k) = k"
  moreover have "xs ! idx k \<in> set xs"
    using assms idx_less [of k] by (simp add: table_wf_iff)
  ultimately show "\<exists>x \<in> set xs. used x \<and> key x = k" by blast
qed

lemma held_once:
  assumes "table_wf idx n key used xs" and "i < n" and "j < n"
    and "used (xs ! i)" and "used (xs ! j)" and "key (xs ! i) = key (xs ! j)"
  shows "i = j"
  using assms by (metis table_wf_iff)

lemma wf_claim:
  assumes "table_wf idx n key used xs" and "key x = k"
  shows "table_wf idx n key used (xs[idx k := x])"
  using assms idx_less [of k] by (auto simp: table_wf_iff nth_list_update)

lemma wf_update:
  assumes "table_wf idx n key used xs" and "key x = key (xs ! i)"
    and "used x \<Longrightarrow> used (xs ! i) \<or> idx (key x) = i"
  shows "table_wf idx n key used (xs[i := x])"
  using assms by (cases "i < length xs") (auto simp: table_wf_iff nth_list_update)

lemma n_placed_update:
  assumes "key x = key (xs ! i)"
  shows "n_placed idx key (xs[i := x]) = n_placed idx key xs"
proof -
  have "(j < length (xs[i := x]) \<and> idx (key (xs[i := x] ! j)) = j) \<longleftrightarrow>
      (j < length xs \<and> idx (key (xs ! j)) = j)" for j
    using assms by (cases "i < length xs") (auto simp: nth_list_update)
  then show ?thesis by (simp add: n_placed_card)
qed

lemma n_placed_claim: "n_placed idx key (xs[i := x]) \<le> n_placed idx key xs + 1"
proof -
  let ?A = "{j. j < length xs \<and> idx (key (xs ! j)) = j}"
  have "{j. j < length (xs[i := x]) \<and> idx (key (xs[i := x] ! j)) = j} \<subseteq> insert i ?A"
    by (cases "i < length xs") (auto simp: nth_list_update split: if_splits)
  then have "n_placed idx key (xs[i := x]) \<le> card (insert i ?A)"
    unfolding n_placed_card by (intro card_mono) auto
  also have "\<dots> \<le> card ?A + 1"
    by (simp add: card_insert_if)
  finally show ?thesis by (simp add: n_placed_card)
qed

lemma used_le_placed:
  assumes "table_wf idx n key used xs"
  shows "length (filter used xs) \<le> n_placed idx key xs"
proof -
  have "{i. i < length xs \<and> used (xs ! i)} \<subseteq> {i. i < length xs \<and> idx (key (xs ! i)) = i}"
    using assms by (auto simp: table_wf_iff)
  then show ?thesis
    unfolding n_placed_card length_filter_card by (intro card_mono) auto
qed

lemma tab_of_iff:
  assumes "table_wf idx n key used xs"
  shows "tab_of idx key used xs k = Some x \<longleftrightarrow> x \<in> set xs \<and> used x \<and> key x = k"
proof -
  have "x = xs ! idx k" if "x \<in> set xs" "used x" "key x = k"
    using assms that by (auto simp: table_wf_iff in_set_conv_nth)
  moreover have "xs ! idx k \<in> set xs" using assms idx_less [of k] by (simp add: table_wf_iff)
  ultimately show ?thesis by (auto simp: tab_of_def Let_def)
qed

lemma tab_of_claim:
  assumes "table_wf idx n key used xs" and "\<not> used (xs ! idx (key x))" and "used x"
  shows "tab_of idx key used (xs[idx (key x) := x]) = (tab_of idx key used xs)(key x \<mapsto> x)"
proof (rule ext)
  fix k
  have "idx (key x) < length xs" using assms(1) idx_less by (simp add: table_wf_iff)
  then show "tab_of idx key used (xs[idx (key x) := x]) k = ((tab_of idx key used xs)(key x \<mapsto> x)) k"
    using assms(2,3) by (cases "idx k = idx (key x)") (auto simp: tab_of_def Let_def)
qed

lemma tab_of_update:
  assumes "table_wf idx n key used xs" and "key x = key (xs ! i)" and "used (xs ! i)" and "i < n"
  shows "tab_of idx key used (xs[i := x]) = (tab_of idx key used xs)(key x := if used x then Some x else None)"
proof (rule ext)
  fix k
  have "i < length xs" and i: "idx (key x) = i" using assms by (simp_all add: table_wf_iff)
  then show "tab_of idx key used (xs[i := x]) k = ((tab_of idx key used xs)(key x := if used x then Some x else None)) k"
    using assms(2,3) by (cases "idx k = i") (auto simp: tab_of_def Let_def)
qed

lemma keys_distinct:
  assumes "table_wf idx n key used xs"
  shows "distinct (map key (filter used xs))"
proof -
  have "key (xs ! i) \<noteq> key (xs ! j)" if "i < j" "j < length xs" "used (xs ! i)" "used (xs ! j)" for i j
    using held_once [OF assms, of i j] that assms by (auto simp: table_wf_def)
  then have "\<And>i j. i < j \<Longrightarrow> j < length xs \<Longrightarrow> used (xs ! i) \<Longrightarrow> used (xs ! j) \<Longrightarrow> key (xs ! i) \<noteq> key (xs ! j)" .
  then show ?thesis
  proof (induction xs)
    case (Cons y ys)
    have "distinct (map key (filter used ys))"
      by (rule Cons.IH) (use Cons.prems [of "Suc i" "Suc j" for i j] in auto)
    moreover have "used y \<Longrightarrow> z \<in> set ys \<Longrightarrow> used z \<Longrightarrow> key y \<noteq> key z" for z
      using Cons.prems [of 0 "Suc j" for j] by (auto simp: in_set_conv_nth)
    ultimately show ?case by auto
  qed simp
qed

end

end
