(* ===== verification/Exe.thy ===== *)
theory Exe
  imports Set_Memory Regs Direct_Map
begin

text \<open>
  The table of translated code blocks: \<open>zz_lkm/exe.h\<close>, \<open>zz_lkm/exe.c\<close> and the hash of
  \<open>zz_lkm/stat.h\<close>. A slot of \<open>exes\<close> holds one (pid, syscall address) pair, its code block and
  the state of its translation; \<open>exe_add\<close> claims a slot and makes its block executable through
  \<open>set_memory_x\<close>; \<open>exe_on_call\<close> runs translated code in the kernel for as long as the
  next instruction pointer has a block (\<open>chaining\<close>).
\<close>

section \<open>Data\<close>

definition un_used :: cint where "un_used = -2"
definition un_init :: cint where "un_init = -1"
definition normal :: cint where "normal = 0"
definition call_miss :: cint where "call_miss = 1"
definition ij_miss :: cint where "ij_miss = 2"
definition error_inst :: cint where "error_inst = 3"

lemmas status_defs = un_used_def un_init_def normal_def call_miss_def ij_miss_def error_inst_def

definition max_exe :: nat where "max_exe = 511"
definition num_pg :: cint where "num_pg = 160"

record exe_info =
  status_code :: cint
  exe_pid :: cint
  RIP :: u64
  code_block :: u64
  jump_from :: u64
  tgt_addr :: u64
  success_cnt :: u64
  fail_cnt :: u64

text \<open>
  The state: the page tables, the table and where it is (the pointer \<open>exes\<close>), the counter
  \<open>added\<close>, the address of the system call table, kernel memory, the number of \<open>vmalloc\<close> calls
  made, whether user access is open (\<open>EFLAGS.AC\<close>, set by \<open>stac\<close>), and what was printed with
  \<open>printk\<close>. The bytes at \<open>exes_at\<close> are kept as the slots and not in \<open>kmem\<close>.
\<close>

datatype kmsg =
    CallsCombined cint u64 u64 u64
  | ExeNotFound cint u64
  | SysExists
  | NullKobject
  | SysFileNotCreated
  | ModuleInit
  | ModuleBye
  | UbErr string

record exe_st = pt_st +
  exes :: "exe_info list"
  exes_at :: u64
  added :: cint
  zz_sys_call_table :: u64
  kmem :: mem
  vm_calls :: nat
  ac :: bool
  klog :: "kmsg list"

text \<open>
  What the module takes from the kernel: the page-table headers and the answers of
  \<open>vmalloc\<close>, by the number of the call: the address (0 on failure), what the new memory
  contains, and the page tables with the new range mapped.
\<close>

record uenv =
  khdr :: hdr
  vm_addr :: "nat \<Rightarrow> u64"
  vm_junk :: "nat \<Rightarrow> u64 \<Rightarrow> u8"
  vm_pt :: "nat \<Rightarrow> u64 \<Rightarrow> ptmem \<Rightarrow> ptmem"
  exes_junk :: "nat \<Rightarrow> exe_info"

text \<open>
  Code the module calls through a pointer: a code block (the JIT output, called with the
  saved registers and \<open>args\<close>) and a kernel function found in the system call table. Both may
  change registers and state. \<open>fsbase\<close> is \<open>x86_fsbase_read_cpu()\<close>.
\<close>

record 's cenv =
  run_block :: "u64 \<Rightarrow> pt_regs \<Rightarrow> u64 \<times> u64 \<Rightarrow> 's \<Rightarrow> pt_regs \<times> (u64 \<times> u64) \<times> 's"
  call_ptr :: "u64 \<Rightarrow> pt_regs \<Rightarrow> 's \<Rightarrow> u64 \<times> pt_regs \<times> 's"
  fsbase :: "'s \<Rightarrow> u64"

section \<open>Operations\<close>

definition zz_hash :: "u32 \<Rightarrow> u64 \<Rightarrow> u32" where
  "zz_hash pid addr = ((ucast addr :: u32) XOR 1674567091) + (pid XOR 569809)"

text \<open>The position of the slot; \<open>max_exe\<close> is converted to \<open>unsigned int\<close> by the C rules.\<close>

definition get_exe :: "u32 \<Rightarrow> u64 \<Rightarrow> nat" where
  "get_exe pid addr = unat (zz_hash pid addr mod of_nat max_exe)"

definition vmalloc :: "uenv \<Rightarrow> u64 \<Rightarrow> 's exe_st_scheme \<Rightarrow> u64 \<times> 's exe_st_scheme" where
  "vmalloc e sz s =
     (let k = vm_calls s; a = vm_addr e k; s1 = s\<lparr>vm_calls := Suc k\<rparr>
      in if a = 0 then (0, s1)
         else (a, s1\<lparr>kmem := (\<lambda>x. if x - a < sz then Some (vm_junk e k x) else kmem s x),
                    ptm := vm_pt e k sz (ptm s)\<rparr>))"

text \<open>
  \<open>None\<close>: \<open>vmalloc\<close> failed and the loop writes through the null pointer. What the new memory
  contains is \<open>exes_junk\<close>.
\<close>

definition exe_init :: "uenv \<Rightarrow> 's exe_st_scheme \<Rightarrow> 's exe_st_scheme option" where
  "exe_init e s =
     (let (a, s1) = vmalloc e (56 * of_nat max_exe) s
      in if a = 0 then None
         else Some (s1\<lparr>kmem := kmem s, exes_at := a,
                exes := map (\<lambda>i. (exes_junk e i)\<lparr>status_code := un_used\<rparr>) [0..<max_exe]\<rparr>))"

definition exe_exit :: "'s exe_st_scheme \<Rightarrow> 's exe_st_scheme" where
  "exe_exit s = s\<lparr>exes := []\<rparr>"

text \<open>The results of \<open>vmalloc\<close> and of \<open>set_memory_x\<close> are not checked.\<close>

definition exe_add :: "uenv \<Rightarrow> cint \<Rightarrow> u64 \<Rightarrow> 's exe_st_scheme \<Rightarrow> 's exe_st_scheme res" where
  "exe_add e pid rip s =
     (let i = get_exe pid rip; p = exes s ! i in
      if status_code p \<noteq> un_used then Ret s
      else if sint (added s) > 62 then Ret s
      else let s1 = s\<lparr>added := added s + 1,
                     exes := (exes s)[i := p\<lparr>exe_pid := pid, RIP := rip\<rparr>]\<rparr>;
               (a, s2) = vmalloc e (4096 * scast num_pg) s1
        in bind_res (set_memory_x (khdr e) a num_pg s2) (\<lambda>(_, s3).
             Ret (s3\<lparr>exes := (exes s3)[i := (exes s3 ! i)\<lparr>code_block := a, status_code := un_init\<rparr>]\<rparr>)))"

definition upd_exe :: "nat \<Rightarrow> (exe_info \<Rightarrow> exe_info) \<Rightarrow> 's exe_st_scheme \<Rightarrow> 's exe_st_scheme" where
  "upd_exe i f s = s\<lparr>exes := (exes s)[i := f (exes s ! i)]\<rparr>"

definition printk :: "kmsg \<Rightarrow> 's exe_st_scheme \<Rightarrow> 's exe_st_scheme" where
  "printk m s = s\<lparr>klog := klog s @ [m]\<rparr>"

text \<open>The condition under which the chaining loop goes on.\<close>

definition exe_hit :: "cint \<Rightarrow> u64 \<Rightarrow> 's exe_st_scheme \<Rightarrow> bool" where
  "exe_hit pid i s =
     (let exe = exes s ! get_exe pid i
      in \<not> (status_code exe \<noteq> normal \<or> RIP exe \<noteq> i \<or> exe_pid exe \<noteq> pid))"

text \<open>
  The translated code stopped at a \<open>syscall\<close> instruction: run the system call here.
  \<open>orig_ax \<ge> 0\<close> is always true of an \<open>unsigned long\<close>. \<open>None\<close>: reading the table faults.
\<close>

definition do_chained_syscall ::
  "'s exe_st_scheme cenv \<Rightarrow> nat \<Rightarrow> pt_regs \<Rightarrow> 's exe_st_scheme \<Rightarrow> (pt_regs \<times> 's exe_st_scheme) option" where
  "do_chained_syscall c pos regs s =
     (let ip' = ip regs + 2;
          r1 = regs\<lparr>ip := ip', cx := ip', r11 := eflags regs, orig_ax := ax regs, ax := -38\<rparr>
      in if orig_ax r1 \<le> 436 \<and> orig_ax r1 \<ge> 0
         then case mem_read (kmem s) (zz_sys_call_table s + 8 * orig_ax r1) 8 of
                None \<Rightarrow> None
              | Some bs \<Rightarrow>
                  let (ret, r2, s1) = call_ptr c (dec bs) r1 s
                  in Some (r2\<lparr>ax := ret\<rparr>, upd_exe pos (\<lambda>x. x\<lparr>success_cnt := success_cnt x + 1\<rparr>) s1)
         else Some (r1, s))"

text \<open>The translated code stopped for another reason; \<open>a0\<close> is what it left in \<open>args[0]\<close>.\<close>

definition note_miss :: "u64 \<Rightarrow> nat \<Rightarrow> pt_regs \<Rightarrow> 's exe_st_scheme \<Rightarrow> 's exe_st_scheme" where
  "note_miss a0 pos regs s =
     (let x = exes s ! pos in
      if success_cnt x < fail_cnt x \<and> a0 = scast call_miss
      then upd_exe pos (\<lambda>x. x\<lparr>tgt_addr := ip regs, status_code := call_miss, fail_cnt := fail_cnt x + 1\<rparr>) s
      else if success_cnt x < fail_cnt x
      then upd_exe pos (\<lambda>x. x\<lparr>tgt_addr := ip regs, jump_from := a0, status_code := ij_miss,
             fail_cnt := fail_cnt x + 1\<rparr>) s
      else upd_exe pos (\<lambda>x. x\<lparr>fail_cnt := fail_cnt x + 1\<rparr>) s)"

definition exe_report :: "nat \<Rightarrow> 's exe_st_scheme \<Rightarrow> 's exe_st_scheme" where
  "exe_report pos s =
     (let x = exes s ! pos in
      if (success_cnt x + fail_cnt x) mod 500000 = 1
      then printk (CallsCombined (exe_pid x) (RIP x) (success_cnt x) (fail_cnt x)) s else s)"

text \<open>One turn of the loop, after its \<open>break\<close> test.\<close>

definition exe_turn ::
  "'s exe_st_scheme cenv \<Rightarrow> cint \<Rightarrow> pt_regs \<Rightarrow> 's exe_st_scheme \<Rightarrow> (pt_regs \<times> 's exe_st_scheme) option" where
  "exe_turn c pid regs s =
     (let pos = get_exe pid (ip regs);
          s0 = s\<lparr>ac := True\<rparr>;
          (r1, (a0, a1), s1) = run_block c (code_block (exes s0 ! pos)) regs (fsbase c s0, 0) s0
      in case (if a0 = scast normal then do_chained_syscall c pos r1 s1
               else Some (r1, note_miss a0 pos r1 s1)) of
           None \<Rightarrow> None
         | Some (r2, s2) \<Rightarrow> Some (r2, exe_report pos s2))"

text \<open>
  \<open>while(1)\<close>. The result is \<open>None\<close> when the loop never leaves the kernel, \<open>Some None\<close> when a
  turn faults.
\<close>

partial_function (option) exe_loop ::
  "'s exe_st_scheme cenv \<Rightarrow> cint \<Rightarrow> pt_regs \<Rightarrow> 's exe_st_scheme
     \<Rightarrow> (pt_regs \<times> 's exe_st_scheme) option option" where
  "exe_loop c pid regs s =
     (if \<not> exe_hit pid (ip regs) s then Some (Some (regs, s))
      else case exe_turn c pid regs s of
             None \<Rightarrow> Some None
           | Some rs \<Rightarrow> exe_loop c pid (fst rs) (snd rs))"

definition exe_on_call ::
  "'s exe_st_scheme cenv \<Rightarrow> cint \<Rightarrow> pt_regs \<Rightarrow> 's exe_st_scheme
     \<Rightarrow> (pt_regs \<times> 's exe_st_scheme) option option" where
  "exe_on_call c pid regs s =
     map_option (map_option (\<lambda>(r, s1). (r, s1\<lparr>ac := False\<rparr>))) (exe_loop c pid regs s)"

section \<open>Invariant\<close>

text \<open>The table as a direct-mapped table.\<close>

definition exe_idx :: "cint \<times> u64 \<Rightarrow> nat" where
  "exe_idx k = get_exe (fst k) (snd k)"

definition exe_key :: "exe_info \<Rightarrow> cint \<times> u64" where
  "exe_key x = (exe_pid x, RIP x)"

definition exe_used :: "exe_info \<Rightarrow> bool" where
  "exe_used x \<longleftrightarrow> status_code x \<noteq> un_used"

text \<open>
  The invariant: a slot in use holds a key that hashes to it; at most 63 slots are ever
  claimed; besides the claimed ones at most \<open>J\<close> slots hold a key that hashes to them by chance,
  because \<open>exe_init\<close> does not clear the memory it got from \<open>vmalloc\<close>.
\<close>

definition exe_inv :: "nat \<Rightarrow> 's exe_st_scheme \<Rightarrow> bool" where
  "exe_inv J s \<longleftrightarrow> table_wf exe_idx max_exe exe_key exe_used (exes s)
     \<and> n_placed exe_idx exe_key (exes s) \<le> unat (added s) + J \<and> unat (added s) \<le> 63"

text \<open>
  How many misses a slot still takes before its block is given up, and all slots together.
\<close>

definition misses_left :: "exe_info \<Rightarrow> nat" where
  "misses_left x =
     (if status_code x \<noteq> normal then 0
      else if fail_cnt x > success_cnt x then 1 else unat (success_cnt x - fail_cnt x) + 2)"

definition patience :: "'s exe_st_scheme \<Rightarrow> nat" where
  "patience s = sum_list (map misses_left (exes s))"

text \<open>
  What is asked of code that runs inside \<open>exe_on_call\<close>, the translated blocks and the chained
  system calls: it keeps the invariant, and a slot in use stays in use for the same key.
\<close>

definition slots_stay :: "'s exe_st_scheme \<Rightarrow> 's exe_st_scheme \<Rightarrow> bool" where
  "slots_stay s t \<longleftrightarrow> list_all (\<lambda>i. exe_used (exes s ! i) \<longrightarrow>
     exe_used (exes t ! i) \<and> exe_key (exes t ! i) = exe_key (exes s ! i)) [0..<max_exe]"

definition cenv_ok :: "nat \<Rightarrow> 's exe_st_scheme cenv \<Rightarrow> bool" where
  "cenv_ok J c \<longleftrightarrow>
     (\<forall>a r g s. exe_inv J s \<longrightarrow> exe_inv J (snd (snd (run_block c a r g s)))
        \<and> slots_stay s (snd (snd (run_block c a r g s))))
     \<and> (\<forall>a r s. exe_inv J s \<longrightarrow> exe_inv J (snd (snd (call_ptr c a r s)))
        \<and> slots_stay s (snd (snd (call_ptr c a r s))))"

text \<open>Concrete values: a table as \<open>exe_init\<close> leaves it on zeroed memory.\<close>

definition exe_zero :: exe_info where
  "exe_zero = \<lparr>status_code = un_used, exe_pid = 0, RIP = 0, code_block = 0, jump_from = 0,
     tgt_addr = 0, success_cnt = 0, fail_cnt = 0\<rparr>"

definition exe_st0 :: exe_st where
  "exe_st0 = \<lparr>ptm = (\<lambda>_. 0), page_calls = 0, direct_pages_count = (\<lambda>_. 0), pt_log = [],
     exes = replicate max_exe exe_zero, exes_at = 0x600000000, added = 0, zz_sys_call_table = 0, kmem = Map.empty,
     vm_calls = 0, ac = False, klog = []\<rparr>"

definition uenv0 :: uenv where
  "uenv0 = \<lparr>khdr = hdr0\<lparr>supported_pte_mask := 0\<rparr>, vm_addr = (\<lambda>k. 0x700000000 + 0x100000 * of_nat k),
     vm_junk = (\<lambda>_ _. 0), vm_pt = (\<lambda>_ _ m. m), exes_junk = (\<lambda>_. exe_zero)\<rparr>"

text \<open>One translated block, for pid 7 and address 0x400.\<close>

definition exe_run0 :: exe_info where
  "exe_run0 = exe_zero\<lparr>status_code := normal, exe_pid := 7, RIP := 0x400, code_block := 0x700000000\<rparr>"

definition exe_st1 :: exe_st where
  "exe_st1 = exe_st0\<lparr>exes := (exes exe_st0)[get_exe 7 0x400 := exe_run0], added := 1\<rparr>"

text \<open>
  Blocks that leave for an address without a block, and that come back to where they started.
\<close>

definition cenv_leave :: "exe_st cenv" where
  "cenv_leave = \<lparr>run_block = (\<lambda>a r g s. (r\<lparr>ip := 0x900\<rparr>, (1, 0), s)),
     call_ptr = (\<lambda>a r s. (0, r, s)), fsbase = (\<lambda>_. 0)\<rparr>"

definition cenv_again :: "exe_st cenv" where
  "cenv_again = \<lparr>run_block = (\<lambda>a r g s. (r\<lparr>ip := 0x3FE\<rparr>, (0, 0), s)),
     call_ptr = (\<lambda>a r s. (0, r, s)), fsbase = (\<lambda>_. 0)\<rparr>"

section \<open>Lemmas\<close>

lemma get_exe_less: "get_exe pid addr < max_exe"
  unfolding get_exe_def by (rule mod_lt_word) (simp_all add: max_exe_def)

interpretation exe_tab: direct_mapped exe_idx max_exe exe_key exe_used
  by unfold_locales (simp add: exe_idx_def get_exe_less)

lemma exes_of_more:
  assumes "pt_st.more s = pt_st.more t"
  shows "exes s = exes t" "exes_at s = exes_at t" "added s = added t" "kmem s = kmem t" "ac s = ac t" "klog s = klog t"
    "vm_calls s = vm_calls t" "zz_sys_call_table s = zz_sys_call_table t" "exe_st.more s = exe_st.more t"
  using assms by (cases s; cases t; simp)+

lemma exe_inv_cong: "exes s = exes t \<Longrightarrow> added s = added t \<Longrightarrow> exe_inv J s = exe_inv J t"
  by (simp add: exe_inv_def)

lemma vmalloc_exe:
  assumes "vmalloc e sz s = (a, t)"
  shows "exes t = exes s" "exes_at t = exes_at s" "vm_calls t = Suc (vm_calls s)" "added t = added s" "klog t = klog s" "exe_st.more t = exe_st.more s"
    "ac t = ac s" "zz_sys_call_table t = zz_sys_call_table s"
  using assms by (auto simp: vmalloc_def Let_def split: if_splits)

lemma exe_add_skip:
  assumes "status_code (exes s ! get_exe pid rip) \<noteq> un_used \<or> sint (added s) > 62"
  shows "exe_add e pid rip s = Ret s"
  using assms by (auto simp: exe_add_def Let_def)

lemma exe_add_claim:
  assumes "exe_add e pid rip s = Ret s'" and "length (exes s) = max_exe"
    and "status_code (exes s ! get_exe pid rip) = un_used" and "sint (added s) \<le> 62"
  shows "exes s' = (exes s)[get_exe pid rip := (exes s ! get_exe pid rip)\<lparr>exe_pid := pid, RIP := rip,
            code_block := vm_addr e (vm_calls s), status_code := un_init\<rparr>]"
    and "added s' = added s + 1" and "exe_st.more s' = exe_st.more s"
    and "exes_at s' = exes_at s" and "vm_calls s' = Suc (vm_calls s)"
proof -
  let ?i = "get_exe pid rip"
  let ?s1 = "s\<lparr>added := added s + 1, exes := (exes s)[?i := (exes s ! ?i)\<lparr>exe_pid := pid, RIP := rip\<rparr>]\<rparr>"
  obtain a s2 where v: "vmalloc e (4096 * scast num_pg) ?s1 = (a, s2)" by fastforce
  have a: "a = vm_addr e (vm_calls s)"
    using v by (auto simp: vmalloc_def Let_def split: if_splits)
  from assms v obtain r s3 where x: "set_memory_x (khdr e) a num_pg s2 = Ret (r, s3)"
    and s': "s' = s3\<lparr>exes := (exes s3)[?i := (exes s3 ! ?i)\<lparr>code_block := a, status_code := un_init\<rparr>]\<rparr>"
    by (auto simp: exe_add_def Let_def bind_res_eq_Ret split_beta)
  note m = exes_of_more [OF set_memory_x_more [OF x, unfolded snd_conv]] vmalloc_exe [OF v]
  show "exes s' = (exes s)[?i := (exes s ! ?i)\<lparr>exe_pid := pid, RIP := rip,
            code_block := vm_addr e (vm_calls s), status_code := un_init\<rparr>]"
    using assms(2) get_exe_less [of pid rip] by (simp add: s' m a)
  show "added s' = added s + 1" and "exe_st.more s' = exe_st.more s"
    and "exes_at s' = exes_at s" and "vm_calls s' = Suc (vm_calls s)"
    by (simp_all add: s' m)
qed

lemma exe_add_inv:
  assumes "exe_inv J s" and "exe_add e pid rip s = Ret s'"
  shows "exe_inv J s'"
proof (cases "status_code (exes s ! get_exe pid rip) \<noteq> un_used \<or> sint (added s) > 62")
  case True
  with assms exe_add_skip show ?thesis by (metis res.inject)
next
  case False
  have len: "length (exes s) = max_exe" using assms(1) by (simp add: exe_inv_def table_wf_def)
  let ?x = "(exes s ! get_exe pid rip)\<lparr>exe_pid := pid, RIP := rip,
            code_block := vm_addr e (vm_calls s), status_code := un_init\<rparr>"
  have c: "exes s' = (exes s)[exe_idx (pid, rip) := ?x]" "added s' = added s + 1"
    using exe_add_claim [OF assms(2) len] False by (simp_all add: exe_idx_def)
  have "sint (added s) = int (unat (added s))"
    using assms(1) by (intro sint_small) (simp add: exe_inv_def)
  with False have "unat (added s) \<le> 62" by linarith
  then have "unat (added s') = unat (added s) + 1"
    by (simp add: c unat_word_ariths)
  moreover have "table_wf exe_idx max_exe exe_key exe_used (exes s')"
    unfolding c by (rule exe_tab.wf_claim) (use assms(1) in \<open>simp_all add: exe_inv_def exe_key_def\<close>)
  moreover have "n_placed exe_idx exe_key (exes s') \<le> n_placed exe_idx exe_key (exes s) + 1"
    unfolding c by (rule exe_tab.n_placed_claim)
  ultimately show ?thesis
    using assms(1) \<open>unat (added s) \<le> 62\<close> by (simp add: exe_inv_def)
qed

lemma slots_stayD:
  "slots_stay s t \<Longrightarrow> exe_used (exes s ! get_exe p a) \<Longrightarrow> exe_used (exes t ! get_exe p a)"
  using get_exe_less [of p a] by (simp add: slots_stay_def list_all_nth_upt)

lemma exe_inv_ac [simp]: "exe_inv J (s\<lparr>ac := b\<rparr>) = exe_inv J s"
  by (simp add: exe_inv_def)

lemma exe_inv_printk [simp]: "exe_inv J (printk m s) = exe_inv J s"
  by (simp add: exe_inv_def printk_def)

lemma exe_inv_report [simp]: "exe_inv J (exe_report p s) = exe_inv J s"
  by (simp add: exe_report_def Let_def)

lemma exe_inv_upd:
  assumes "exe_inv J s" and "exe_key (f (exes s ! i)) = exe_key (exes s ! i)"
    and "exe_used (exes s ! i) \<or> exe_idx (exe_key (exes s ! i)) = i"
  shows "exe_inv J (upd_exe i f s)"
  using assms by (simp add: exe_inv_def upd_exe_def exe_tab.n_placed_update exe_tab.wf_update)

lemma exe_hit_used: "exe_hit pid a s \<Longrightarrow> exe_used (exes s ! get_exe pid a)"
  by (simp add: exe_hit_def exe_used_def Let_def status_defs)

lemma exe_hit_ac [simp]: "exe_hit pid a (s\<lparr>ac := b\<rparr>) = exe_hit pid a s"
  by (simp add: exe_hit_def Let_def)

lemma note_miss_inv:
  assumes "exe_inv J s" and "exe_used (exes s ! i)"
  shows "exe_inv J (note_miss a i r s)"
  using assms by (simp add: note_miss_def Let_def) (intro conjI impI exe_inv_upd; simp add: exe_key_def)

lemma chained_inv:
  assumes "cenv_ok J c" and "exe_inv J s" and "exe_used (exes s ! get_exe pid a)"
    and "do_chained_syscall c (get_exe pid a) r s = Some (r', t)"
  shows "exe_inv J t"
proof -
  have "exe_inv J (upd_exe (get_exe pid a) (\<lambda>x. x\<lparr>success_cnt := success_cnt x + 1\<rparr>)
      (snd (snd (call_ptr c p q s))))" for p q
    using assms(1-3) slots_stayD [of s "snd (snd (call_ptr c p q s))" pid a]
    by (intro exe_inv_upd) (simp_all add: cenv_ok_def exe_key_def)
  with assms(2,4) show ?thesis
    by (auto simp: do_chained_syscall_def Let_def split_beta split: if_splits option.splits)
qed

lemma exe_turn_inv:
  assumes "cenv_ok J c" and "exe_inv J s" and "exe_hit pid (ip r) s"
    and "exe_turn c pid r s = Some (r', t)"
  shows "exe_inv J t"
proof -
  let ?p = "get_exe pid (ip r)"
  obtain r1 a0 a1 s1 where b: "run_block c (code_block (exes s ! ?p)) r
      (fsbase c (s\<lparr>ac := True\<rparr>), 0) (s\<lparr>ac := True\<rparr>) = (r1, (a0, a1), s1)"
    by (metis surj_pair)
  have "exe_inv J s1 \<and> slots_stay (s\<lparr>ac := True\<rparr>) s1"
    using assms(1,2) b unfolding cenv_ok_def by (metis exe_inv_ac snd_conv)
  moreover from this have "exe_used (exes s1 ! ?p)"
    using slots_stayD [of "s\<lparr>ac := True\<rparr>" s1] exe_hit_used [OF assms(3)] by simp
  ultimately show ?thesis
    using assms(4) chained_inv [OF assms(1)] note_miss_inv b
    by (fastforce simp: exe_turn_def Let_def split: if_splits option.splits)
qed

lemma exe_loop_stop: "\<not> exe_hit pid (ip r) s \<Longrightarrow> exe_loop c pid r s = Some (Some (r, s))"
  by (simp add: exe_loop.simps)

lemma exe_loop_step:
  "exe_hit pid (ip r) s \<Longrightarrow> exe_turn c pid r s = Some (r', s') \<Longrightarrow> exe_loop c pid r s = exe_loop c pid r' s'"
  by (simp add: exe_loop.simps [of c pid r s])

lemma exe_loop_rule_gen:
  assumes "exe_loop c pid r s = Some y" and "P r s"
    and "\<And>r s r' s'. P r s \<Longrightarrow> exe_hit pid (ip r) s \<Longrightarrow> exe_turn c pid r s = Some (r', s') \<Longrightarrow> P r' s'"
  shows "\<exists>r' t. P r' t \<and> (if y = None then exe_hit pid (ip r') t \<and> exe_turn c pid r' t = None
      else y = Some (r', t) \<and> \<not> exe_hit pid (ip r') t)"
proof -
  have "(\<forall>r s r' s'. P r s \<longrightarrow> exe_hit pid (ip r) s \<longrightarrow> exe_turn c pid r s = Some (r', s') \<longrightarrow> P r' s')
      \<longrightarrow> P r s \<longrightarrow> (\<exists>r' t. P r' t \<and> (if y = None then exe_hit pid (ip r') t \<and> exe_turn c pid r' t = None
      else y = Some (r', t) \<and> \<not> exe_hit pid (ip r') t))"
    using assms(1)
  proof (induction rule: exe_loop.raw_induct [rotated, consumes 1, case_names 1])
    case (1 loop c pid r s y)
    show ?case
    proof (cases "exe_hit pid (ip r) s")
      case False
      with 1(2) show ?thesis by auto
    next
      case hit: True
      show ?thesis
      proof (cases "exe_turn c pid r s")
        case None
        with 1(2) hit show ?thesis by auto
      next
        case (Some rs)
        with 1(2) hit have "loop c pid (fst rs) (snd rs) = Some y" by simp
        from 1(1) [OF this] Some hit show ?thesis by (metis (no_types, lifting) prod.collapse)
      qed
    qed
  qed
  with assms(2,3) show ?thesis by blast
qed

lemma exe_loop_rule:
  assumes "exe_loop c pid r s = Some (Some (r', t))" and "P r s"
    and "\<And>r s r' s'. P r s \<Longrightarrow> exe_hit pid (ip r) s \<Longrightarrow> exe_turn c pid r s = Some (r', s') \<Longrightarrow> P r' s'"
  shows "P r' t \<and> \<not> exe_hit pid (ip r') t"
  using exe_loop_rule_gen [where P = P, OF assms] by auto

lemma exe_loop_inv:
  assumes "exe_loop c pid r s = Some (Some (r', t))" and "cenv_ok J c" and "exe_inv J s"
  shows "exe_inv J t"
  using exe_loop_rule [OF assms(1), of "\<lambda>_. exe_inv J"] exe_turn_inv [OF assms(2)] assms(3) by blast

lemma exe_st0_inv: "exe_inv 1 exe_st0"
  using n_placed_replicate [of exe_idx exe_key max_exe exe_zero]
  by (simp add: exe_inv_def exe_st0_def table_wf_iff exe_used_def exe_zero_def)

lemma exe_st1_inv: "exe_inv 1 exe_st1"
proof -
  have "table_wf exe_idx max_exe exe_key exe_used ((exes exe_st0)[exe_idx (7, 0x400) := exe_run0])"
    using exe_st0_inv by (intro exe_tab.wf_claim) (simp_all add: exe_inv_def exe_key_def exe_run0_def)
  moreover have "n_placed exe_idx exe_key ((exes exe_st0)[exe_idx (7, 0x400) := exe_run0]) \<le> 2"
    using exe_tab.n_placed_claim [of "exes exe_st0" "exe_idx (7, 0x400)" exe_run0] exe_st0_inv
    by (simp add: exe_inv_def exe_st0_def)
  ultimately show ?thesis
    by (simp add: exe_inv_def exe_st1_def exe_idx_def)
qed

lemma nth_exe_st0: "exes exe_st0 ! get_exe p a = exe_zero"
  using get_exe_less [of p a] by (simp add: exe_st0_def)

lemma nth_exe_st1: "exes exe_st1 ! get_exe 7 0x400 = exe_run0"
  using get_exe_less [of 7 "0x400"] by (simp add: exe_st1_def exe_st0_def)

lemma slots_stay_refl: "slots_stay s s"
  by (simp add: slots_stay_def list_all_nth_upt)

lemma exe_add_no_nx:
  "\<not> test (supported_pte_mask (khdr e)) (PAGE_NX (khdr e)) \<Longrightarrow> \<exists>s'. exe_add e pid rip s = Ret s'"
  by (simp add: exe_add_def Let_def split_beta set_memory_x_def)

lemma cenv_leave_ok: "cenv_ok J cenv_leave"
  by (simp add: cenv_ok_def cenv_leave_def slots_stay_refl)

lemma exe_loop_measure:
  fixes m :: "'s exe_st_scheme \<Rightarrow> nat"
  assumes "P r s" and "\<And>r s. P r s \<Longrightarrow> exe_hit pid (ip r) s \<Longrightarrow>
      \<exists>r' s'. exe_turn c pid r s = Some (r', s') \<and> P r' s' \<and> m s' < m s"
  shows "\<exists>r' s'. exe_loop c pid r s = Some (Some (r', s'))"
  using assms(1)
proof (induction "m s" arbitrary: r s rule: less_induct)
  case less
  show ?case
  proof (cases "exe_hit pid (ip r) s")
    case True
    with assms(2) less.prems obtain r' s' where t: "exe_turn c pid r s = Some (r', s')" "P r' s'" "m s' < m s" by blast
    from less.hyps [OF t(3,2)] exe_loop_step [OF True t(1)] show ?thesis by simp
  qed (simp add: exe_loop_stop)
qed

lemma unat_next:
  fixes w :: u64
  assumes "w \<noteq> -1"
  shows "unat (w + 1) = Suc (unat w)"
proof -
  have "unat w \<noteq> 18446744073709551615"
  proof
    assume "unat w = 18446744073709551615"
    then have "w = of_nat 18446744073709551615" by (metis of_nat_unat ucast_id)
    also have "\<dots> = -1" by simp
    finally show False using assms by simp
  qed
  moreover have "unat w < 2 ^ 64" using unsigned_less [of w] by simp
  ultimately show ?thesis by (simp add: unat_word_ariths)
qed

lemma misses_left_less:
  assumes "status_code x = normal" and "success_cnt x \<noteq> -1" and "\<not> success_cnt x < fail_cnt x"
  shows "misses_left (x\<lparr>fail_cnt := fail_cnt x + 1\<rparr>) < misses_left x"
proof -
  have l: "unat (fail_cnt x) \<le> unat (success_cnt x)" using assms(3) by (simp add: word_less_nat_alt)
  have "fail_cnt x \<noteq> -1" using assms(2,3) by (auto simp: not_less word_order.extremum_unique)
  then have n: "unat (fail_cnt x + 1) = Suc (unat (fail_cnt x))" by (rule unat_next)
  show ?thesis
    using assms l n by (auto simp: misses_left_def word_less_nat_alt unat_sub_if')
qed

lemma patience_upd:
  assumes "i < length (exes s)" and "misses_left (f (exes s ! i)) < misses_left (exes s ! i)"
  shows "patience (upd_exe i f s) < patience s"
  using sum_list_map_update [OF assms(1), of misses_left "f (exes s ! i)"] assms(2)
  by (simp add: patience_def upd_exe_def)

lemma note_miss_patience:
  assumes "i < length (exes s)" and "status_code (exes s ! i) = normal" and "success_cnt (exes s ! i) \<noteq> -1"
  shows "patience (note_miss a i r s) < patience s"
  using assms misses_left_less [OF assms(2,3)]
  by (auto simp: note_miss_def Let_def misses_left_def status_defs intro!: patience_upd)

lemma note_miss_success:
  assumes "i < length (exes s)" and "\<forall>x \<in> set (exes s). success_cnt x \<noteq> k"
  shows "\<forall>x \<in> set (exes (note_miss a i r s)). success_cnt x \<noteq> k"
  using assms by (auto simp: note_miss_def Let_def upd_exe_def dest!: set_update_subset_insert [THEN subsetD])

lemma exes_report [simp]: "exes (exe_report p s) = exes s" "patience (exe_report p s) = patience s"
  by (simp_all add: exe_report_def printk_def patience_def Let_def)

lemma miss_turn:
  assumes "length (exes s) = max_exe \<and> (\<forall>x \<in> set (exes s). success_cnt x \<noteq> -1)" and "exe_hit pid (ip r) s"
    and "\<forall>a r g t. fst (fst (snd (run_block c a r g t))) \<noteq> scast normal
           \<and> exes (snd (snd (run_block c a r g t))) = exes t"
  shows "\<exists>r' s'. exe_turn c pid r s = Some (r', s')
    \<and> (length (exes s') = max_exe \<and> (\<forall>x \<in> set (exes s'). success_cnt x \<noteq> -1)) \<and> patience s' < patience s"
proof -
  let ?p = "get_exe pid (ip r)"
  let ?s0 = "s\<lparr>ac := True\<rparr>"
  obtain r1 a0 a1 s1 where b: "run_block c (code_block (exes ?s0 ! ?p)) r (fsbase c ?s0, 0) ?s0 = (r1, (a0, a1), s1)"
    by (metis prod.exhaust)
  have a0: "a0 \<noteq> scast normal" and e: "exes s1 = exes s"
    using assms(3) [rule_format, of "code_block (exes ?s0 ! ?p)" r "(fsbase c ?s0, 0)" ?s0] b by simp_all
  have p: "?p < length (exes s1)" using assms(1) get_exe_less [of pid "ip r"] e by simp
  have n: "status_code (exes s1 ! ?p) = normal" "success_cnt (exes s1 ! ?p) \<noteq> -1"
    using assms(1,2) p e by (auto simp: exe_hit_def Let_def)
  have "exe_turn c pid r s = Some (r1, exe_report ?p (note_miss a0 ?p r1 s1))"
    using b a0 by (simp add: exe_turn_def Let_def)
  moreover have "length (exes (note_miss a0 ?p r1 s1)) = length (exes s1)"
    by (simp add: note_miss_def upd_exe_def Let_def)
  moreover have "patience s1 = patience s" by (simp add: patience_def e)
  ultimately show ?thesis
    using note_miss_patience [OF p n, of a0 r1] note_miss_success [OF p, of "-1" a0 r1] assms(1) e by simp
qed

section \<open>Properties\<close>

text \<open>
  C11: The hit test of the chaining loop looks at one slot only, the one the hash of pid and
  address gives. It finds a translated block exactly when some slot of the whole table holds
  one for this pid and address.
\<close>

theorem exe_hit_search:
  assumes "exe_inv J s"
  shows "exe_hit pid a s \<longleftrightarrow>
    (\<exists>x \<in> set (exes s). status_code x = normal \<and> exe_pid x = pid \<and> RIP x = a)"
proof
  assume "exe_hit pid a s"
  moreover have "exes s ! get_exe pid a \<in> set (exes s)"
    using assms get_exe_less [of pid a] by (simp add: exe_inv_def table_wf_def)
  ultimately show "\<exists>x \<in> set (exes s). status_code x = normal \<and> exe_pid x = pid \<and> RIP x = a"
    by (auto simp: exe_hit_def Let_def)
next
  assume "\<exists>x \<in> set (exes s). status_code x = normal \<and> exe_pid x = pid \<and> RIP x = a"
  then obtain i where i: "i < max_exe" "status_code (exes s ! i) = normal"
      "exe_pid (exes s ! i) = pid" "RIP (exes s ! i) = a"
    using assms by (auto simp: exe_inv_def table_wf_def in_set_conv_nth)
  then have "get_exe pid a = i"
    using assms by (auto simp: exe_inv_def table_wf_iff exe_used_def exe_key_def exe_idx_def status_defs)
  with i show "exe_hit pid a s" by (simp add: exe_hit_def)
qed

theorem exe_hit_search_witness: "exe_inv 1 exe_st1 \<and> exe_hit 7 0x400 exe_st1
    \<and> (\<exists>x \<in> set (exes exe_st1). status_code x = normal \<and> exe_pid x = 7 \<and> RIP x = 0x400)"
  using exe_hit_search [OF exe_st1_inv, of 7 "0x400"] exe_st1_inv
  by (simp add: exe_hit_def nth_exe_st1 exe_run0_def)

text \<open>
  C16: Claiming a slot: when the slot of (pid, rip) is unused and fewer than 63 slots were
  claimed, \<open>exe_add\<close> writes pid, rip, the new code block and the status \<open>un_init\<close> to that slot
  and counts the claim; otherwise it changes nothing at all.
\<close>

theorem exe_add_effect:
  assumes "exe_inv J s" and "exe_add e pid rip s = Ret s'"
  shows "if status_code (exes s ! get_exe pid rip) = un_used \<and> unat (added s) < 63
    then exes s' = (exes s)[get_exe pid rip := (exes s ! get_exe pid rip)\<lparr>exe_pid := pid, RIP := rip,
            code_block := vm_addr e (vm_calls s), status_code := un_init\<rparr>]
         \<and> added s' = added s + 1
    else s' = s"
proof -
  have l: "length (exes s) = max_exe" using assms(1) by (simp add: exe_inv_def table_wf_def)
  have "sint (added s) = int (unat (added s))"
    using assms(1) by (intro sint_small) (simp add: exe_inv_def)
  then have "sint (added s) > 62 \<longleftrightarrow> \<not> unat (added s) < 63" by linarith
  with exe_add_claim [OF assms(2) l] exe_add_skip [of s pid rip e] assms(2) show ?thesis
    by (metis not_less res.inject)
qed

theorem exe_add_effect_witness:
  "exe_inv 1 exe_st0 \<and> (\<exists>s'. exe_add uenv0 7 0x400 exe_st0 = Ret s'
     \<and> exes s' ! get_exe 7 0x400 = exe_zero\<lparr>exe_pid := 7, RIP := 0x400,
            code_block := 0x700000000, status_code := un_init\<rparr> \<and> added s' = 1)"
proof -
  obtain s' where s': "exe_add uenv0 7 0x400 exe_st0 = Ret s'"
    using exe_add_no_nx [of uenv0 7 "0x400" exe_st0] by (auto simp: uenv0_def)
  from exe_add_effect [OF exe_st0_inv s'] s' exe_st0_inv get_exe_less [of 7 "0x400"]
  show ?thesis
    by (simp add: nth_exe_st0 exe_st0_def exe_zero_def uenv0_def)
qed

text \<open>
  C6: When \<open>exe_on_call\<close> returns, the next user instruction has no translated block, user
  access is closed again (\<open>clac\<close>), and the invariant of the table holds, provided the blocks and
  the chained system calls keep it.
\<close>

theorem exe_on_call_result:
  assumes "exe_on_call c pid regs s = Some (Some (regs', s'))" and "cenv_ok J c" and "exe_inv J s"
  shows "\<not> exe_hit pid (ip regs') s' \<and> \<not> ac s' \<and> exe_inv J s'"
proof -
  from assms(1) obtain t where t: "exe_loop c pid regs s = Some (Some (regs', t))"
    and s': "s' = t\<lparr>ac := False\<rparr>"
    by (auto simp: exe_on_call_def)
  from exe_loop_rule [OF t, of "\<lambda>_ _. True"] exe_loop_inv [OF t assms(2,3)] s' show ?thesis
    by simp
qed

theorem exe_on_call_result_witness:
  "\<exists>r' s'. exe_on_call cenv_leave 7 regs0 exe_st1 = Some (Some (r', s')) \<and> ip r' = 0x900
     \<and> \<not> exe_hit 7 0x900 s' \<and> \<not> ac s' \<and> exe_inv 1 s'"
proof -
  let ?x = "exe_run0\<lparr>fail_cnt := 1\<rparr>"
  obtain t where t: "exe_turn cenv_leave 7 regs0 exe_st1 = Some (regs0\<lparr>ip := 0x900\<rparr>, t)"
    and e: "exes t = (exes exe_st1)[get_exe 7 0x400 := ?x]"
    by (simp add: exe_turn_def cenv_leave_def regs0_def nth_exe_st1 exe_run0_def exe_zero_def
        note_miss_def Let_def upd_exe_def exe_report_def printk_def status_defs)
  have "\<not> exe_hit 7 0x900 t"
    using get_exe_less [of 7 "0x900"] get_exe_less [of 7 "0x400"]
    by (auto simp: exe_hit_def e exe_st1_def exe_st0_def nth_list_update exe_run0_def exe_zero_def
        status_defs)
  then have l: "exe_on_call cenv_leave 7 regs0 exe_st1 = Some (Some (regs0\<lparr>ip := 0x900\<rparr>, t\<lparr>ac := False\<rparr>))"
    using exe_loop_step [OF _ t] exe_loop_stop [of 7 "regs0\<lparr>ip := 0x900\<rparr>" t cenv_leave]
    by (simp add: exe_on_call_def exe_hit_def nth_exe_st1 exe_run0_def regs0_def)
  from exe_on_call_result [OF l cenv_leave_ok exe_st1_inv] l show ?thesis by auto
qed

text \<open>
  A system call whose return address has no translated block is not affected:
  \<open>exe_on_call\<close> returns at once with the registers as they are and the state unchanged but for
  the closed user access.
\<close>

lemma exe_on_call_miss:
  assumes "\<not> exe_hit pid (ip regs) s"
  shows "exe_on_call c pid regs s = Some (Some (regs, s\<lparr>ac := False\<rparr>))"
  using assms by (simp add: exe_on_call_def exe_loop.simps)

lemma exe_on_call_miss_example:
  "\<not> exe_hit 7 (ip regs0) exe_st0
   \<and> exe_on_call cenv_leave 7 regs0 exe_st0 = Some (Some (regs0, exe_st0\<lparr>ac := False\<rparr>))"
proof -
  have "\<not> exe_hit 7 (ip regs0) exe_st0"
    by (simp add: exe_hit_def nth_exe_st0 exe_zero_def status_defs)
  with exe_on_call_miss [OF this, of cenv_leave] show ?thesis by simp
qed

text \<open>
  C20: Misses end the chaining loop. When no block reaches a system call (each reports a missing
  callee or indirect jump) and the blocks do not write the table, \<open>exe_on_call\<close> returns: every turn counts
  a failure on the slot it ran, and a slot with more failures than successes loses the status
  \<open>normal\<close>. A success count of \<open>2^64 - 1\<close> is excluded: no failure count exceeds it.
\<close>

theorem exe_on_call_returns:
  assumes "length (exes s) = max_exe" and "\<forall>x \<in> set (exes s). success_cnt x \<noteq> -1"
    and "\<forall>a r g t. fst (fst (snd (run_block c a r g t))) \<noteq> scast normal
           \<and> exes (snd (snd (run_block c a r g t))) = exes t"
  shows "\<exists>regs' s'. exe_on_call c pid regs s = Some (Some (regs', s'))"
proof -
  let ?P = "\<lambda>_ t. length (exes t) = max_exe \<and> (\<forall>x \<in> set (exes t). success_cnt x \<noteq> -1)"
  have t: "\<exists>r' t'. exe_turn c pid r t = Some (r', t') \<and> ?P r' t' \<and> patience t' < patience t"
    if "?P r t" "exe_hit pid (ip r) t" for r t
    using miss_turn [OF _ that(2)] that(1) assms(3) by blast
  show ?thesis using exe_loop_measure [of ?P regs s pid c patience] assms(1,2) t by (auto simp: exe_on_call_def)
qed

theorem exe_on_call_returns_witness:
  "exe_hit 7 (ip regs0) exe_st1 \<and> (\<exists>r' s'. exe_on_call cenv_leave 7 regs0 exe_st1 = Some (Some (r', s')))"
proof -
  have "set (exes exe_st1) \<subseteq> {exe_zero, exe_run0}"
    by (auto simp: exe_st1_def exe_st0_def dest!: set_update_subset_insert [THEN subsetD])
  then have "\<forall>x \<in> set (exes exe_st1). success_cnt x \<noteq> -1" by (auto simp: exe_zero_def exe_run0_def)
  moreover have "length (exes exe_st1) = max_exe" by (simp add: exe_st1_def exe_st0_def)
  ultimately have "\<exists>r' s'. exe_on_call cenv_leave 7 regs0 exe_st1 = Some (Some (r', s'))"
    by (intro exe_on_call_returns) (simp_all add: cenv_leave_def status_defs)
  then show ?thesis by (simp add: exe_hit_def nth_exe_st1 exe_run0_def regs0_def)
qed

text \<open>
  The chaining loop has no bound of its own: as long as every turn ends at an address
  with a translated block, \<open>exe_on_call\<close> never returns to user mode.
\<close>

lemma exe_on_call_hangs:
  assumes "P regs s"
    and "\<And>r s. P r s \<Longrightarrow> exe_hit pid (ip r) s \<and> (\<exists>r' s'. exe_turn c pid r s = Some (r', s') \<and> P r' s')"
  shows "exe_on_call c pid regs s = None"
proof (rule ccontr)
  assume "exe_on_call c pid regs s \<noteq> None"
  then obtain y where y: "exe_loop c pid regs s = Some y" by (auto simp: exe_on_call_def)
  have step: "P r' s'" if "P r s" "exe_turn c pid r s = Some (r', s')" for r s r' s'
    using assms(2) [OF that(1)] that(2) by auto
  from exe_loop_rule_gen [OF y, of P] assms step show False
    by (metis option.distinct(1))
qed

lemma exe_on_call_hangs_example:
  "exe_hit 7 0x400 exe_st1 \<and> exe_on_call cenv_again 7 regs0 exe_st1 = None"
proof -
  let ?P = "\<lambda>r (s :: exe_st). ip r = 0x400 \<and> ax r > 436 \<and> exes s = exes exe_st1"
  have "exe_on_call cenv_again 7 regs0 exe_st1 = None"
    by (rule exe_on_call_hangs [of ?P])
      (auto simp: regs0_def exe_hit_def nth_exe_st1 exe_run0_def exe_zero_def exe_turn_def Let_def
        cenv_again_def do_chained_syscall_def exe_report_def status_defs)
  then show ?thesis by (simp add: exe_hit_def nth_exe_st1 exe_run0_def)
qed

end
