(* ===== verification/Stat.thy ===== *)
theory Stat
  imports Exe
begin

text \<open>
  Hot-caller detection: \<open>zz_lkm/stat.h\<close> and \<open>zz_lkm/stat.c\<close>. Per CPU, a table of 16 callers
  counts the system calls that came shortly after the one before; at a milestone (every
  30001 calls) the callers that were hot are handed to \<open>exe_add\<close>.
\<close>

section \<open>Data\<close>

definition max_caller :: nat where "max_caller = 16"
definition syscall_short_th :: cint where "syscall_short_th = 1300"
definition hot_caller_th :: cint where "hot_caller_th = 900"
definition milestone_cnt :: cint where "milestone_cnt = 30000"
definition milestone_duration_th :: cint where "milestone_duration_th = 1000000000"

lemmas stat_consts = max_caller_def syscall_short_th_def hot_caller_th_def milestone_cnt_def
  milestone_duration_th_def

record caller_info =
  rip :: u64
  cpid :: cint
  cnt :: u64

record per_cpu_info =
  last_caller :: u64
  last_ts :: u64
  call_cnt :: u64
  milestone_ts :: u64
  caller :: "caller_info list"
  interested :: bool

record stat_st = exe_st +
  info :: "per_cpu_info list"
  info_at :: u64
  num_cpus :: cint

section \<open>Operations\<close>

definition caller_zero :: caller_info where
  "caller_zero = \<lparr>rip = 0, cpid = 0, cnt = 0\<rparr>"

definition info_zero :: per_cpu_info where
  "info_zero = \<lparr>last_caller = 0, last_ts = 0, call_cnt = 0, milestone_ts = 0,
     caller = replicate max_caller caller_zero, interested = False\<rparr>"

text \<open>
  \<open>sizeof(struct per_cpu_info)\<close> is 424: four words, 16 callers of 24 bytes and a padded
  flag. A failed \<open>vmalloc\<close> is not checked: \<open>memset\<close> then writes through the null pointer. As with
  the slots, the bytes at \<open>info_at\<close> are kept as the elements of \<open>info\<close> and not in \<open>kmem\<close>.
\<close>

definition stat_init :: "uenv \<Rightarrow> cint \<Rightarrow> 's stat_st_scheme \<Rightarrow> 's stat_st_scheme res" where
  "stat_init e online s =
     (let s0 = s\<lparr>num_cpus := online\<rparr>; (a, s1) = vmalloc e (424 * scast online) s0
      in if a = 0 then Oops
         else Ret (s1\<lparr>kmem := kmem s, info_at := a, info := replicate (nat (sint online)) info_zero\<rparr>))"

definition stat_exit :: "'s stat_st_scheme \<Rightarrow> 's stat_st_scheme" where
  "stat_exit s = s\<lparr>info := []\<rparr>"

definition upd_info :: "nat \<Rightarrow> (per_cpu_info \<Rightarrow> per_cpu_info) \<Rightarrow> 's stat_st_scheme \<Rightarrow> 's stat_st_scheme" where
  "upd_info k f s = s\<lparr>info := (info s)[k := f (info s ! k)]\<rparr>"

definition upd_caller :: "nat \<Rightarrow> (caller_info \<Rightarrow> caller_info) \<Rightarrow> per_cpu_info \<Rightarrow> per_cpu_info" where
  "upd_caller pos f x = x\<lparr>caller := (caller x)[pos := f (caller x ! pos)]\<rparr>"

text \<open>The \<open>for\<close> loop of the milestone, over the positions that are left.\<close>

primrec hot_scan :: "nat list \<Rightarrow> uenv \<Rightarrow> nat \<Rightarrow> 's stat_st_scheme \<Rightarrow> 's stat_st_scheme res" where
  "hot_scan [] e k s = Ret s"
| "hot_scan (pos # ps) e k s =
     (let my_caller = caller (info s ! k) ! pos in
      bind_res (if cnt my_caller > scast hot_caller_th
                then exe_add e (cpid my_caller) (rip my_caller) s else Ret s)
        (\<lambda>s1. hot_scan ps e k (upd_info k (upd_caller pos (\<lambda>c. c\<lparr>cnt := 0\<rparr>)) s1)))"

definition caller_pos :: "cint \<Rightarrow> u64 \<Rightarrow> nat" where
  "caller_pos pid addr = unat (zz_hash pid addr mod of_nat max_caller)"

text \<open>A short system call: claim the slot of the previous caller if it is free, count it.\<close>

definition count_short :: "cint \<Rightarrow> per_cpu_info \<Rightarrow> per_cpu_info" where
  "count_short pid x =
     (let pos = caller_pos pid (last_caller x);
          x1 = (if cnt (caller x ! pos) = 0
                then upd_caller pos (\<lambda>c. c\<lparr>cpid := pid, rip := last_caller x\<rparr>) x else x)
      in if rip (caller x1 ! pos) = last_caller x1
         then upd_caller pos (\<lambda>c. c\<lparr>cnt := cnt c + 1\<rparr>) x1 else x1)"

definition milestone :: "uenv \<Rightarrow> nat \<Rightarrow> u64 \<Rightarrow> 's stat_st_scheme \<Rightarrow> 's stat_st_scheme res" where
  "milestone e k current_time s =
     bind_res (if interested (info s ! k) then hot_scan [0..<max_caller] e k s else Ret s)
       (\<lambda>s1. Ret (upd_info k (\<lambda>x. x\<lparr>call_cnt := 0,
           interested := (current_time - milestone_ts x < scast milestone_duration_th),
           milestone_ts := current_time\<rparr>) s1))"

text \<open>
  \<open>cpu_id\<close>, \<open>current_time\<close> and \<open>pid\<close> are what \<open>smp_processor_id\<close>, \<open>ktime_get_boottime_ns\<close>
  and \<open>task_pid_nr(current)\<close> return; \<open>rip0\<close> is \<open>regs->ip\<close>. \<open>info\<close> has \<open>num_cpus\<close> elements: an
  index beyond them is an access outside the array.
\<close>

definition stat_func ::
  "uenv \<Rightarrow> nat \<Rightarrow> u64 \<Rightarrow> cint \<Rightarrow> u64 \<Rightarrow> u64 \<Rightarrow> 's stat_st_scheme \<Rightarrow> 's stat_st_scheme res" where
  "stat_func e cpu_id current_time pid rip0 ts s =
     (if cpu_id \<ge> length (info s) then Oops else
      let s1 = upd_info cpu_id (\<lambda>x. x\<lparr>call_cnt := call_cnt x + 1\<rparr>) s in
      bind_res (if call_cnt (info s1 ! cpu_id) > scast milestone_cnt
                then milestone e cpu_id current_time s1 else Ret s1) (\<lambda>s2.
      Ret (if interested (info s2 ! cpu_id)
           then upd_info cpu_id (\<lambda>x.
                  (if ts - last_ts x < scast syscall_short_th then count_short pid x else x)
                    \<lparr>last_ts := current_time, last_caller := rip0\<rparr>) s2
           else s2)))"

section \<open>Invariant\<close>

text \<open>
  The caller table of a CPU as a direct-mapped table; a slot is in use while its count is not 0.
\<close>

definition call_idx :: "cint \<times> u64 \<Rightarrow> nat" where
  "call_idx k = caller_pos (fst k) (snd k)"

definition caller_key :: "caller_info \<Rightarrow> cint \<times> u64" where
  "caller_key c = (cpid c, rip c)"

definition caller_used :: "caller_info \<Rightarrow> bool" where
  "caller_used c \<longleftrightarrow> cnt c \<noteq> 0"

text \<open>All short calls counted since the last milestone.\<close>

definition short_calls :: "per_cpu_info \<Rightarrow> nat" where
  "short_calls x = sum_list (map (\<lambda>c. unat (cnt c)) (caller x))"

text \<open>
  The invariant of a CPU: at most one short call per call since the milestone, none while the
  CPU is not interested.
\<close>

definition cpu_ok :: "per_cpu_info \<Rightarrow> bool" where
  "cpu_ok x \<longleftrightarrow> table_wf call_idx max_caller caller_key caller_used (caller x)
     \<and> unat (call_cnt x) \<le> 30000 \<and> short_calls x \<le> unat (call_cnt x) + 1
     \<and> (\<not> interested x \<longrightarrow> short_calls x = 0)"

definition stat_inv :: "'s stat_st_scheme \<Rightarrow> bool" where
  "stat_inv s \<longleftrightarrow> list_all cpu_ok (info s)"

text \<open>
  What the milestone scan leaves of the callers: those at the positions \<open>ps\<close> have count 0.
\<close>

definition reset_at :: "nat list \<Rightarrow> caller_info list \<Rightarrow> caller_info list" where
  "reset_at ps ys = map (\<lambda>(i, c). if i \<in> set ps then c\<lparr>cnt := 0\<rparr> else c) (zip [0..<length ys] ys)"

text \<open>The first half of \<open>stat_func\<close>, up to the milestone.\<close>

definition stat_mid :: "uenv \<Rightarrow> nat \<Rightarrow> u64 \<Rightarrow> 's stat_st_scheme \<Rightarrow> 's stat_st_scheme res" where
  "stat_mid e k now s =
     (let s1 = upd_info k (\<lambda>x. x\<lparr>call_cnt := call_cnt x + 1\<rparr>) s in
      if call_cnt (info s1 ! k) > scast milestone_cnt then milestone e k now s1 else Ret s1)"

text \<open>Concrete values: a CPU that reaches its milestone with one hot caller.\<close>

definition hot_caller0 :: caller_info where
  "hot_caller0 = \<lparr>rip = 0x400, cpid = 7, cnt = 901\<rparr>"

definition hot_info0 :: per_cpu_info where
  "hot_info0 = info_zero\<lparr>call_cnt := 30000, interested := True,
     caller := (caller info_zero)[caller_pos 7 0x400 := hot_caller0]\<rparr>"

definition stat_st0 :: stat_st where
  "stat_st0 = exe_st.extend exe_st0 (stat_st.fields [hot_info0] 0x500000000 1)"

section \<open>Lemmas\<close>

lemma caller_pos_less: "caller_pos pid addr < max_caller"
  unfolding caller_pos_def by (rule mod_lt_word) (simp_all add: max_caller_def)

interpretation call_tab: direct_mapped call_idx max_caller caller_key caller_used
  by unfold_locales (simp add: call_idx_def caller_pos_less)

lemma info_of_more: "exe_st.more s = exe_st.more t \<Longrightarrow> info s = info t"
  by (cases s; cases t; simp)

lemma exe_add_changes:
  assumes "exe_inv J s" and "exe_add e pid a s = Ret s'"
  shows "exe_st.more s' = exe_st.more s"
    and "exes s' ! i \<noteq> exes s ! i \<Longrightarrow> exe_key (exes s' ! i) = (pid, a)"
proof -
  have l: "length (exes s) = max_exe" using assms(1) by (simp add: exe_inv_def table_wf_def)
  have "exe_st.more s' = exe_st.more s \<and> (exes s' ! i \<noteq> exes s ! i \<longrightarrow> exe_key (exes s' ! i) = (pid, a))"
  proof (cases "status_code (exes s ! get_exe pid a) \<noteq> un_used \<or> sint (added s) > 62")
    case True
    with exe_add_skip [of s pid a e] assms(2) show ?thesis by simp
  next
    case False
    with exe_add_claim [OF assms(2) l] l get_exe_less [of pid a] show ?thesis
      by (auto simp: exe_key_def nth_list_update)
  qed
  then show "exe_st.more s' = exe_st.more s"
    and "exes s' ! i \<noteq> exes s ! i \<Longrightarrow> exe_key (exes s' ! i) = (pid, a)" by auto
qed

lemma upd_info_exe [simp]:
  "exes (upd_info k f s) = exes s" "added (upd_info k f s) = added s"
  "info (upd_info k f s) = (info s)[k := f (info s ! k)]"
  "exe_inv J (upd_info k f s) = exe_inv J s"
  by (simp_all add: upd_info_def exe_inv_def)

lemma short_calls_upd:
  "p < length (caller x) \<Longrightarrow>
     short_calls (upd_caller p f x) + unat (cnt (caller x ! p)) = short_calls x + unat (cnt (f (caller x ! p)))"
  using sum_list_map_update [of p "caller x" "\<lambda>c. unat (cnt c)" "f (caller x ! p)"]
  by (simp add: short_calls_def upd_caller_def)

lemma cnt_le_short_calls: "p < length (caller x) \<Longrightarrow> unat (cnt (caller x ! p)) \<le> short_calls x"
  unfolding short_calls_def by (rule member_le_sum_list) auto

lemma reset_at_simps [simp]:
  "length (reset_at ps ys) = length ys"
  "i < length ys \<Longrightarrow> reset_at ps ys ! i = (if i \<in> set ps then (ys ! i)\<lparr>cnt := 0\<rparr> else ys ! i)"
  by (simp_all add: reset_at_def)

lemma hot_scan_effect:
  assumes "hot_scan ps e k s = Ret s'" and "exe_inv J s" and "k < length (info s)" and "distinct ps"
    and "\<forall>p \<in> set ps. p < length (caller (info s ! k))"
  shows "exe_inv J s' \<and> info s' = (info s)[k := (info s ! k)\<lparr>caller := reset_at ps (caller (info s ! k))\<rparr>]
    \<and> (\<forall>i. exes s' ! i \<noteq> exes s ! i \<longrightarrow>
        (\<exists>p \<in> set ps. cnt (caller (info s ! k) ! p) > 900
            \<and> exe_key (exes s' ! i) = caller_key (caller (info s ! k) ! p)))"
  using assms
proof (induction ps arbitrary: s)
  case Nil
  have "reset_at [] ys = ys" for ys by (rule nth_equalityI) auto
  with Nil show ?case by auto
next
  case (Cons p ps)
  let ?x = "info s ! k" and ?c = "caller (info s ! k) ! p"
  let ?u = "upd_caller p (\<lambda>c. c\<lparr>cnt := 0\<rparr>)"
  from Cons.prems(1) obtain s1 where
    a: "(if cnt ?c > scast hot_caller_th then exe_add e (cpid ?c) (rip ?c) s else Ret s) = Ret s1"
    and r: "hot_scan ps e k (upd_info k ?u s1) = Ret s'"
    by (auto simp: Let_def bind_res_eq_Ret)
  have th: "(scast hot_caller_th :: u64) = 900" by (simp add: hot_caller_th_def)
  have m: "exe_st.more s1 = exe_st.more s" "exe_inv J s1"
    and ch: "\<And>i. exes s1 ! i \<noteq> exes s ! i \<Longrightarrow> cnt ?c > 900 \<and> exe_key (exes s1 ! i) = caller_key ?c"
    using a exe_add_changes [OF Cons.prems(2), of e "cpid ?c" "rip ?c" s1]
      exe_add_inv [OF Cons.prems(2), of e "cpid ?c" "rip ?c" s1] Cons.prems(2)
    by (auto simp: th caller_key_def split: if_splits)
  have i1: "info s1 = info s" by (rule info_of_more [OF m(1)])
  have len: "length (caller (?u ?x)) = length (caller ?x)" by (simp add: upd_caller_def)
  have IH: "exe_inv J s' \<and> info s' = (info s)[k := (?u ?x)\<lparr>caller := reset_at ps (caller (?u ?x))\<rparr>]
    \<and> (\<forall>i. exes s' ! i \<noteq> exes s1 ! i \<longrightarrow> (\<exists>q \<in> set ps. cnt (caller (?u ?x) ! q) > 900
            \<and> exe_key (exes s' ! i) = caller_key (caller (?u ?x) ! q)))"
    using Cons.IH [OF r] m(2) Cons.prems(3-5) i1 len by simp
  have q: "caller (?u ?x) ! q = caller ?x ! q" if "q \<in> set ps" for q
  proof -
    have "p \<noteq> q" using that Cons.prems(4) by auto
    then show ?thesis by (simp add: upd_caller_def)
  qed
  have "reset_at ps (caller (?u ?x)) = reset_at (p # ps) (caller ?x)"
    using Cons.prems(5) by (intro nth_equalityI) (auto simp: upd_caller_def nth_list_update)
  then have "(?u ?x)\<lparr>caller := reset_at ps (caller (?u ?x))\<rparr> = ?x\<lparr>caller := reset_at (p # ps) (caller ?x)\<rparr>"
    by (simp add: upd_caller_def)
  moreover have "\<exists>q \<in> set (p # ps). cnt (caller ?x ! q) > 900
      \<and> exe_key (exes s' ! i) = caller_key (caller ?x ! q)" if "exes s' ! i \<noteq> exes s ! i" for i
    using IH ch [of i] q that by (cases "exes s' ! i = exes s1 ! i") auto
  ultimately show ?case using IH by auto
qed

lemma short_calls_upds [simp]:
  "short_calls (x\<lparr>call_cnt := a\<rparr>) = short_calls x" "short_calls (x\<lparr>interested := b\<rparr>) = short_calls x"
  "short_calls (x\<lparr>milestone_ts := a\<rparr>) = short_calls x" "short_calls (x\<lparr>last_ts := a\<rparr>) = short_calls x"
  "short_calls (x\<lparr>last_caller := a\<rparr>) = short_calls x"
  by (simp_all add: short_calls_def)

lemma cpu_ok_callers: "cpu_ok x \<Longrightarrow> length (caller x) = max_caller"
  by (simp add: cpu_ok_def table_wf_def)

lemma sum_zero_cnt: "sum_list (map (\<lambda>c. unat (cnt c)) ys) = 0 \<longleftrightarrow> (\<forall>c \<in> set ys. cnt c = 0)"
  by (induction ys) (auto simp: unat_eq_zero)

lemma reset_all: 
  assumes "length (caller x) = max_caller"
  shows "short_calls (x\<lparr>caller := reset_at [0..<max_caller] (caller x)\<rparr>) = 0"
    and "table_wf call_idx max_caller caller_key caller_used (reset_at [0..<max_caller] (caller x))"
  using assms by (auto simp: short_calls_def sum_zero_cnt in_set_conv_nth table_wf_iff caller_used_def)

lemma count_short_eq:
  assumes "caller_pos pid (last_caller x) < length (caller x)"
  shows "count_short pid x =
    (let p = caller_pos pid (last_caller x); c = caller x ! p in
     if cnt c = 0 then upd_caller p (\<lambda>c. c\<lparr>cpid := pid, rip := last_caller x, cnt := cnt c + 1\<rparr>) x
     else if rip c = last_caller x then upd_caller p (\<lambda>c. c\<lparr>cnt := cnt c + 1\<rparr>) x else x)"
  using assms by (simp add: count_short_def Let_def upd_caller_def)

lemma count_short_ok:
  assumes "table_wf call_idx max_caller caller_key caller_used (caller x)" and "short_calls x \<le> 30001"
  shows "table_wf call_idx max_caller caller_key caller_used (caller (count_short pid x))"
    and "short_calls (count_short pid x) \<le> short_calls x + 1"
    and "interested (count_short pid x) = interested x" and "call_cnt (count_short pid x) = call_cnt x"
proof -
  let ?p = "caller_pos pid (last_caller x)" and ?c = "caller x ! caller_pos pid (last_caller x)"
  have len: "?p < length (caller x)" using assms(1) caller_pos_less by (simp add: table_wf_def)
  note eq = count_short_eq [OF len, unfolded Let_def]
  have "unat (cnt ?c) \<le> 30001" using cnt_le_short_calls [OF len] assms(2) by simp
  then have suc: "unat (cnt ?c + 1) = unat (cnt ?c) + 1" by (simp add: unat_word_ariths)
  have "table_wf call_idx max_caller caller_key caller_used ((caller x)[call_idx (pid, last_caller x) :=
      ?c\<lparr>cpid := pid, rip := last_caller x, cnt := cnt ?c + 1\<rparr>])"
    by (rule call_tab.wf_claim [OF assms(1)]) (simp add: caller_key_def)
  moreover have "cnt ?c \<noteq> 0 \<Longrightarrow>
      table_wf call_idx max_caller caller_key caller_used ((caller x)[?p := ?c\<lparr>cnt := cnt ?c + 1\<rparr>])"
    by (rule call_tab.wf_update [OF assms(1)]) (simp_all add: caller_key_def caller_used_def)
  ultimately show "table_wf call_idx max_caller caller_key caller_used (caller (count_short pid x))"
    using assms(1) by (cases "cnt ?c = 0") (simp_all add: eq upd_caller_def call_idx_def)
  show "short_calls (count_short pid x) \<le> short_calls x + 1"
    using short_calls_upd [OF len, of "\<lambda>c. c\<lparr>cpid := pid, rip := last_caller x, cnt := cnt c + 1\<rparr>"]
      short_calls_upd [OF len, of "\<lambda>c. c\<lparr>cnt := cnt c + 1\<rparr>"] suc
    by (simp add: eq)
  show "interested (count_short pid x) = interested x" and "call_cnt (count_short pid x) = call_cnt x"
    by (simp_all add: eq upd_caller_def)
qed

lemma milestone_effect:
  assumes "milestone e k now s = Ret s'" and "exe_inv J s" and "k < length (info s)"
    and "length (caller (info s ! k)) = max_caller"
  shows "exe_inv J s'"
    and "info s' = (info s)[k := (info s ! k)\<lparr>caller := (if interested (info s ! k)
            then reset_at [0..<max_caller] (caller (info s ! k)) else caller (info s ! k)), call_cnt := 0,
            interested := now - milestone_ts (info s ! k) < scast milestone_duration_th,
            milestone_ts := now\<rparr>]"
    and "exes s' ! i \<noteq> exes s ! i \<Longrightarrow> interested (info s ! k) \<and>
        (\<exists>c \<in> set (caller (info s ! k)). cnt c > 900 \<and> exe_key (exes s' ! i) = caller_key c)"
proof -
  from assms(1) obtain s1 where
    a: "(if interested (info s ! k) then hot_scan [0..<max_caller] e k s else Ret s) = Ret s1"
    and s': "s' = upd_info k (\<lambda>x. x\<lparr>call_cnt := 0,
           interested := (now - milestone_ts x < scast milestone_duration_th), milestone_ts := now\<rparr>) s1"
    by (auto simp: milestone_def bind_res_eq_Ret)
  have "exe_inv J s1 \<and> info s1 = (info s)[k := (info s ! k)\<lparr>caller := (if interested (info s ! k)
            then reset_at [0..<max_caller] (caller (info s ! k)) else caller (info s ! k))\<rparr>]
      \<and> (\<forall>i. exes s1 ! i \<noteq> exes s ! i \<longrightarrow> interested (info s ! k) \<and>
        (\<exists>c \<in> set (caller (info s ! k)). cnt c > 900 \<and> exe_key (exes s1 ! i) = caller_key c))"
  proof (cases "interested (info s ! k)")
    case True
    with a have h: "hot_scan [0..<max_caller] e k s = Ret s1" by simp
    have "\<exists>c \<in> set (caller (info s ! k)). cnt c > 900 \<and> exe_key (exes s1 ! i) = caller_key c"
      if "exes s1 ! i \<noteq> exes s ! i" for i
      using hot_scan_effect [OF h assms(2,3)] assms(4) that by fastforce
    with hot_scan_effect [OF h assms(2,3)] assms(4) True show ?thesis by auto
  qed (use a assms in auto)
  note q = this
  show "exe_inv J s'" using q by (simp add: s')
  show "info s' = (info s)[k := (info s ! k)\<lparr>caller := (if interested (info s ! k)
            then reset_at [0..<max_caller] (caller (info s ! k)) else caller (info s ! k)), call_cnt := 0,
            interested := now - milestone_ts (info s ! k) < scast milestone_duration_th,
            milestone_ts := now\<rparr>]"
    using q assms(3) by (simp add: s')
  show "exes s' ! i \<noteq> exes s ! i \<Longrightarrow> interested (info s ! k) \<and>
        (\<exists>c \<in> set (caller (info s ! k)). cnt c > 900 \<and> exe_key (exes s' ! i) = caller_key c)"
    using q by (simp add: s')
qed

lemma cpu_ok_milestone:
  assumes "cpu_ok x"
  shows "cpu_ok (x\<lparr>caller := (if interested x then reset_at [0..<max_caller] (caller x) else caller x),
     call_cnt := 0, interested := b, milestone_ts := now\<rparr>)"
proof (cases "interested x")
  case True
  with reset_all [OF cpu_ok_callers [OF assms]] show ?thesis
    by (simp add: cpu_ok_def)
next
  case False
  with assms show ?thesis by (simp add: cpu_ok_def)
qed

lemma cpu_ok_tail:
  assumes "table_wf call_idx max_caller caller_key caller_used (caller x)"
    and "unat (call_cnt x) \<le> 30000" and "short_calls x \<le> unat (call_cnt x)" and "interested x"
  shows "cpu_ok ((if b then count_short pid x else x)\<lparr>last_ts := now, last_caller := a\<rparr>)"
  using count_short_ok [OF assms(1), of pid] assms
  by (simp add: cpu_ok_def)

lemma stat_inv_upd: "stat_inv s \<Longrightarrow> cpu_ok x \<Longrightarrow> list_all cpu_ok ((info s)[k := x])"
  by (auto simp: stat_inv_def list_all_iff dest!: set_update_subset_insert [THEN subsetD])

lemma stat_mid_effect:
  assumes "stat_mid e k now s = Ret s'" and "stat_inv s" and "exe_inv J s" and "k < length (info s)"
  shows "exe_inv J s'"
    and "\<exists>x. info s' = (info s)[k := x] \<and> cpu_ok x \<and> short_calls x \<le> unat (call_cnt x)"
    and "exes s' ! i \<noteq> exes s ! i \<Longrightarrow> interested (info s ! k) \<and> call_cnt (info s ! k) = 30000 \<and>
        (\<exists>c \<in> set (caller (info s ! k)). cnt c > 900 \<and> exe_key (exes s' ! i) = caller_key c)"
proof -
  let ?x = "info s ! k"
  let ?s1 = "upd_info k (\<lambda>x. x\<lparr>call_cnt := call_cnt x + 1\<rparr>) s"
  have ok: "cpu_ok ?x" using assms(2,4) by (simp add: stat_inv_def list_all_length)
  have suc: "unat (call_cnt ?x + 1) = unat (call_cnt ?x) + 1"
    using ok by (simp add: cpu_ok_def unat_word_ariths)
  have th: "(scast milestone_cnt :: u64) = 30000" by (simp add: milestone_cnt_def)
  have x1: "info ?s1 ! k = ?x\<lparr>call_cnt := call_cnt ?x + 1\<rparr>" using assms(4) by simp
  have "exe_inv J s' \<and> (\<exists>x. info s' = (info s)[k := x] \<and> cpu_ok x \<and> short_calls x \<le> unat (call_cnt x))
    \<and> (exes s' ! i \<noteq> exes s ! i \<longrightarrow> interested ?x \<and> call_cnt ?x = 30000 \<and>
        (\<exists>c \<in> set (caller ?x). cnt c > 900 \<and> exe_key (exes s' ! i) = caller_key c))"
  proof (cases "call_cnt ?x = 30000")
    case True
    then have m: "milestone e k now ?s1 = Ret s'"
      using assms(1,4) by (simp add: stat_mid_def Let_def th)
    have l: "length (caller (info ?s1 ! k)) = max_caller" using cpu_ok_callers [OF ok] x1 by simp
    note eff = milestone_effect [OF m, of J] 
    let ?y = "?x\<lparr>caller := (if interested ?x then reset_at [0..<max_caller] (caller ?x) else caller ?x),
       call_cnt := 0, interested := now - milestone_ts ?x < scast milestone_duration_th,
       milestone_ts := now\<rparr>"
    have "info s' = (info s)[k := ?y]"
      using eff(2) [OF _ _ l] assms(3,4) by simp
    moreover have "cpu_ok ?y" by (rule cpu_ok_milestone [OF ok])
    moreover have "short_calls ?y = 0"
      using ok reset_all(1) [OF cpu_ok_callers [OF ok]] by (simp add: cpu_ok_def)
    ultimately show ?thesis
      using eff(1) [OF _ _ l] eff(3) [OF _ _ l, of i] assms(3,4) True by auto
  next
    case False
    have n: "unat (call_cnt ?x) < 30000"
    proof -
      have "unat (call_cnt ?x) \<noteq> unat (30000 :: u64)" using False by (simp only: word_unat_eq_iff) simp
      with ok show ?thesis by (simp add: cpu_ok_def)
    qed
    then have "\<not> call_cnt ?x + 1 > 30000" by (simp add: word_less_nat_alt suc)
    then have "s' = ?s1" using assms(1,4) by (simp add: stat_mid_def Let_def th)
    with ok n suc assms(3,4) show ?thesis
      by (auto simp: cpu_ok_def intro!: exI [of _ "?x\<lparr>call_cnt := call_cnt ?x + 1\<rparr>"])
  qed
  then show "exe_inv J s'"
    and "\<exists>x. info s' = (info s)[k := x] \<and> cpu_ok x \<and> short_calls x \<le> unat (call_cnt x)"
    and "exes s' ! i \<noteq> exes s ! i \<Longrightarrow> interested (info s ! k) \<and> call_cnt (info s ! k) = 30000 \<and>
        (\<exists>c \<in> set (caller (info s ! k)). cnt c > 900 \<and> exe_key (exes s' ! i) = caller_key c)" by auto
qed

lemma stat_func_eq:
  "stat_func e k now pid a ts s = (if k \<ge> length (info s) then Oops else
     bind_res (stat_mid e k now s) (\<lambda>s2. Ret (if interested (info s2 ! k) then upd_info k (\<lambda>x.
                  (if ts - last_ts x < scast syscall_short_th then count_short pid x else x)
                    \<lparr>last_ts := now, last_caller := a\<rparr>) s2 else s2)))"
  by (simp add: stat_func_def stat_mid_def Let_def)

lemma stat_func_mid:
  assumes "stat_func e k now pid a ts s = Ret s'"
  obtains s2 where "k < length (info s)" and "stat_mid e k now s = Ret s2"
    and "s' = (if interested (info s2 ! k) then upd_info k (\<lambda>x.
                  (if ts - last_ts x < scast syscall_short_th then count_short pid x else x)
                    \<lparr>last_ts := now, last_caller := a\<rparr>) s2 else s2)"
proof -
  have k: "k < length (info s)" using assms by (cases "k < length (info s)") (simp_all add: stat_func_eq)
  obtain s2 where m: "stat_mid e k now s = Ret s2"
    using assms k by (cases "stat_mid e k now s") (simp_all add: stat_func_eq)
  show thesis
    by (rule that [OF k m]) (use assms k m in \<open>simp add: stat_func_eq\<close>)
qed

lemma stat_func_inv:
  assumes "stat_func e k now pid a ts s = Ret s'" and "stat_inv s" and "exe_inv J s"
  shows "stat_inv s' \<and> exe_inv J s'"
proof -
  obtain s2 where k: "k < length (info s)" and m: "stat_mid e k now s = Ret s2"
    and s': "s' = (if interested (info s2 ! k) then upd_info k (\<lambda>x.
                  (if ts - last_ts x < scast syscall_short_th then count_short pid x else x)
                    \<lparr>last_ts := now, last_caller := a\<rparr>) s2 else s2)"
    by (rule stat_func_mid [OF assms(1)])
  obtain x where x: "info s2 = (info s)[k := x]" "cpu_ok x" "short_calls x \<le> unat (call_cnt x)"
    using stat_mid_effect(2) [OF m assms(2,3) k] by auto
  have c: "interested x \<Longrightarrow> cpu_ok ((if b then count_short pid x else x)\<lparr>last_ts := now, last_caller := a\<rparr>)" for b
    using x by (intro cpu_ok_tail) (auto simp: cpu_ok_def)
  have "stat_inv s'"
    using x(1,2) k stat_inv_upd [OF assms(2)] c [of True] c [of False] by (simp add: s' stat_inv_def)
  then show ?thesis using stat_mid_effect(1) [OF m assms(2,3) k] by (simp add: s')
qed

lemma exe_add_mono:
  assumes "exe_inv J s" and "exe_add e pid a s = Ret s'"
  shows "exe_used (exes s ! i) \<Longrightarrow> exe_used (exes s' ! i)"
    and "unat (added s) \<le> unat (added s')"
    and "exe_used (exes s' ! get_exe pid a) \<or> unat (added s') = 63"
proof -
  have l: "length (exes s) = max_exe" and b: "unat (added s) \<le> 63"
    using assms(1) by (simp_all add: exe_inv_def table_wf_def)
  have sm: "sint (added s) = int (unat (added s))" using b by (intro sint_small) simp
  have "(exe_used (exes s ! i) \<longrightarrow> exe_used (exes s' ! i)) \<and> unat (added s) \<le> unat (added s')
      \<and> (exe_used (exes s' ! get_exe pid a) \<or> unat (added s') = 63)"
  proof (cases "status_code (exes s ! get_exe pid a) \<noteq> un_used \<or> sint (added s) > 62")
    case True
    moreover have "sint (added s) > 62 \<Longrightarrow> unat (added s) = 63" using sm b by linarith
    ultimately show ?thesis
      using exe_add_skip [OF True, of e] assms(2) by (auto simp: exe_used_def)
  next
    case False
    then have "unat (added s) \<le> 62" using sm by linarith
    with exe_add_claim [OF assms(2) l] False l get_exe_less [of pid a] show ?thesis
      by (auto simp: exe_used_def nth_list_update status_defs unat_word_ariths)
  qed
  then show "exe_used (exes s ! i) \<Longrightarrow> exe_used (exes s' ! i)"
    and "unat (added s) \<le> unat (added s')"
    and "exe_used (exes s' ! get_exe pid a) \<or> unat (added s') = 63" by auto
qed

lemma hot_scan_promotes:
  assumes "hot_scan ps e k s = Ret s'" and "exe_inv J s" and "k < length (info s)" and "distinct ps"
    and "\<forall>p \<in> set ps. p < length (caller (info s ! k))"
  shows "(\<forall>i. exe_used (exes s ! i) \<longrightarrow> exe_used (exes s' ! i)) \<and> unat (added s) \<le> unat (added s')
    \<and> (\<forall>p \<in> set ps. cnt (caller (info s ! k) ! p) > 900 \<longrightarrow>
        exe_used (exes s' ! exe_idx (caller_key (caller (info s ! k) ! p))) \<or> unat (added s') = 63)"
  using assms
proof (induction ps arbitrary: s)
  case Nil
  then show ?case by simp
next
  case (Cons p ps)
  let ?x = "info s ! k" and ?c = "caller (info s ! k) ! p"
  let ?u = "upd_caller p (\<lambda>c. c\<lparr>cnt := 0\<rparr>)"
  from Cons.prems(1) obtain s1 where
    a: "(if cnt ?c > scast hot_caller_th then exe_add e (cpid ?c) (rip ?c) s else Ret s) = Ret s1"
    and r: "hot_scan ps e k (upd_info k ?u s1) = Ret s'"
    by (auto simp: Let_def bind_res_eq_Ret)
  have th: "(scast hot_caller_th :: u64) = 900" by (simp add: hot_caller_th_def)
  have m: "exe_inv J s1 \<and> info s1 = info s \<and> (\<forall>i. exe_used (exes s ! i) \<longrightarrow> exe_used (exes s1 ! i))
      \<and> unat (added s) \<le> unat (added s1)
      \<and> (cnt ?c > 900 \<longrightarrow> exe_used (exes s1 ! exe_idx (caller_key ?c)) \<or> unat (added s1) = 63)"
  proof (cases "cnt ?c > 900")
    case True
    then have ad: "exe_add e (cpid ?c) (rip ?c) s = Ret s1" using a by (simp add: th)
    show ?thesis
      using exe_add_mono [OF Cons.prems(2) ad] exe_add_inv [OF Cons.prems(2) ad]
        info_of_more [OF exe_add_changes(1) [OF Cons.prems(2) ad]]
      by (simp add: exe_idx_def caller_key_def)
  next
    case False
    then show ?thesis using a Cons.prems(2) by (simp add: th)
  qed
  have len: "length (caller (?u ?x)) = length (caller ?x)" by (simp add: upd_caller_def)
  have IH: "(\<forall>i. exe_used (exes s1 ! i) \<longrightarrow> exe_used (exes s' ! i)) \<and> unat (added s1) \<le> unat (added s')
    \<and> (\<forall>q \<in> set ps. cnt (caller (?u ?x) ! q) > 900 \<longrightarrow>
        exe_used (exes s' ! exe_idx (caller_key (caller (?u ?x) ! q))) \<or> unat (added s') = 63)"
    using Cons.IH [OF r] m Cons.prems(3-5) len by simp
  have q: "caller (?u ?x) ! q = caller ?x ! q" if "q \<in> set ps" for q
  proof -
    have "p \<noteq> q" using that Cons.prems(4) by auto
    then show ?thesis by (simp add: upd_caller_def)
  qed
  have "unat (added s') \<le> 63"
    using hot_scan_effect [OF Cons.prems] by (simp add: exe_inv_def)
  then show ?case using IH m q by (auto intro: le_antisym order_trans)
qed

lemma stat_mid_promotes:
  assumes "stat_mid e k now s = Ret s'" and "stat_inv s" and "exe_inv J s" and "k < length (info s)"
    and "interested (info s ! k)" and "call_cnt (info s ! k) = 30000"
    and "c \<in> set (caller (info s ! k))" and "cnt c > 900"
  shows "exe_used (exes s' ! exe_idx (caller_key c)) \<or> unat (added s') = 63"
proof -
  let ?s1 = "upd_info k (\<lambda>x. x\<lparr>call_cnt := call_cnt x + 1\<rparr>) s"
  obtain s2 where h: "hot_scan [0..<max_caller] e k ?s1 = Ret s2"
    and e: "exes s' = exes s2" "added s' = added s2"
    using assms(1,4-6) by (auto simp: stat_mid_def milestone_def bind_res_eq_Ret milestone_cnt_def)
  have l: "length (caller (info s ! k)) = max_caller"
    using assms(2,4) by (auto simp: stat_inv_def list_all_length dest: cpu_ok_callers)
  obtain p where "p < max_caller" "caller (info s ! k) ! p = c"
    using assms(7) l by (auto simp: in_set_conv_nth)
  then show ?thesis
    using hot_scan_promotes [OF h, of J] assms(3,4,8) l e by auto
qed

lemma stat_st0_simps: "exes stat_st0 = exes exe_st0" "added stat_st0 = 0" "info stat_st0 = [hot_info0]"
  by (simp_all add: stat_st0_def exe_st.extend_def stat_st.fields_def exe_st0_def)

lemma stat_st0_inv: "stat_inv stat_st0" "exe_inv 1 stat_st0"
proof -
  have "table_wf call_idx max_caller caller_key caller_used
      ((caller info_zero)[call_idx (7, 0x400) := hot_caller0])"
    by (rule call_tab.wf_claim)
      (simp_all add: table_wf_iff info_zero_def caller_zero_def caller_used_def caller_key_def hot_caller0_def)
  moreover have "short_calls hot_info0 = 901"
    using short_calls_upd [of "caller_pos 7 0x400" info_zero "\<lambda>_. hot_caller0"] caller_pos_less [of 7 "0x400"]
    by (simp add: hot_info0_def upd_caller_def short_calls_def info_zero_def caller_zero_def hot_caller0_def
        sum_list_replicate)
  ultimately show "stat_inv stat_st0"
    by (simp add: stat_inv_def stat_st0_simps cpu_ok_def hot_info0_def call_idx_def)
  show "exe_inv 1 stat_st0"
    using exe_st0_inv by (simp add: exe_inv_def stat_st0_simps exe_st0_def)
qed

lemma hot_scan_no_nx:
  "\<not> test (supported_pte_mask (khdr e)) (PAGE_NX (khdr e)) \<Longrightarrow> \<exists>s'. hot_scan ps e k s = Ret s'"
proof (induction ps arbitrary: s)
  case (Cons p ps)
  let ?c = "caller (info s ! k) ! p"
  obtain z where "exe_add e (cpid ?c) (rip ?c) s = Ret z" using exe_add_no_nx [OF Cons.prems] by blast
  with Cons show ?case by (simp add: Let_def)
qed simp

lemma uenv0_no_nx: "\<not> test (supported_pte_mask (khdr uenv0)) (PAGE_NX (khdr uenv0))"
  by (simp add: uenv0_def)

lemma stat_func_no_nx:
  "\<not> test (supported_pte_mask (khdr e)) (PAGE_NX (khdr e)) \<Longrightarrow> k < length (info s) \<Longrightarrow>
     \<exists>s'. stat_func e k now pid a ts s = Ret s'"
  using hot_scan_no_nx [of e "[0..<max_caller]" k] by (auto simp: stat_func_def milestone_def Let_def bind_res_eq_Ret)

section \<open>Properties\<close>

text \<open>
  C12: Only hot callers are promoted, and all of them. A slot of the table of code blocks
  changes in \<open>stat_func\<close> only when the CPU is interested and reaches its milestone, and then it
  gets the pid and address of a caller counted more than 900 times; conversely, after such a
  milestone every caller counted more than 900 times has its slot taken, unless all 63 claims
  are used up.
\<close>

theorem stat_func_promotes:
  assumes "stat_func e k now pid a ts s = Ret s'" and "stat_inv s" and "exe_inv J s"
  shows "(\<forall>i. exes s' ! i \<noteq> exes s ! i \<longrightarrow> interested (info s ! k) \<and> call_cnt (info s ! k) = 30000 \<and>
      (\<exists>c \<in> set (caller (info s ! k)). cnt c > 900
         \<and> exe_pid (exes s' ! i) = cpid c \<and> RIP (exes s' ! i) = rip c))
    \<and> (interested (info s ! k) \<and> call_cnt (info s ! k) = 30000 \<longrightarrow>
      (\<forall>c \<in> set (caller (info s ! k)). cnt c > 900 \<longrightarrow>
         status_code (exes s' ! get_exe (cpid c) (rip c)) \<noteq> un_used \<or> unat (added s') = 63))"
proof -
  obtain s2 where k: "k < length (info s)" and m: "stat_mid e k now s = Ret s2"
    and e: "exes s' = exes s2" "added s' = added s2"
    by (rule stat_func_mid [OF assms(1)]) auto
  show ?thesis
    using stat_mid_effect(3) [OF m assms(2,3) k] stat_mid_promotes [OF m assms(2,3) k]
    by (auto simp: e exe_key_def caller_key_def exe_idx_def exe_used_def)
qed

theorem stat_func_promotes_witness:
  "\<exists>s'. stat_func uenv0 0 5 7 0x400 0 stat_st0 = Ret s'
     \<and> (status_code (exes s' ! get_exe 7 0x400) \<noteq> un_used \<or> unat (added s') = 63)"
proof -
  obtain s' where s': "stat_func uenv0 0 5 7 0x400 0 stat_st0 = Ret s'"
    using stat_func_no_nx [OF uenv0_no_nx, of 0 stat_st0 5 7 "0x400" 0] by (auto simp: stat_st0_simps)
  have "hot_caller0 \<in> set (caller (info stat_st0 ! 0))"
    using caller_pos_less [of 7 "0x400"]
    by (simp add: stat_st0_simps hot_info0_def info_zero_def set_update_memI)
  with stat_func_promotes [OF s' stat_st0_inv] s' show ?thesis
    by (auto simp: stat_st0_simps hot_info0_def hot_caller0_def)
qed

end
