(* ===== verification/Sysfs.thy ===== *)
theory Sysfs
  imports Stat
begin

text \<open>
  The sysfs file between the module and the daemon: \<open>zz_lkm/sys.c\<close>. Reading it
  (\<open>sysfs_show\<close>) gives the images of all used slots; writing a packet to it
  (\<open>sysfs_store\<close>) copies a piece of translated code into the block of a slot and sets its
  status. \<open>struct exe_info\<close> is 56 bytes, \<open>struct recv_pkt\<close> 24, both without padding.
\<close>

section \<open>Data\<close>

record recv_pkt =
  pkt_status :: cint
  pkt_pid :: cint
  pkt_RIP :: u64
  pkt_offset :: u64

record lkm_st = stat_st +
  stat_flag :: cint
  kobj_ref :: bool
  sys_paths :: "string list"
  zz_var :: bool

definition exe_bytes :: "exe_info \<Rightarrow> u8 list" where
  "exe_bytes x = enc 4 (status_code x) @ enc 4 (exe_pid x) @ enc 8 (RIP x) @ enc 8 (code_block x)
     @ enc 8 (jump_from x) @ enc 8 (tgt_addr x) @ enc 8 (success_cnt x) @ enc 8 (fail_cnt x)"

definition exe_of_bytes :: "u8 list \<Rightarrow> exe_info" where
  "exe_of_bytes bs = \<lparr>status_code = dec (take 4 bs), exe_pid = dec (take 4 (drop 4 bs)),
     RIP = dec (take 8 (drop 8 bs)), code_block = dec (take 8 (drop 16 bs)),
     jump_from = dec (take 8 (drop 24 bs)), tgt_addr = dec (take 8 (drop 32 bs)),
     success_cnt = dec (take 8 (drop 40 bs)), fail_cnt = dec (take 8 (drop 48 bs))\<rparr>"

text \<open>
  \<open>struct caller_info\<close> is 24 bytes, 4 of them padding after \<open>pid\<close>; \<open>struct per_cpu_info\<close> ends
  with 7 bytes of padding after its flag. A flag is true when its byte is not 0.
\<close>

definition caller_bytes :: "caller_info \<Rightarrow> u8 list" where
  "caller_bytes c = enc 8 (rip c) @ enc 4 (cpid c) @ replicate 4 0 @ enc 8 (cnt c)"

definition caller_of_bytes :: "u8 list \<Rightarrow> caller_info" where
  "caller_of_bytes bs = \<lparr>rip = dec (take 8 bs), cpid = dec (take 4 (drop 8 bs)), cnt = dec (take 8 (drop 16 bs))\<rparr>"

definition info_bytes :: "per_cpu_info \<Rightarrow> u8 list" where
  "info_bytes x = enc 8 (last_caller x) @ enc 8 (last_ts x) @ enc 8 (call_cnt x) @ enc 8 (milestone_ts x)
     @ concat (map caller_bytes (caller x)) @ [if interested x then 1 else 0] @ replicate 7 0"

definition info_of_bytes :: "u8 list \<Rightarrow> per_cpu_info" where
  "info_of_bytes bs = \<lparr>last_caller = dec (take 8 bs), last_ts = dec (take 8 (drop 8 bs)),
     call_cnt = dec (take 8 (drop 16 bs)), milestone_ts = dec (take 8 (drop 24 bs)),
     caller = map (\<lambda>i. caller_of_bytes (take 24 (drop (32 + 24 * i) bs))) [0..<max_caller],
     interested = (bs ! 416 \<noteq> 0)\<rparr>"

definition pkt_bytes :: "recv_pkt \<Rightarrow> u8 list" where
  "pkt_bytes p = enc 4 (pkt_status p) @ enc 4 (pkt_pid p) @ enc 8 (pkt_RIP p) @ enc 8 (pkt_offset p)"

definition pkt_of_bytes :: "u8 list \<Rightarrow> recv_pkt" where
  "pkt_of_bytes bs = \<lparr>pkt_status = dec (take 4 bs), pkt_pid = dec (take 4 (drop 4 bs)),
     pkt_RIP = dec (take 8 (drop 8 bs)), pkt_offset = dec (take 8 (drop 16 bs))\<rparr>"

definition sizeof_exe_info :: nat where "sizeof_exe_info = 56"
definition sizeof_recv_pkt :: nat where "sizeof_recv_pkt = 24"
definition sizeof_per_cpu_info :: nat where "sizeof_per_cpu_info = 424"

lemmas sizeof_defs = sizeof_exe_info_def sizeof_recv_pkt_def sizeof_per_cpu_info_def

text \<open>sysfs hands \<open>show\<close> a buffer of one page.\<close>

definition sysfs_buf :: nat where "sysfs_buf = 4096"

section \<open>Operations\<close>

text \<open>
  The copying loop: the bytes written to \<open>buf\<close> so far, or \<open>None\<close> when a \<open>memcpy\<close> would write
  past its end.
\<close>

fun show_slots :: "exe_info list \<Rightarrow> u8 list \<Rightarrow> u8 list option" where
  "show_slots [] buf = Some buf"
| "show_slots (x # xs) buf =
     (if status_code x \<noteq> un_used
      then (if length buf + sizeof_exe_info > sysfs_buf then None
            else show_slots xs (buf @ exe_bytes x))
      else show_slots xs buf)"

definition sysfs_show :: "'s lkm_st_scheme \<Rightarrow> (u8 list \<times> 's lkm_st_scheme) res" where
  "sysfs_show s =
     (case show_slots (exes s) [] of
        None \<Rightarrow> Oops
      | Some buf \<Rightarrow> Ret (buf, s\<lparr>stat_flag := stat_flag s + 1\<rparr>))"

text \<open>
  The store side of \<open>memcpy\<close> in kernel memory. A byte goes to \<open>kmem\<close>, or, at an address of one of
  the two tables, into the element of the table that has it: the rest of the image of the element
  stays and its fields are read anew. \<open>None\<close>: the address is not mapped.
\<close>

definition in_exes :: "'s lkm_st_scheme \<Rightarrow> u64 \<Rightarrow> bool" where
  "in_exes s x \<longleftrightarrow> unat (x - exes_at s) < sizeof_exe_info * length (exes s)"

definition in_info :: "'s lkm_st_scheme \<Rightarrow> u64 \<Rightarrow> bool" where
  "in_info s x \<longleftrightarrow> unat (x - info_at s) < sizeof_per_cpu_info * length (info s)"

definition poke :: "u64 \<Rightarrow> u8 \<Rightarrow> 's lkm_st_scheme \<Rightarrow> 's lkm_st_scheme option" where
  "poke x b s =
     (if kmem s x \<noteq> None then Some (s\<lparr>kmem := (kmem s)(x \<mapsto> b)\<rparr>)
      else if in_exes s x
      then let k = unat (x - exes_at s); j = k div sizeof_exe_info
        in Some (s\<lparr>exes := (exes s)[j := exe_of_bytes ((exe_bytes (exes s ! j))[k mod sizeof_exe_info := b])]\<rparr>)
      else if in_info s x
      then let k = unat (x - info_at s); j = k div sizeof_per_cpu_info
        in Some (s\<lparr>info := (info s)[j := info_of_bytes ((info_bytes (info s ! j))[k mod sizeof_per_cpu_info := b])]\<rparr>)
      else None)"

primrec kmemcpy :: "u64 \<Rightarrow> u8 list \<Rightarrow> 's lkm_st_scheme \<Rightarrow> 's lkm_st_scheme option" where
  "kmemcpy x [] s = Some s"
| "kmemcpy x (b # bs) s = (case poke x b s of None \<Rightarrow> None | Some s1 \<Rightarrow> kmemcpy (x + 1) bs s1)"

text \<open>
  \<open>len\<close> is an \<open>int\<close> and \<open>memcpy\<close> takes a \<open>size_t\<close>; \<open>head\<close> is read from the first 24 bytes. The
  target address is \<open>code_block + offset\<close>, with no check of \<open>offset\<close> or \<open>len\<close> against
  the size of the block: the copy may hit the table \<open>p\<close> points into.
\<close>

definition sysfs_store :: "u8 list \<Rightarrow> 's lkm_st_scheme \<Rightarrow> (nat \<times> 's lkm_st_scheme) res" where
  "sysfs_store buf s =
     (let count = length buf in
      if count < sizeof_recv_pkt then Oops else
      let head = pkt_of_bytes buf;
          len = (of_nat (count - sizeof_recv_pkt) :: cint);
          payload = drop sizeof_recv_pkt buf;
          n = unat (scast len :: u64);
          i = get_exe (pkt_pid head) (pkt_RIP head);
          p = exes s ! i
      in if RIP p = pkt_RIP head \<and> exe_pid p = pkt_pid head
         then if n > length payload then Oops
              else case kmemcpy (code_block p + pkt_offset head) (take n payload) s of
                     None \<Rightarrow> Oops
                   | Some s1 \<Rightarrow> Ret (count, upd_exe i (\<lambda>x. x\<lparr>status_code := pkt_status head\<rparr>) s1)
         else Ret (count, printk (ExeNotFound (pkt_pid head) (pkt_RIP head)) s))"

text \<open>
  \<open>filp_open\<close> looks for \<open>/sys/zz_sys\<close>; the object is created under \<open>kernel_kobj\<close>, that is as
  \<open>/sys/kernel/zz_sys\<close>. \<open>mk_obj\<close> and \<open>mk_file\<close> say whether the two creations succeed.
\<close>

definition sys_init :: "bool \<Rightarrow> bool \<Rightarrow> 's lkm_st_scheme \<Rightarrow> 's lkm_st_scheme" where
  "sys_init mk_obj mk_file s =
     (if ''/sys/zz_sys'' \<in> set (sys_paths s) then printk SysExists s
      else if \<not> mk_obj then printk NullKobject (s\<lparr>kobj_ref := False\<rparr>)
      else let s1 = s\<lparr>kobj_ref := True, sys_paths := sys_paths s @ [''/sys/kernel/zz_sys'']\<rparr>
        in if mk_file then s1\<lparr>sys_paths := sys_paths s1 @ [''/sys/kernel/zz_sys/etx_value'']\<rparr>
           else printk SysFileNotCreated s1)"

definition sys_exit :: "'s lkm_st_scheme \<Rightarrow> 's lkm_st_scheme" where
  "sys_exit s =
     (if kobj_ref s
      then s\<lparr>sys_paths := filter (\<lambda>p. take 18 p \<noteq> ''/sys/kernel/zz_sys'') (sys_paths s)\<rparr> else s)"

section \<open>Blocks and tables\<close>

text \<open>The size of a code block, \<open>num_pg\<close> pages.\<close>

definition block_size :: nat where "block_size = 655360"

text \<open>Two ranges of addresses have no byte in common.\<close>

definition apart :: "u64 \<Rightarrow> nat \<Rightarrow> u64 \<Rightarrow> nat \<Rightarrow> bool" where
  "apart a n b m \<longleftrightarrow> n \<le> unat (b - a) \<and> m \<le> unat (a - b)"

text \<open>A block at \<open>a\<close> lies outside both tables.\<close>

definition off_tables :: "'s lkm_st_scheme \<Rightarrow> u64 \<Rightarrow> bool" where
  "off_tables s a \<longleftrightarrow> apart a block_size (exes_at s) (sizeof_exe_info * length (exes s))
     \<and> apart a block_size (info_at s) (sizeof_per_cpu_info * length (info s))"

text \<open>
  The slot a packet is for. A packet stays in its block when it is for no slot, or for a slot in
  use and its bytes end within the 160 pages.
\<close>

definition pkt_slot :: "u8 list \<Rightarrow> 's lkm_st_scheme \<Rightarrow> nat option" where
  "pkt_slot buf s =
     (let head = pkt_of_bytes buf; i = get_exe (pkt_pid head) (pkt_RIP head)
      in if RIP (exes s ! i) = pkt_RIP head \<and> exe_pid (exes s ! i) = pkt_pid head then Some i else None)"

definition pkt_inside :: "u8 list \<Rightarrow> 's lkm_st_scheme \<Rightarrow> bool" where
  "pkt_inside buf s \<longleftrightarrow> (case pkt_slot buf s of None \<Rightarrow> True
     | Some i \<Rightarrow> exe_used (exes s ! i)
         \<and> unat (pkt_offset (pkt_of_bytes buf)) + (length buf - sizeof_recv_pkt) \<le> block_size)"

text \<open>Concrete values: the module with one block of 160 pages, and a packet for it.\<close>

definition lkm_st0 :: lkm_st where
  "lkm_st0 = (stat_st.extend (exe_st.extend exe_st1 (stat_st.fields [info_zero] 0x500000000 1))
     (lkm_st.fields 0 False [] False))\<lparr>kmem := (\<lambda>a. if a - 0x700000000 < 0xA0000 then Some 0 else None)\<rparr>"

definition pkt0 :: recv_pkt where
  "pkt0 = \<lparr>pkt_status = 0, pkt_pid = 7, pkt_RIP = 0x400, pkt_offset = 16\<rparr>"

section \<open>Lemmas\<close>

lemma length_exe_bytes [simp]: "length (exe_bytes x) = 56"
  by (simp add: exe_bytes_def)

lemma length_pkt_bytes [simp]: "length (pkt_bytes p) = 24"
  by (simp add: pkt_bytes_def)

lemma exe_of_bytes_append [enc_simps]: "exe_of_bytes (exe_bytes x @ r) = x"
  by (simp add: exe_of_bytes_def exe_bytes_def)

lemma pkt_of_bytes_append [enc_simps]: "pkt_of_bytes (pkt_bytes p @ r) = p"
  by (simp add: pkt_of_bytes_def pkt_bytes_def)

lemma length_images: "length (concat (map exe_bytes xs)) = 56 * length xs"
  by (induction xs) auto

lemma show_slots_eq:
  "show_slots xs buf = (if length buf + 56 * length (filter exe_used xs) \<le> 4096 \<or> filter exe_used xs = []
     then Some (buf @ concat (map exe_bytes (filter exe_used xs))) else None)"
  by (induction xs buf rule: show_slots.induct)
    (auto simp: exe_used_def [symmetric] sizeof_exe_info_def sysfs_buf_def)

lemma used_bound:
  assumes "exe_inv J s"
  shows "length (filter exe_used (exes s)) \<le> 63 + J"
  using exe_tab.used_le_placed [of "exes s"] assms by (simp add: exe_inv_def)

lemma apart_sym: "apart a n b m \<longleftrightarrow> apart b m a n"
  by (auto simp: apart_def)

lemma apart_outside:
  assumes "apart a n b m" and "i < n"
  shows "\<not> unat (a + of_nat i - b) < m"
proof -
  let ?d = "a - b"
  have n: "n \<le> unat (- ?d)" "m \<le> unat ?d" using assms(1) by (simp_all add: apart_def)
  with assms(2) have "?d \<noteq> 0" by auto
  then have "unat (0 - ?d) = 2 ^ 64 - unat ?d"
    using unsigned_less [of ?d] by (subst unat_sub_if') (simp_all add: unat_eq_0)
  then have "unat (- ?d) = 2 ^ 64 - unat ?d" by simp
  with n assms(2) have "unat (?d + of_nat i) = unat ?d + i" by (simp add: unat_word_ariths unat_of_nat_small)
  then show ?thesis using n(2) by (simp add: algebra_simps)
qed

text \<open>The copy on memory that belongs to no table, and the copy of an image into a slot.\<close>

lemma kmemcpy_kmem: "mem_write (kmem s) x bs = Some m \<Longrightarrow> kmemcpy x bs s = Some (s\<lparr>kmem := m\<rparr>)"
  by (induction bs arbitrary: x s) (auto simp: poke_def split: option.splits)

lemma poke_off_tables:
  "\<not> in_exes s x \<Longrightarrow> \<not> in_info s x \<Longrightarrow> poke x b s = (if kmem s x = None then None else Some (s\<lparr>kmem := (kmem s)(x \<mapsto> b)\<rparr>))"
  by (simp add: poke_def)

lemma in_tables_kmem [simp]:
  "in_exes (s\<lparr>kmem := m\<rparr>) = in_exes s" "in_info (s\<lparr>kmem := m\<rparr>) = in_info s"
  by (simp_all add: in_exes_def in_info_def fun_eq_iff)

lemma kmemcpy_off_tables:
  assumes "kmemcpy x bs s = Some t" and "\<forall>j<length bs. \<not> in_exes s (x + of_nat j) \<and> \<not> in_info s (x + of_nat j)"
  shows "\<exists>m. t = s\<lparr>kmem := m\<rparr>"
  using assms
proof (induction bs arbitrary: x s)
  case Nil
  then show ?case by (intro exI [of _ "kmem s"]) simp
next
  case (Cons b bs)
  let ?s = "s\<lparr>kmem := (kmem s)(x \<mapsto> b)\<rparr>"
  have "\<not> in_exes s x" "\<not> in_info s x" using Cons.prems(2) [rule_format, of 0] by simp_all
  with Cons.prems(1) have c: "kmemcpy (x + 1) bs ?s = Some t"
    by (simp add: poke_off_tables split: if_splits)
  have "\<not> in_exes s (x + 1 + of_nat j) \<and> \<not> in_info s (x + 1 + of_nat j)" if "j < length bs" for j
    using Cons.prems(2) [rule_format, of "Suc j"] that by (simp add: algebra_simps)
  then obtain m where "t = ?s\<lparr>kmem := m\<rparr>" using Cons.IH [OF c] by auto
  then show ?case by (intro exI [of _ m]) simp
qed

lemma block_off_tables:
  assumes "off_tables s a" and "unat off + n \<le> block_size" and "j < n"
  shows "\<not> in_exes s (a + off + of_nat j) \<and> \<not> in_info s (a + off + of_nat j)"
proof -
  have e: "a + off + of_nat j = a + of_nat (unat off + j)" by simp
  show ?thesis unfolding e
    using assms apart_outside [of a block_size _ _ "unat off + j"]
    unfolding off_tables_def in_exes_def in_info_def by simp
qed

lemma scast_length: "n < 2 ^ 31 \<Longrightarrow> unat (scast (of_nat n :: cint) :: u64) = n"
proof -
  assume n: "n < 2 ^ 31"
  then have "sint (of_nat n :: cint) = int n" by (subst sint_small) (simp_all add: unat_of_nat_small)
  then have "(scast (of_nat n :: cint) :: u64) = of_nat n" by (metis of_int_of_nat_eq of_int_sint)
  with n show ?thesis by (simp add: unat_of_nat_small)
qed

lemma store_matched:
  assumes "RIP (exes s ! get_exe (pkt_pid p) (pkt_RIP p)) = pkt_RIP p"
    and "exe_pid (exes s ! get_exe (pkt_pid p) (pkt_RIP p)) = pkt_pid p" and "length bs < 2 ^ 31"
  shows "sysfs_store (pkt_bytes p @ bs) s =
    (case kmemcpy (code_block (exes s ! get_exe (pkt_pid p) (pkt_RIP p)) + pkt_offset p) bs s of
       None \<Rightarrow> Oops
     | Some t \<Rightarrow> Ret (24 + length bs, upd_exe (get_exe (pkt_pid p) (pkt_RIP p))
         (\<lambda>x. x\<lparr>status_code := pkt_status p\<rparr>) t))"
  using assms scast_length [OF assms(3)]
  by (simp add: sysfs_store_def sizeof_recv_pkt_def enc_simps Let_def split: option.splits)

lemma store_cases:
  assumes "sysfs_store buf s = Ret (n, s')" and "h = pkt_of_bytes buf"
  shows "pkt_slot buf s = None \<and> s' = printk (ExeNotFound (pkt_pid h) (pkt_RIP h)) s
    \<or> (\<exists>i k s1. k \<le> length buf - sizeof_recv_pkt \<and> pkt_slot buf s = Some i
        \<and> kmemcpy (code_block (exes s ! i) + pkt_offset h) (take k (drop sizeof_recv_pkt buf)) s = Some s1
        \<and> s' = upd_exe i (\<lambda>x. x\<lparr>status_code := pkt_status h\<rparr>) s1)"
proof (cases "pkt_slot buf s")
  case None
  with assms show ?thesis by (auto simp: sysfs_store_def pkt_slot_def Let_def split: if_splits option.splits)
next
  case (Some i)
  let ?k = "unat (scast (of_nat (length buf - sizeof_recv_pkt) :: cint) :: u64)"
  have i: "i = get_exe (pkt_pid h) (pkt_RIP h)" "RIP (exes s ! i) = pkt_RIP h \<and> exe_pid (exes s ! i) = pkt_pid h"
    using Some assms(2) by (auto simp: pkt_slot_def Let_def split: if_splits)
  have "?k \<le> length buf - sizeof_recv_pkt \<and> (\<exists>s1.
      kmemcpy (code_block (exes s ! i) + pkt_offset h) (take ?k (drop sizeof_recv_pkt buf)) s = Some s1
      \<and> s' = upd_exe i (\<lambda>x. x\<lparr>status_code := pkt_status h\<rparr>) s1)"
    using assms(1) i(2) unfolding sysfs_store_def Let_def assms(2) [symmetric] i(1) [symmetric]
    by (auto split: if_splits option.splits)
  with Some show ?thesis by blast
qed

lemma store_inside:
  assumes "sysfs_store buf s = Ret (n, s')" and "pkt_inside buf s"
    and "\<And>i. pkt_slot buf s = Some i \<Longrightarrow> off_tables s (code_block (exes s ! i))"
  shows "pkt_slot buf s = None \<and> s' = printk (ExeNotFound (pkt_pid (pkt_of_bytes buf)) (pkt_RIP (pkt_of_bytes buf))) s
    \<or> (\<exists>i m. pkt_slot buf s = Some i
        \<and> s' = upd_exe i (\<lambda>x. x\<lparr>status_code := pkt_status (pkt_of_bytes buf)\<rparr>) (s\<lparr>kmem := m\<rparr>))"
proof (cases "pkt_slot buf s")
  case None
  with store_cases [OF assms(1) refl] show ?thesis by simp
next
  case (Some i)
  let ?h = "pkt_of_bytes buf"
  obtain k s1 where k: "k \<le> length buf - sizeof_recv_pkt"
    and c: "kmemcpy (code_block (exes s ! i) + pkt_offset ?h) (take k (drop sizeof_recv_pkt buf)) s = Some s1"
    and s': "s' = upd_exe i (\<lambda>x. x\<lparr>status_code := pkt_status ?h\<rparr>) s1"
    using store_cases [OF assms(1) refl] Some by auto
  have "unat (pkt_offset ?h) + k \<le> block_size" using assms(2) k Some by (simp add: pkt_inside_def)
  then have "\<exists>m. s1 = s\<lparr>kmem := m\<rparr>"
    by (intro kmemcpy_off_tables [OF c] allI impI block_off_tables [OF assms(3) [OF Some]]) auto
  with Some s' show ?thesis by blast
qed

lemma sysfs_store_inv:
  assumes "exe_inv J s" and "sysfs_store buf s = Ret (n, s')" and "pkt_inside buf s"
    and "\<And>i. pkt_slot buf s = Some i \<Longrightarrow> off_tables s (code_block (exes s ! i))"
  shows "exe_inv J s'" and "info s' = info s"
proof -
  have "exe_inv J (upd_exe i (\<lambda>x. x\<lparr>status_code := c\<rparr>) (s\<lparr>kmem := m\<rparr>))" if "pkt_slot buf s = Some i" for i m c
    using assms(1,3) that by (intro exe_inv_upd) (simp_all add: exe_key_def exe_inv_def pkt_inside_def)
  with store_inside [OF assms(2-4)] assms(1) show "exe_inv J s'" by auto
  from store_inside [OF assms(2-4)] show "info s' = info s" by (auto simp: upd_exe_def printk_def)
qed

lemma lkm_st0_simps: "exes lkm_st0 = exes exe_st1" "added lkm_st0 = 1" "info lkm_st0 = [info_zero]"
  "exes_at lkm_st0 = 0x600000000" "info_at lkm_st0 = 0x500000000"
  "kmem lkm_st0 = (\<lambda>a. if a - 0x700000000 < 0xA0000 then Some 0 else None)" "stat_flag lkm_st0 = 0"
  by (simp_all add: lkm_st0_def stat_st.extend_def exe_st.extend_def stat_st.fields_def
      lkm_st.fields_def exe_st1_def exe_st0_def)

lemma lkm_st0_inv: "exe_inv 1 lkm_st0" "stat_inv lkm_st0"
proof -
  show "exe_inv 1 lkm_st0"
    using exe_st1_inv by (simp add: exe_inv_def lkm_st0_simps exe_st1_def)
  show "stat_inv lkm_st0"
    by (simp add: stat_inv_def lkm_st0_simps cpu_ok_def info_zero_def caller_zero_def table_wf_iff
        caller_used_def short_calls_def sum_list_replicate)
qed

lemma store_writes:
  assumes "i = get_exe (pkt_pid p) (pkt_RIP p)" and "a = code_block (exes s ! i) + pkt_offset p"
    and "exe_pid (exes s ! i) = pkt_pid p" and "RIP (exes s ! i) = pkt_RIP p"
    and "length bs < 2 ^ 31" and "mapped (kmem s) a (length bs)"
  obtains m where "mem_write (kmem s) a bs = Some m"
    and "sysfs_store (pkt_bytes p @ bs) s = Ret (24 + length bs,
        upd_exe i (\<lambda>x. x\<lparr>status_code := pkt_status p\<rparr>) (s\<lparr>kmem := m\<rparr>))"
proof -
  obtain m where m: "mem_write (kmem s) a bs = Some m"
    using assms(6) mem_write_Some_iff [of "kmem s" a bs] by blast
  show thesis
    by (rule that [OF m]) (use store_matched [of s p bs] assms kmemcpy_kmem [OF m] in simp)
qed

lemma lkm_st0_block: "mapped (kmem lkm_st0) (code_block exe_run0) block_size"
proof -
  have "(of_nat i :: u64) < 0xA0000" if "i < 655360" for i
    using that by (simp add: word_less_nat_alt unat_of_nat_small)
  then show ?thesis by (simp add: exe_run0_def mapped_iff block_size_def lkm_st0_simps)
qed

text \<open>Images of slots and of statistics.\<close>

lemma take_bit_dec: "take_bit (8 * length bs) (dec bs :: 'a::len word) = dec bs"
proof (induction bs)
  case (Cons b bs)
  have "take_bit (8 + 8 * length bs) (push_bit 8 (dec bs) :: 'a word) = push_bit 8 (dec bs)"
    using Cons by (simp add: take_bit_push_bit)
  moreover have "take_bit (8 + 8 * length bs) (ucast b :: 'a word) = ucast b"
    by (rule bit_word_eqI) (auto simp: bit_simps dest: bit_imp_le_length)
  ultimately show ?case by (simp add: dec_def)
qed (simp add: dec_def)

lemma enc_dec: "8 * length bs \<le> LENGTH('a) \<Longrightarrow> enc (length bs) (dec bs :: 'a::len word) = bs"
proof (induction bs)
  case (Cons b bs)
  let ?w = "dec bs :: 'a word"
  have e: "dec (b # bs) = (ucast b OR push_bit 8 ?w :: 'a word)" by (simp add: dec_def)
  have "ucast (ucast b OR push_bit 8 ?w :: 'a word) = b"
    using Cons.prems by (intro bit_word_eqI) (auto simp: bit_simps)
  moreover have "drop_bit 8 (ucast b OR push_bit 8 ?w) = ?w"
  proof (rule bit_word_eqI)
    fix n assume "n < LENGTH('a)"
    have "bit ?w n \<Longrightarrow> n < 8 * length bs" using take_bit_dec [of bs] by (metis bit_take_bit_iff)
    with Cons.prems show "bit (drop_bit 8 (ucast b OR push_bit 8 ?w)) n = bit ?w n"
      by (auto simp: bit_simps dest: bit_imp_le_length)
  qed
  ultimately show ?case using Cons by (simp add: e enc_Suc)
qed (simp add: enc_def)

lemma enc_dec4: "length bs = 4 \<Longrightarrow> enc 4 (dec bs :: u32) = bs"
  using enc_dec [of bs, where 'a = 32] by simp

lemma enc_dec8: "length bs = 8 \<Longrightarrow> enc 8 (dec bs :: u64) = bs"
  using enc_dec [of bs, where 'a = 64] by simp

lemma take_drop_append: "take n (drop k xs) @ drop (k + n) xs = drop k xs"
  by (metis add.commute append_take_drop_id drop_drop)

lemma exe_bytes_of_bytes: "length bs = 56 \<Longrightarrow> exe_bytes (exe_of_bytes bs) = bs"
  using append_take_drop_id [of 4 bs] take_drop_append [of 4 4 bs] take_drop_append [of 8 8 bs]
    take_drop_append [of 8 16 bs] take_drop_append [of 8 24 bs] take_drop_append [of 8 32 bs]
    take_drop_append [of 8 40 bs]
  by (simp add: exe_bytes_def exe_of_bytes_def enc_dec4 enc_dec8)

lemma caller_of_bytes_append: "caller_of_bytes (caller_bytes c @ r) = c"
  by (simp add: caller_of_bytes_def caller_bytes_def)

lemma callers_of_bytes:
  "i < length ys \<Longrightarrow> \<exists>r. drop (24 * i) (concat (map caller_bytes ys) @ t) = caller_bytes (ys ! i) @ r"
proof (induction ys arbitrary: i)
  case (Cons c ys)
  show ?case
  proof (cases i)
    case (Suc j)
    with Cons show ?thesis by (simp add: caller_bytes_def)
  qed auto
qed simp

lemma info_of_bytes_bytes: "length (caller x) = max_caller \<Longrightarrow> info_of_bytes (info_bytes x) = x"
proof -
  assume l: "length (caller x) = max_caller"
  let ?t = "[if interested x then 1 else 0] @ replicate 7 (0 :: u8)"
  have c: "caller_of_bytes (take 24 (drop (32 + 24 * i) (info_bytes x))) = caller x ! i" if "i < max_caller" for i
  proof -
    have i: "i < length (caller x)" using l that by simp
    from callers_of_bytes [OF i, of ?t] obtain r
      where r: "drop (24 * i) (concat (map caller_bytes (caller x)) @ ?t) = caller_bytes (caller x ! i) @ r" ..
    have "drop (32 + 24 * i) (info_bytes x) = drop (24 * i) (concat (map caller_bytes (caller x)) @ ?t)"
      by (simp add: info_bytes_def)
    moreover have "take 24 (caller_bytes (caller x ! i) @ r) = caller_bytes (caller x ! i)" by (simp add: caller_bytes_def)
    ultimately show ?thesis using caller_of_bytes_append [of "caller x ! i" "[]"] r by simp
  qed
  have "length (concat (map caller_bytes ys)) = 24 * length ys" for ys
    by (induction ys) (simp_all add: caller_bytes_def)
  then have "info_bytes x ! 416 = (if interested x then 1 else 0)"
    using l by (simp add: info_bytes_def nth_append max_caller_def)
  moreover have "map (\<lambda>i. caller_of_bytes (take 24 (drop (32 + 24 * i) (info_bytes x)))) [0..<max_caller] = caller x"
    using c l by (intro nth_equalityI) auto
  ultimately show ?thesis
    by (simp add: info_of_bytes_def) (simp add: info_bytes_def)
qed

lemma kmemcpy_slot:
  assumes "length (exes s) = max_exe" and "j < max_exe" and "k + length bs \<le> 56"
    and "\<forall>k<56 * max_exe. kmem s (exes_at s + of_nat k) = None"
  shows "kmemcpy (exes_at s + of_nat (56 * j + k)) bs s = Some (s\<lparr>exes := (exes s)[j :=
    exe_of_bytes (take k (exe_bytes (exes s ! j)) @ bs @ drop (k + length bs) (exe_bytes (exes s ! j)))]\<rparr>)"
  using assms
proof (induction bs arbitrary: k s)
  case Nil
  then show ?case using exe_of_bytes_append [of "exes s ! j" "[]"] by simp
next
  case (Cons b bs)
  let ?B = "exe_bytes (exes s ! j)"
  let ?x = "exes_at s + of_nat (56 * j + k)"
  let ?s = "s\<lparr>exes := (exes s)[j := exe_of_bytes (?B[k := b])]\<rparr>"
  have lt: "56 * j + k < 56 * max_exe" using Cons.prems(2,3) by simp
  have u: "unat (?x - exes_at s) = 56 * j + k"
    unfolding add_diff_cancel_left' by (rule unat_of_nat_small) (use lt in \<open>simp add: max_exe_def\<close>)
  have dm: "(56 * j + k) div 56 = j" "(56 * j + k) mod 56 = k" using Cons.prems(3) by simp_all
  have "kmem s ?x = None" using Cons.prems(4) lt by blast
  then have pk: "poke ?x b s = Some ?s"
    unfolding poke_def in_exes_def sizeof_exe_info_def Let_def u dm using Cons.prems(1) lt by simp
  have nx: "?x + 1 = exes_at ?s + of_nat (56 * j + Suc k)" by (simp add: algebra_simps)
  have "kmemcpy (exes_at ?s + of_nat (56 * j + Suc k)) bs ?s = Some (?s\<lparr>exes := (exes ?s)[j :=
      exe_of_bytes (take (Suc k) (exe_bytes (exes ?s ! j)) @ bs @ drop (Suc k + length bs) (exe_bytes (exes ?s ! j)))]\<rparr>)"
    by (rule Cons.IH) (use Cons.prems in simp_all)
  moreover have "exe_bytes (exes ?s ! j) = ?B[k := b]" using Cons.prems(1,2) by (simp add: exe_bytes_of_bytes)
  moreover have "take (Suc k) (?B[k := b]) @ bs @ drop (Suc k + length bs) (?B[k := b])
      = take k ?B @ (b # bs) @ drop (k + length (b # bs)) ?B"
    using Cons.prems(3) by (simp add: take_Suc_conv_app_nth)
  ultimately have "kmemcpy (?x + 1) bs ?s = Some (s\<lparr>exes := (exes s)[j :=
      exe_of_bytes (take k ?B @ (b # bs) @ drop (k + length (b # bs)) ?B)]\<rparr>)" unfolding nx by simp
  then show ?case unfolding kmemcpy.simps pk option.case .
qed

section \<open>Properties\<close>

text \<open>
  C14: Reading the sysfs file never overflows its page: as long as the invariant of the table
  holds with at most 10 slots keyed by chance, \<open>sysfs_show\<close> returns the images of exactly the
  slots in use, in order and at most 4088 bytes, and changes nothing but \<open>stat_flag\<close>.
\<close>

theorem sysfs_show_fits:
  assumes "exe_inv J s" and "J \<le> 10"
  shows "\<exists>buf. sysfs_show s = Ret (buf, s\<lparr>stat_flag := stat_flag s + 1\<rparr>)
    \<and> buf = concat (map exe_bytes (filter exe_used (exes s))) \<and> length buf \<le> 4088"
  using used_bound [OF assms(1)] assms(2) 
  by (simp add: sysfs_show_def show_slots_eq length_images)

theorem sysfs_show_fits_witness:
  "exe_inv 1 lkm_st0 \<and> (\<exists>buf. sysfs_show lkm_st0 = Ret (buf, lkm_st0\<lparr>stat_flag := 1\<rparr>) \<and> length buf \<le> 4088)"
  using sysfs_show_fits [OF lkm_st0_inv(1)] lkm_st0_inv(1) by (simp add: lkm_st0_simps)

text \<open>
  C15: Writing a packet for a claimed slot whose block of 160 pages is mapped, the payload ending
  within the block: the write succeeds, the payload is in the block at the packet's offset, no other byte of
  kernel memory changes, the slot gets the status of the packet, and nothing else of the state
  changes, neither another slot nor the statistics.
\<close>

theorem sysfs_store_writes:
  assumes "i = get_exe (pkt_pid p) (pkt_RIP p)" and "exe_pid (exes s ! i) = pkt_pid p" and "RIP (exes s ! i) = pkt_RIP p"
    and "mapped (kmem s) (code_block (exes s ! i)) block_size"
    and "unat (pkt_offset p) + length bs \<le> block_size"
  shows "\<exists>m. sysfs_store (pkt_bytes p @ bs) s = Ret (24 + length bs,
        s\<lparr>kmem := m, exes := (exes s)[i := (exes s ! i)\<lparr>status_code := pkt_status p\<rparr>]\<rparr>)
    \<and> mem_read m (code_block (exes s ! i) + pkt_offset p) (length bs) = Some bs
    \<and> (\<forall>x. (\<forall>j<length bs. x \<noteq> code_block (exes s ! i) + pkt_offset p + of_nat j) \<longrightarrow> m x = kmem s x)"
proof -
  have l: "length bs < 2 ^ 31" using assms(5) by (simp add: block_size_def)
  have "mapped (kmem s) (code_block (exes s ! i) + pkt_offset p) (length bs)"
    using mapped_mono [OF assms(4), of "unat (pkt_offset p)" "length bs"] assms(5) by simp
  from store_writes [OF assms(1) refl assms(2,3) l this] obtain m
    where "mem_write (kmem s) (code_block (exes s ! i) + pkt_offset p) bs = Some m"
      and "sysfs_store (pkt_bytes p @ bs) s = Ret (24 + length bs,
        upd_exe i (\<lambda>x. x\<lparr>status_code := pkt_status p\<rparr>) (s\<lparr>kmem := m\<rparr>))" by blast
  then show ?thesis
    using l mem_write_read [of "kmem s" _ bs m] mem_write_frame [of "kmem s" _ bs m]
    by (intro exI [of _ m]) (simp add: upd_exe_def)
qed

theorem sysfs_store_writes_witness:
  "\<exists>s'. sysfs_store (pkt_bytes pkt0 @ [0xC3]) lkm_st0 = Ret (25, s')
     \<and> mem_read (kmem s') 0x700000010 1 = Some [0xC3]"
proof -
  have i: "exes lkm_st0 ! get_exe (pkt_pid pkt0) (pkt_RIP pkt0) = exe_run0"
    by (simp add: pkt0_def lkm_st0_simps nth_exe_st1)
  have c: "code_block exe_run0 + pkt_offset pkt0 = 0x700000010" by (simp add: pkt0_def exe_run0_def)
  have h: "exe_pid exe_run0 = pkt_pid pkt0" "RIP exe_run0 = pkt_RIP pkt0"
    "unat (pkt_offset pkt0) + length [0xC3 :: u8] \<le> block_size"
    by (simp_all add: pkt0_def exe_run0_def block_size_def)
  obtain m where "sysfs_store (pkt_bytes pkt0 @ [0xC3]) lkm_st0 = Ret (24 + length [0xC3 :: u8], lkm_st0\<lparr>kmem := m,
      exes := (exes lkm_st0)[get_exe (pkt_pid pkt0) (pkt_RIP pkt0) := exe_run0\<lparr>status_code := pkt_status pkt0\<rparr>]\<rparr>)"
    and "mem_read m 0x700000010 (length [0xC3 :: u8]) = Some [0xC3]"
    using sysfs_store_writes [OF refl, of lkm_st0 pkt0 "[0xC3]", unfolded i c, OF h(1,2) lkm_st0_block h(3)] by blast
  then show ?thesis by (simp del: mem_read.simps)
qed

text \<open>
  \<open>sysfs_store\<close> does not check \<open>offset\<close> against the block: with one claimed slot there is, for
  any bytes and any mapped kernel address, a packet that writes these bytes to that address.
\<close>

lemma sysfs_store_anywhere:
  assumes "exe_pid (exes s ! get_exe pid a) = pid" and "RIP (exes s ! get_exe pid a) = a"
    and "length bs < 2 ^ 31" and "mapped (kmem s) target (length bs)"
  shows "\<exists>p s'. sysfs_store (pkt_bytes p @ bs) s = Ret (24 + length bs, s')
    \<and> mem_read (kmem s') target (length bs) = Some bs"
proof -
  let ?p = "\<lparr>pkt_status = 0, pkt_pid = pid, pkt_RIP = a,
     pkt_offset = target - code_block (exes s ! get_exe pid a)\<rparr>"
  obtain m where "mem_write (kmem s) target bs = Some m" "sysfs_store (pkt_bytes ?p @ bs) s =
      Ret (24 + length bs, upd_exe (get_exe pid a) (\<lambda>x. x\<lparr>status_code := 0\<rparr>) (s\<lparr>kmem := m\<rparr>))"
    using store_writes [of _ ?p target s bs] assms by auto
  with assms(3) mem_write_read [of "kmem s" target bs m] show ?thesis
    by (intro exI [of _ ?p]) (simp add: upd_exe_def)
qed

lemma sysfs_store_anywhere_example:
  "kmem (lkm_st0\<lparr>kmem := [0x1234 \<mapsto> 0]\<rparr>) 0x700000000 = None
   \<and> (\<exists>p s'. sysfs_store (pkt_bytes p @ [0xCC]) (lkm_st0\<lparr>kmem := [0x1234 \<mapsto> 0]\<rparr>) = Ret (25, s')
     \<and> mem_read (kmem s') 0x1234 1 = Some [0xCC])"
  using sysfs_store_anywhere [of "lkm_st0\<lparr>kmem := [0x1234 \<mapsto> 0]\<rparr>" 7 "0x400" "[0xCC]" "0x1234"]
  by (simp add: lkm_st0_simps nth_exe_st1 exe_run0_def mapped_Suc)

text \<open>
  C0: What the missing check amounts to: whoever may write to the file can put any contents into any other slot of
  the table. For a claimed slot and another slot there is a packet whose offset reaches the table: the
  write reports success, that slot is the given one afterwards, and besides only the status of the claimed slot is set.
\<close>

theorem store_rewrites_slot:
  assumes "i = get_exe pid a" and "exe_pid (exes s ! i) = pid" and "RIP (exes s ! i) = a"
    and "length (exes s) = max_exe" and "j < max_exe" and "j \<noteq> i"
    and "\<forall>k<56 * max_exe. kmem s (exes_at s + of_nat k) = None"
  shows "\<exists>p. sysfs_store (pkt_bytes p @ exe_bytes x) s = Ret (80,
      s\<lparr>exes := (exes s)[j := x, i := (exes s ! i)\<lparr>status_code := st\<rparr>]\<rparr>)"
proof -
  let ?p = "\<lparr>pkt_status = st, pkt_pid = pid, pkt_RIP = a, pkt_offset = exes_at s + of_nat (56 * j) - code_block (exes s ! i)\<rparr>"
  have "kmemcpy (exes_at s + of_nat (56 * j)) (exe_bytes x) s = Some (s\<lparr>exes := (exes s)[j := x]\<rparr>)"
    using kmemcpy_slot [OF assms(4,5), of 0 "exe_bytes x"] assms(7) exe_of_bytes_append [of x "[]"] by simp
  with store_matched [of s ?p "exe_bytes x"] assms show ?thesis
    by (intro exI [of _ ?p]) (simp add: upd_exe_def)
qed

theorem store_rewrites_slot_witness:
  "\<exists>p s'. sysfs_store (pkt_bytes p @ exe_bytes exe_run0) lkm_st0 = Ret (80, s') \<and> exes s' ! get_exe 7 0x401 = exe_run0"
proof -
  have n: "get_exe 7 0x401 \<noteq> get_exe 7 0x400" by code_simp
  have k: "\<forall>k<56 * max_exe. kmem lkm_st0 (exes_at lkm_st0 + of_nat k) = None"
  proof (intro allI impI)
    fix k :: nat assume "k < 56 * max_exe"
    then have "\<not> (0x600000000 + of_nat k - 0x700000000 :: u64) < 0xA0000"
      by (simp add: word_less_nat_alt unat_sub_if' unat_word_ariths unat_of_nat_small max_exe_def)
    then show "kmem lkm_st0 (exes_at lkm_st0 + of_nat k) = None" by (simp add: lkm_st0_simps)
  qed
  have l: "length (exes lkm_st0) = max_exe" by (simp add: lkm_st0_simps exe_st1_def exe_st0_def)
  have x: "exes lkm_st0 ! get_exe 7 0x400 = exe_run0" by (simp add: lkm_st0_simps nth_exe_st1)
  from store_rewrites_slot [OF refl, of lkm_st0 7 "0x400" "get_exe 7 0x401" exe_run0 0, OF _ _ l get_exe_less n k] x
  obtain p where "sysfs_store (pkt_bytes p @ exe_bytes exe_run0) lkm_st0 = Ret (80, lkm_st0\<lparr>exes :=
      (exes lkm_st0)[get_exe 7 0x401 := exe_run0, get_exe 7 0x400 := (exes lkm_st0 ! get_exe 7 0x400)\<lparr>status_code := 0\<rparr>]\<rparr>)"
    by (auto simp: exe_run0_def)
  moreover have "exes (lkm_st0\<lparr>exes := (exes lkm_st0)[get_exe 7 0x401 := exe_run0,
      get_exe 7 0x400 := (exes lkm_st0 ! get_exe 7 0x400)\<lparr>status_code := 0\<rparr>]\<rparr>) ! get_exe 7 0x401 = exe_run0"
    using n l get_exe_less [of 7 "0x401"] by simp
  ultimately show ?thesis by blast
qed

end
