(* ===== verification/Lkm.thy ===== *)
theory Lkm
  imports Sysfs
begin

text \<open>
  The module itself: \<open>zz_lkm/zz_lkm_main.c\<close> (loading, unloading and the hook that
  \<open>do_syscall_64\<close> calls through \<open>zz_var\<close>) and \<open>zz_lkm/error_handler.h\<close> (what the page fault
  handler asks the module).
\<close>

section \<open>The hook\<close>

text \<open>What the current CPU and task are when the hook runs, and the clock as \<open>stat_func\<close> reads it.\<close>

record call_ctx =
  cc_pid :: cint
  cc_cpu :: nat
  cc_now :: u64

text \<open>\<open>None\<close>: the hook does not return to its caller.\<close>

definition zz_func ::
  "uenv \<Rightarrow> 's lkm_st_scheme cenv \<Rightarrow> call_ctx \<Rightarrow> pt_regs \<Rightarrow> u64 \<Rightarrow> 's lkm_st_scheme
     \<Rightarrow> (pt_regs \<times> 's lkm_st_scheme) res option" where
  "zz_func e c x regs ts s =
     (case exe_on_call c (cc_pid x) regs s of
        None \<Rightarrow> None
      | Some None \<Rightarrow> Some Oops
      | Some (Some (regs1, s1)) \<Rightarrow>
          Some (if sint (stat_flag s1) < 100
                then bind_res (stat_func e (cc_cpu x) (cc_now x) (cc_pid x) (ip regs1) ts s1)
                       (\<lambda>s2. Ret (regs1, s2))
                else Ret (regs1, s1)))"

section \<open>Loading and unloading\<close>

text \<open>
  \<open>online\<close> is \<open>num_online_cpus()\<close>, \<open>table\<close> the address \<open>kallsyms\<close> has for
  \<open>sys_call_table\<close>. The hook is installed before \<open>zz_sys_call_table\<close> is set.
\<close>

definition zz_lkm_init ::
  "uenv \<Rightarrow> cint \<Rightarrow> bool \<Rightarrow> bool \<Rightarrow> u64 \<Rightarrow> 's lkm_st_scheme \<Rightarrow> 's lkm_st_scheme res" where
  "zz_lkm_init e online mk_obj mk_file table s =
     bind_res (stat_init e online (printk ModuleInit s)) (\<lambda>s1.
     case exe_init e s1 of
       None \<Rightarrow> Oops
     | Some s2 \<Rightarrow> Ret ((sys_init mk_obj mk_file s2)\<lparr>zz_var := True, zz_sys_call_table := table\<rparr>))"

definition zz_lkm_exit :: "'s lkm_st_scheme \<Rightarrow> 's lkm_st_scheme" where
  "zz_lkm_exit s = printk ModuleBye (exe_exit (sys_exit (stat_exit (s\<lparr>zz_var := False\<rparr>))))"

section \<open>Error handler\<close>

datatype ub_label = UB_memory_access_error | UB_default_error

definition UB_ERROR_MEMORY_ACCESS :: int where "UB_ERROR_MEMORY_ACCESS = -0x200"
definition UB_DEFAULT :: int where "UB_DEFAULT = -0x300"

text \<open>The address of a label of the function body, to resume at.\<close>

definition UB_error_handler :: "int \<Rightarrow> ub_label" where
  "UB_error_handler error_type =
     (if error_type = UB_ERROR_MEMORY_ACCESS then UB_memory_access_error else UB_default_error)"

text \<open>What is printed when execution resumes at a label: the first falls through to the second.\<close>

primrec UB_resume :: "ub_label \<Rightarrow> kmsg list" where
  "UB_resume UB_memory_access_error = [UbErr ''Unmmaped memory accessed'', UbErr ''Undefined error'']"
| "UB_resume UB_default_error = [UbErr ''Undefined error'']"

text \<open>\<open>UB_DEBUG\<close> is 0, so the warnings are compiled out; the answer is the constant 1.\<close>

definition UB_fault_address_space :: "u64 \<Rightarrow> u64 \<Rightarrow> int" where
  "UB_fault_address_space address user_r13 = 1"

text \<open>
  The functions that \<open>kallsyms_lookup_name\<close> can find because the module defines and exports
  them (\<open>EXPORT_SYMBOL\<close> in \<open>error_handler.h\<close>).
\<close>

datatype ub_symbol = SymErrorHandler | SymFaultAddressSpace

definition lkm_symbols :: "string \<Rightarrow> ub_symbol option" where
  "lkm_symbols name =
     (if name = ''UB_error_handler'' then Some SymErrorHandler
      else if name = ''UB_fault_address_space'' then Some SymFaultAddressSpace else None)"

end
