(* ===== verification/Daemon.thy ===== *)
theory Daemon
  imports Lkm
begin

text \<open>
  The user-space daemon \<open>zz_daemon/main.c\<close>: every 100 ms it reads the module's table, has the
  translator build or extend the code of every slot that asks for it, and writes the code
  back in packets of at most 4000 bytes. Console output is not modelled. The shell, the
  translator it starts and the file system are parameters: \<open>system\<close> runs a command line,
  \<open>read_file\<close> is the content of a file.
\<close>

section \<open>Printing numbers\<close>

definition hex_digit :: "nat \<Rightarrow> char" where
  "hex_digit d = ''0123456789abcdef'' ! d"

fun hex_nat :: "nat \<Rightarrow> string" where
  "hex_nat n = (if n < 16 then [hex_digit n] else hex_nat (n div 16) @ [hex_digit (n mod 16)])"

declare hex_nat.simps [simp del]

text \<open>\<open>%p\<close> of the GNU C library.\<close>

definition fmt_p :: "u64 \<Rightarrow> string" where
  "fmt_p p = (if p = 0 then ''(nil)'' else ''0x'' @ hex_nat (unat p))"

definition dec_digit :: "nat \<Rightarrow> char" where
  "dec_digit d = ''0123456789'' ! d"

fun dec_nat :: "nat \<Rightarrow> string" where
  "dec_nat n = (if n < 10 then [dec_digit n] else dec_nat (n div 10) @ [dec_digit (n mod 10)])"

declare dec_nat.simps [simp del]

text \<open>\<open>%d\<close>\<close>

definition fmt_d :: "cint \<Rightarrow> string" where
  "fmt_d i = (if sint i < 0 then ''-'' @ dec_nat (nat (- sint i)) else dec_nat (nat (sint i)))"

section \<open>State\<close>

text \<open>\<open>records\<close> has 1024 elements, \<open>cmd_hist\<close> room for 1000 strings.\<close>

record 'f daemon =
  records :: "u64 list"
  cnts :: nat
  cmd_hist :: "string list"
  files :: 'f

record 'f denv =
  system :: "string \<Rightarrow> 'f \<Rightarrow> 'f"
  read_file :: "'f \<Rightarrow> string \<Rightarrow> u8 list option"

definition daemon_init :: "'f \<Rightarrow> 'f daemon" where
  "daemon_init f = \<lparr>records = replicate 1024 0, cnts = 0, cmd_hist = [], files = f\<rparr>"

definition targets :: "u64 list" where
  "targets = [0x7ffff7fa1abb, 0x7ffff7de6487, 0x7ffff7df274e, 0x7ffff7de4fae, 0x7ffff7fa1437,
     0x007ffff7fa76ca, 0x07ffff7ed116a, 0x007ffff7e5232f]"

definition in_targets :: "u64 \<Rightarrow> bool" where
  "in_targets addr = list_ex (\<lambda>t. addr = t) targets"

definition in_records :: "'f daemon \<Rightarrow> u64 \<Rightarrow> bool" where
  "in_records d addr = list_ex (\<lambda>t. addr = t) (records d)"

text \<open>Whether the command was run before; \<open>None\<close> is the write past \<open>cmd_hist\<close>.\<close>

definition cmd_history :: "string \<Rightarrow> 'f daemon \<Rightarrow> (bool \<times> 'f daemon) option" where
  "cmd_history cmd d =
     (if list_ex (\<lambda>c. cmd = c) (cmd_hist d) then Some (True, d)
      else if length (cmd_hist d) \<ge> 1000 then None
      else Some (False, d\<lparr>cmd_hist := cmd_hist d @ [cmd]\<rparr>))"

section \<open>Running the translator\<close>

definition compile :: "'f denv \<Rightarrow> cint \<Rightarrow> u64 \<Rightarrow> 'f daemon \<Rightarrow> 'f daemon" where
  "compile v pid entry d =
     d\<lparr>files := system v (''cd ./'' @ fmt_p entry @ ''/ && python3 ../../zz_disassem/disassem.py ''
         @ fmt_d pid @ '' '' @ fmt_p entry) (files d)\<rparr>"

definition jit_path :: "u64 \<Rightarrow> string" where
  "jit_path addr = ''./'' @ fmt_p addr @ ''/asm/jit.bin''"

section \<open>Writing code to the module\<close>

definition max_pay :: nat where "max_pay = 4000"
definition ibuf_size :: nat where "ibuf_size = 4096 * 256"

text \<open>
  One packet: the status is 0 (\<open>normal\<close>) on the last packet and -1 (\<open>un_init\<close>) before. Every
  packet is one \<open>fopen\<close>/\<open>fwrite\<close>/\<open>fclose\<close>; at most 4024 bytes, so it reaches
  \<open>sysfs_store\<close> as one write.
\<close>

definition chunk_pkt :: "cint \<Rightarrow> u64 \<Rightarrow> u64 \<Rightarrow> u8 list \<Rightarrow> recv_pkt" where
  "chunk_pkt pid addr off rest = \<lparr>pkt_status = (if length rest \<le> max_pay then 0 else -1),
     pkt_pid = pid, pkt_RIP = addr, pkt_offset = off\<rparr>"

function write_chunks ::
  "(u8 list \<Rightarrow> 'k \<Rightarrow> 'k res) \<Rightarrow> cint \<Rightarrow> u64 \<Rightarrow> u64 \<Rightarrow> u8 list \<Rightarrow> 'k \<Rightarrow> 'k res" where
  "write_chunks store pid addr off rest s =
     (if rest = [] then Ret s
      else bind_res (store (pkt_bytes (chunk_pkt pid addr off rest) @ take max_pay rest) s)
             (write_chunks store pid addr (off + of_nat (min max_pay (length rest)))
                (drop max_pay rest)))"
  by pat_completeness auto
termination
  by (relation "measure (\<lambda>(store, pid, addr, off, rest, s). length rest)")
    (auto simp: max_pay_def)

declare write_chunks.simps [simp del]

text \<open>Handing one packet to the module; the daemon does not look at the result.\<close>

definition store_pkt :: "u8 list \<Rightarrow> 's lkm_st_scheme \<Rightarrow> 's lkm_st_scheme res" where
  "store_pkt buf s = bind_res (sysfs_store buf s) (\<lambda>(_, s1). Ret s1)"

text \<open>A missing \<open>jit.bin\<close> makes \<open>fread\<close> read through a null pointer.\<close>

definition write_sys ::
  "'f denv \<Rightarrow> cint \<Rightarrow> u64 \<Rightarrow> 'f daemon \<Rightarrow> 's lkm_st_scheme \<Rightarrow> 's lkm_st_scheme res" where
  "write_sys v pid addr d s =
     (case read_file v (files d) (jit_path addr) of
        None \<Rightarrow> Oops
      | Some img \<Rightarrow> write_chunks store_pkt pid addr 0 (take ibuf_size img) s)"

section \<open>One round\<close>

definition quote :: string where "quote = [CHR 0x27]"

text \<open>The command for a slot, \<open>None\<close> when its status is not one the daemon knows.\<close>

definition slot_cmd :: "exe_info \<Rightarrow> string option" where
  "slot_cmd x =
     (if status_code x = un_init
      then Some (''mkdir -p ./'' @ fmt_p (RIP x) @ '' && cp -rf ./asm/ ./'' @ fmt_p (RIP x) @ ''/'')
      else if status_code x = call_miss
      then Some (''echo '' @ fmt_p (tgt_addr x) @ '' >> ./'' @ fmt_p (RIP x) @ ''/asm/callee_table.txt'')
      else if status_code x = ij_miss
      then Some (''echo '' @ quote @ fmt_p (jump_from x) @ '' '' @ fmt_p (tgt_addr x) @ quote
             @ '' >> ./'' @ fmt_p (RIP x) @ ''/asm/ij_table.txt'')
      else None)"

text \<open>The body of the loop of \<open>check\<close> for one element of the buffer.\<close>

definition check_one ::
  "'f denv \<Rightarrow> exe_info \<Rightarrow> 'f daemon \<Rightarrow> 's lkm_st_scheme \<Rightarrow> ('f daemon \<times> 's lkm_st_scheme) res" where
  "check_one v x d s =
     (if \<not> in_targets (RIP x)
      then if \<not> in_records d (RIP x)
        then if cnts d \<ge> 1024 then Oops
             else Ret (d\<lparr>records := (records d)[cnts d := RIP x], cnts := Suc (cnts d)\<rparr>, s)
        else Ret (d, s)
      else if status_code x = 0 then Ret (d, s)
      else case slot_cmd x of
             None \<Rightarrow> Ret (d, s)
           | Some cmd \<Rightarrow>
               (case cmd_history cmd d of
                  None \<Rightarrow> Oops
                | Some (seen, d1) \<Rightarrow>
                    let d2 = (if cmd \<noteq> [] \<and> \<not> seen
                              then compile v (exe_pid x) (RIP x)
                                     (d1\<lparr>files := system v cmd (files d1)\<rparr>) else d1)
                    in bind_res (write_sys v (exe_pid x) (RIP x) d2 s) (\<lambda>s1. Ret (d2, s1))))"

primrec parse_exes :: "nat \<Rightarrow> u8 list \<Rightarrow> exe_info list" where
  "parse_exes 0 bs = []"
| "parse_exes (Suc n) bs = exe_of_bytes (take sizeof_exe_info bs) # parse_exes n (drop sizeof_exe_info bs)"

fun check_all ::
  "'f denv \<Rightarrow> exe_info list \<Rightarrow> 'f daemon \<Rightarrow> 's lkm_st_scheme \<Rightarrow> ('f daemon \<times> 's lkm_st_scheme) res" where
  "check_all v [] d s = Ret (d, s)"
| "check_all v (x # xs) d s = bind_res (check_one v x d s) (\<lambda>(d1, s1). check_all v xs d1 s1)"

text \<open>\<open>fread(buffer, 1, 4096, fp)\<close>; the file is missing when the module is not loaded: \<open>exit(-1)\<close>.\<close>

definition read_sys :: "'s lkm_st_scheme \<Rightarrow> (u8 list \<times> 's lkm_st_scheme) res" where
  "read_sys s = bind_res (sysfs_show s) (\<lambda>(buf, s1). Ret (take 4096 buf, s1))"

definition check :: "'f denv \<Rightarrow> 'f daemon \<Rightarrow> 's lkm_st_scheme \<Rightarrow> ('f daemon \<times> 's lkm_st_scheme) res" where
  "check v d s =
     bind_res (read_sys s) (\<lambda>(buffer, s1).
       check_all v (parse_exes (length buffer div sizeof_exe_info) buffer) d s1)"

text \<open>The first \<open>n\<close> rounds of \<open>main\<close> (whose loop never ends).\<close>

primrec daemon_rounds ::
  "nat \<Rightarrow> 'f denv \<Rightarrow> 'f daemon \<Rightarrow> 's lkm_st_scheme \<Rightarrow> ('f daemon \<times> 's lkm_st_scheme) res" where
  "daemon_rounds 0 v d s = Ret (d, s)"
| "daemon_rounds (Suc n) v d s = bind_res (check v d s) (\<lambda>(d1, s1). daemon_rounds n v d1 s1)"

definition daemon_main ::
  "nat \<Rightarrow> 'f denv \<Rightarrow> 'f \<Rightarrow> 's lkm_st_scheme \<Rightarrow> ('f daemon \<times> 's lkm_st_scheme) res" where
  "daemon_main n v f s = daemon_rounds n v (daemon_init (system v ''rm -rf 0x*'' f)) s"

section \<open>Packets and blocks\<close>

text \<open>One write to the sysfs file, all writes for an image, and their effect in order.\<close>

definition chunk_bytes :: "cint \<Rightarrow> u64 \<Rightarrow> u64 \<Rightarrow> u8 list \<Rightarrow> u8 list" where
  "chunk_bytes pid addr off rest = pkt_bytes (chunk_pkt pid addr off rest) @ take max_pay rest"

function packets :: "cint \<Rightarrow> u64 \<Rightarrow> u64 \<Rightarrow> u8 list \<Rightarrow> u8 list list" where
  "packets pid addr off rest =
     (if rest = [] then []
      else chunk_bytes pid addr off rest #
        packets pid addr (off + of_nat (min max_pay (length rest))) (drop max_pay rest))"
  by pat_completeness auto
termination
  by (relation "measure (\<lambda>(pid, addr, off, rest). length rest)") (auto simp: max_pay_def)

declare packets.simps [simp del]

primrec store_all :: "(u8 list \<Rightarrow> 'k \<Rightarrow> 'k res) \<Rightarrow> u8 list list \<Rightarrow> 'k \<Rightarrow> 'k res" where
  "store_all store [] s = Ret s"
| "store_all store (p # ps) s = bind_res (store p s) (store_all store ps)"

text \<open>
  The receiving end: the slot of (pid, addr) is claimed and its block of 160 pages mapped; a
  byte of the block; its status.
\<close>

definition blk :: "cint \<Rightarrow> u64 \<Rightarrow> 's lkm_st_scheme \<Rightarrow> exe_info" where
  "blk pid addr s = exes s ! get_exe pid addr"

definition blk_ready :: "cint \<Rightarrow> u64 \<Rightarrow> 's lkm_st_scheme \<Rightarrow> bool" where
  "blk_ready pid addr s \<longleftrightarrow> length (exes s) = max_exe \<and> exe_pid (blk pid addr s) = pid
     \<and> RIP (blk pid addr s) = addr \<and> mapped (kmem s) (code_block (blk pid addr s)) block_size"

definition blk_byte :: "cint \<Rightarrow> u64 \<Rightarrow> 's lkm_st_scheme \<Rightarrow> nat \<Rightarrow> u8 option" where
  "blk_byte pid addr s i = kmem s (code_block (blk pid addr s) + of_nat i)"

definition blk_status :: "cint \<Rightarrow> u64 \<Rightarrow> 's lkm_st_scheme \<Rightarrow> cint" where
  "blk_status pid addr s = status_code (blk pid addr s)"

text \<open>Slots of addresses outside the white list are the same.\<close>

definition spares :: "'s lkm_st_scheme \<Rightarrow> 's lkm_st_scheme \<Rightarrow> bool" where
  "spares s t \<longleftrightarrow> (\<forall>i. \<not> in_targets (RIP (exes s ! i)) \<longrightarrow> exes t ! i = exes s ! i)"

text \<open>
  A write of the daemon: a packet for a slot in use whose address is in the white list, that ends
  within the block and does not release the slot.
\<close>

definition daemon_pkt :: "cint \<Rightarrow> u64 \<Rightarrow> u8 list \<Rightarrow> bool" where
  "daemon_pkt pid addr p \<longleftrightarrow> (let h = pkt_of_bytes p in pkt_pid h = pid \<and> pkt_RIP h = addr
     \<and> pkt_status h \<noteq> un_used \<and> unat (pkt_offset h) + (length p - sizeof_recv_pkt) \<le> block_size)"

definition daemon_write :: "'s lkm_st_scheme \<Rightarrow> 's lkm_st_scheme \<Rightarrow> bool" where
  "daemon_write s t \<longleftrightarrow> (\<exists>pid addr p. in_targets addr \<and> daemon_pkt pid addr p
     \<and> exe_used (exes s ! get_exe pid addr) \<and> store_pkt p s = Ret t)"

text \<open>The translator writes at most 160 pages of code.\<close>

definition small_images :: "'f denv \<Rightarrow> bool" where
  "small_images v \<longleftrightarrow> (\<forall>f path img. read_file v f path = Some img \<longrightarrow> length img \<le> block_size)"

text \<open>The blocks of all slots in use lie outside the tables.\<close>

definition blocks_off :: "'s lkm_st_scheme \<Rightarrow> bool" where
  "blocks_off s \<longleftrightarrow> list_all (\<lambda>i. exe_used (exes s ! i) \<longrightarrow> off_tables s (code_block (exes s ! i))) [0..<max_exe]"

text \<open>Concrete values: an image of two packets.\<close>

definition jit0 :: "u8 list" where "jit0 = replicate 5000 0x90"

definition denv0 :: "unit denv" where
  "denv0 = \<lparr>system = (\<lambda>_ f. f), read_file = (\<lambda>_ _. Some jit0)\<rparr>"

section \<open>Lemmas\<close>

lemma write_chunks_packets: "write_chunks store pid addr off rest s = store_all store (packets pid addr off rest) s"
proof (induction rest arbitrary: off s rule: length_induct)
  case (1 rest)
  show ?case
  proof (cases "rest = []")
    case False
    have "write_chunks store pid addr o' (drop max_pay rest) = store_all store (packets pid addr o' (drop max_pay rest))" for o'
      using 1 False by (intro ext) (simp add: max_pay_def)
    with False show ?thesis
      by (simp add: write_chunks.simps [of _ _ _ _ rest] packets.simps [of _ _ _ rest] chunk_bytes_def)
  qed (simp add: write_chunks.simps packets.simps)
qed

lemma chunk_bytes_eq:
  "chunk_bytes pid addr off rest = pkt_bytes \<lparr>pkt_status = (if length rest \<le> max_pay then normal else un_init),
     pkt_pid = pid, pkt_RIP = addr, pkt_offset = off\<rparr> @ take max_pay rest"
  by (simp add: chunk_bytes_def chunk_pkt_def normal_def un_init_def)

text \<open>
  What the daemon relies on when it writes code: a packet for a slot that is ready is accepted,
  sets the status, changes the bytes from its offset on and no others.
\<close>

locale code_channel =
  fixes store :: "u8 list \<Rightarrow> 'k \<Rightarrow> 'k res"
    and ready :: "cint \<Rightarrow> u64 \<Rightarrow> 'k \<Rightarrow> bool"
    and byte_at :: "cint \<Rightarrow> u64 \<Rightarrow> 'k \<Rightarrow> nat \<Rightarrow> u8 option"
    and status_of :: "cint \<Rightarrow> u64 \<Rightarrow> 'k \<Rightarrow> cint"
    and cap :: nat
  assumes cap_small: "cap < 2 ^ 31"
    and store_ok: "ready pid addr k \<Longrightarrow> unat off + length bs \<le> cap \<Longrightarrow>
      \<exists>k'. store (pkt_bytes \<lparr>pkt_status = st, pkt_pid = pid, pkt_RIP = addr, pkt_offset = off\<rparr> @ bs) k = Ret k'
        \<and> ready pid addr k' \<and> status_of pid addr k' = st
        \<and> (\<forall>i<cap. byte_at pid addr k' i =
             (if unat off \<le> i \<and> i < unat off + length bs then Some (bs ! (i - unat off))
              else byte_at pid addr k i))"
begin

lemma store_chunk:
  assumes "ready pid addr k" and "unat off + length rest \<le> cap" and "rest \<noteq> []"
  obtains k' where "store (chunk_bytes pid addr off rest) k = Ret k'" and "ready pid addr k'"
    and "status_of pid addr k' = (if length rest \<le> max_pay then normal else un_init)"
    and "\<And>i. i < cap \<Longrightarrow> byte_at pid addr k' i =
          (if unat off \<le> i \<and> i < unat off + min max_pay (length rest) then Some (rest ! (i - unat off))
           else byte_at pid addr k i)"
proof -
  have "unat off + length (take max_pay rest) \<le> cap" using assms(2) by simp
  from store_ok [OF assms(1) this, of "if length rest \<le> max_pay then normal else un_init"]
  obtain k' where k': "store (chunk_bytes pid addr off rest) k = Ret k'" "ready pid addr k'"
      "status_of pid addr k' = (if length rest \<le> max_pay then normal else un_init)"
      "\<forall>i<cap. byte_at pid addr k' i =
             (if unat off \<le> i \<and> i < unat off + length (take max_pay rest)
              then Some (take max_pay rest ! (i - unat off)) else byte_at pid addr k i)"
    unfolding chunk_bytes_eq by blast
  show thesis
    by (rule that [OF k'(1-3)]) (use k'(4) in \<open>auto simp: min.commute\<close>)
qed

lemma next_offset:
  fixes off :: u64
  assumes "unat off + length rest \<le> cap"
  shows "unat (off + of_nat (min max_pay (length rest))) = unat off + min max_pay (length rest)"
proof -
  let ?n = "min max_pay (length rest)"
  have "unat off + ?n < 2 ^ 64" using assms cap_small by simp
  then show ?thesis by (simp add: unat_word_ariths unat_of_nat_small)
qed

lemma image_stored:
  assumes "ready pid addr k" and "unat off + length rest \<le> cap"
  shows "\<exists>k'. store_all store (packets pid addr off rest) k = Ret k' \<and> ready pid addr k'
    \<and> (rest \<noteq> [] \<longrightarrow> status_of pid addr k' = normal)
    \<and> (\<forall>i<cap. byte_at pid addr k' i =
        (if unat off \<le> i \<and> i < unat off + length rest then Some (rest ! (i - unat off))
         else byte_at pid addr k i))"
  using assms
proof (induction rest arbitrary: off k rule: length_induct)
  case (1 rest)
  show ?case
  proof (cases "rest = []")
    case True
    with "1.prems" show ?thesis by (auto simp: packets.simps)
  next
    case False
    let ?n = "min max_pay (length rest)"
    obtain k1 where k1: "store (chunk_bytes pid addr off rest) k = Ret k1" "ready pid addr k1"
        "status_of pid addr k1 = (if length rest \<le> max_pay then normal else un_init)"
        "\<And>i. i < cap \<Longrightarrow> byte_at pid addr k1 i =
          (if unat off \<le> i \<and> i < unat off + ?n then Some (rest ! (i - unat off))
           else byte_at pid addr k i)"
      by (rule store_chunk [OF "1.prems" False]) blast
    note off1 = next_offset [OF "1.prems"(2)]
    have "length (drop max_pay rest) < length rest" using False by (simp add: max_pay_def)
    moreover have "unat (off + of_nat ?n) + length (drop max_pay rest) \<le> cap"
      unfolding off1 using "1.prems"(2) by (simp add: min_def)
    ultimately obtain k2 where k2: "store_all store (packets pid addr (off + of_nat ?n) (drop max_pay rest)) k1 = Ret k2"
        "ready pid addr k2" "drop max_pay rest \<noteq> [] \<longrightarrow> status_of pid addr k2 = normal"
        "\<forall>i<cap. byte_at pid addr k2 i =
          (if unat off + ?n \<le> i \<and> i < unat off + ?n + length (drop max_pay rest)
           then Some (drop max_pay rest ! (i - (unat off + ?n))) else byte_at pid addr k1 i)"
      using "1.IH" k1(2) unfolding off1 [symmetric] by blast
    have fin: "drop max_pay rest = [] \<Longrightarrow> k2 = k1"
      using k2(1) by (simp add: packets.simps)
    have "byte_at pid addr k2 i = (if unat off \<le> i \<and> i < unat off + length rest
        then Some (rest ! (i - unat off)) else byte_at pid addr k i)" if "i < cap" for i
      using k2(4) k1(4) [OF that] that by (auto simp: min_def not_less)
    moreover have "status_of pid addr k2 = normal"
      using k2(3) fin k1(3) by (cases "length rest \<le> max_pay") auto
    ultimately show ?thesis
      using False k1(1) k2(1,2) by (simp add: packets.simps [of pid addr off rest])
  qed
qed

lemma in_progress:
  assumes "ready pid addr k" and "unat off + length rest \<le> cap"
    and "0 < j" and "j < length (packets pid addr off rest)"
  shows "\<exists>k'. store_all store (take j (packets pid addr off rest)) k = Ret k' \<and> ready pid addr k'
    \<and> status_of pid addr k' = un_init"
  using assms
proof (induction rest arbitrary: off k j rule: length_induct)
  case (1 rest)
  have False': "rest \<noteq> []" using "1.prems"(4) by (auto simp: packets.simps)
  let ?n = "min max_pay (length rest)"
  obtain k1 where k1: "store (chunk_bytes pid addr off rest) k = Ret k1" "ready pid addr k1"
      "status_of pid addr k1 = (if length rest \<le> max_pay then normal else un_init)"
    by (rule store_chunk [OF "1.prems"(1,2) False']) blast
  have p: "packets pid addr off rest = chunk_bytes pid addr off rest #
      packets pid addr (off + of_nat ?n) (drop max_pay rest)"
    using False' by (simp add: packets.simps [of pid addr off rest])
  have long: "length rest > max_pay"
    using "1.prems"(3,4) by (cases "drop max_pay rest = []") (auto simp: p packets.simps [of _ _ _ "[]"])
  show ?case
  proof (cases "j = 1")
    case True
    with k1 long show ?thesis by (simp add: p)
  next
    case False
    have a: "length (drop max_pay rest) < length rest" using False' by (simp add: max_pay_def)
    have b: "unat (off + of_nat ?n) + length (drop max_pay rest) \<le> cap"
      unfolding next_offset [OF "1.prems"(2)] using "1.prems"(2) by (simp add: min_def)
    have c: "0 < j - 1" "j - 1 < length (packets pid addr (off + of_nat ?n) (drop max_pay rest))"
      using False "1.prems"(3,4) by (auto simp: p)
    obtain k2 where "store_all store (take (j - 1) (packets pid addr (off + of_nat ?n) (drop max_pay rest))) k1 = Ret k2"
        "ready pid addr k2" "status_of pid addr k2 = un_init"
      using "1.IH" a b c k1(2) by blast
    with k1(1) "1.prems"(3) show ?thesis by (cases j) (simp_all add: p)
  qed
qed

end

lemma blk_store:
  assumes "blk_ready pid addr s" and "unat off + length bs \<le> block_size"
  shows "\<exists>s'. store_pkt (pkt_bytes \<lparr>pkt_status = st, pkt_pid = pid, pkt_RIP = addr, pkt_offset = off\<rparr> @ bs) s = Ret s'
    \<and> blk_ready pid addr s' \<and> blk_status pid addr s' = st
    \<and> (\<forall>i<block_size. blk_byte pid addr s' i =
         (if unat off \<le> i \<and> i < unat off + length bs then Some (bs ! (i - unat off))
          else blk_byte pid addr s i))"
proof -
  let ?p = "\<lparr>pkt_status = st, pkt_pid = pid, pkt_RIP = addr, pkt_offset = off\<rparr>"
  let ?c = "code_block (blk pid addr s)"
  have l: "length bs < 2 ^ 31" using assms(2) by (simp add: block_size_def)
  have offn: "off = of_nat (unat off)" by simp
  have mp: "mapped (kmem s) (?c + off) (length bs)"
    using mapped_mono [of "kmem s" ?c block_size "unat off" "length bs"] assms
    by (simp add: blk_ready_def)
  obtain m where m: "mem_write (kmem s) (?c + off) bs = Some m"
    and st: "sysfs_store (pkt_bytes ?p @ bs) s = Ret (24 + length bs,
        upd_exe (get_exe pid addr) (\<lambda>x. x\<lparr>status_code := st\<rparr>) (s\<lparr>kmem := m\<rparr>))"
    using store_writes [of "get_exe pid addr" ?p "?c + off" s bs] assms(1) l mp
    by (auto simp: blk_ready_def blk_def)
  let ?s = "upd_exe (get_exe pid addr) (\<lambda>x. x\<lparr>status_code := st\<rparr>) (s\<lparr>kmem := m\<rparr>)"
  have b: "blk pid addr ?s = (blk pid addr s)\<lparr>status_code := st\<rparr>"
    using assms(1) get_exe_less [of pid addr] by (simp add: blk_ready_def blk_def upd_exe_def)
  have km: "kmem ?s = m" "length (exes ?s) = length (exes s)" by (simp_all add: upd_exe_def)
  have "mapped m ?c block_size"
    using assms(1) mem_write_dom [OF m] by (auto simp: blk_ready_def mapped_iff dom_def)
  then have r: "blk_ready pid addr ?s" using assms(1) b km by (simp add: blk_ready_def)
  have "m (?c + of_nat i) = (if unat off \<le> i \<and> i < unat off + length bs then Some (bs ! (i - unat off))
      else kmem s (?c + of_nat i))" if "i < block_size" for i
  proof (cases "unat off \<le> i \<and> i < unat off + length bs")
    case True
    then have e: "?c + of_nat i = ?c + off + of_nat (i - unat off)"
      by (simp add: of_nat_diff)
    have "m (?c + off + of_nat (i - unat off)) = Some (bs ! (i - unat off))"
      using True l by (intro mem_write_nth [OF m]) auto
    with True e show ?thesis by metis
  next
    case False
    have "?c + of_nat i \<noteq> ?c + off + of_nat j" if "j < length bs" for j
    proof
      assume "?c + of_nat i = ?c + off + of_nat j"
      then have "(of_nat i :: u64) = of_nat (unat off + j)" by simp
      then have "i = unat off + j"
        using \<open>i < block_size\<close> that assms(2)
        by (subst (asm) of_nat_inj_word) (simp_all add: block_size_def)
      with False that show False by simp
    qed
    with mem_write_frame [OF m, of "?c + of_nat i"] False show ?thesis by auto
  qed
  then have "\<forall>i<block_size. blk_byte pid addr ?s i =
         (if unat off \<le> i \<and> i < unat off + length bs then Some (bs ! (i - unat off))
          else blk_byte pid addr s i)"
    by (simp add: blk_byte_def b km)
  with r st b show ?thesis by (simp add: store_pkt_def blk_status_def)
qed

interpretation blk_channel: code_channel store_pkt blk_ready blk_byte blk_status block_size
  by unfold_locales (simp add: block_size_def, rule blk_store)

lemma parse_images: "parse_exes (length xs) (concat (map exe_bytes xs)) = xs"
  using exe_of_bytes_append [of _ "[]"] by (induction xs) (simp_all add: sizeof_exe_info_def)

lemma parse_read:
  "parse_exes (length (concat (map exe_bytes xs)) div sizeof_exe_info) (concat (map exe_bytes xs)) = xs"
  by (simp add: length_images sizeof_exe_info_def parse_images [unfolded sizeof_exe_info_def])

lemma spares_refl [simp]: "spares s s"
  by (simp add: spares_def)

lemma spares_trans: "spares s t \<Longrightarrow> spares t u \<Longrightarrow> spares s u"
  by (simp add: spares_def)

lemma blocks_offD: "blocks_off s \<Longrightarrow> exe_used (exes s ! get_exe pid a) \<Longrightarrow> off_tables s (code_block (exes s ! get_exe pid a))"
  using get_exe_less [of pid a] by (simp add: blocks_off_def list_all_nth_upt)

lemma daemon_pkt_inside:
  assumes "daemon_pkt pid addr p" and "exe_used (exes s ! get_exe pid addr)"
  shows "pkt_inside p s" and "pkt_slot p s = Some i \<Longrightarrow> i = get_exe pid addr"
  using assms by (auto simp: daemon_pkt_def pkt_inside_def pkt_slot_def Let_def split: if_splits)

lemma daemon_write_cases:
  assumes "blocks_off s" and "daemon_pkt pid addr p" and "exe_used (exes s ! get_exe pid addr)" and "store_pkt p s = Ret t"
  shows "(\<exists>m. t = printk m s) \<or> (\<exists>st m. st \<noteq> un_used \<and> RIP (exes s ! get_exe pid addr) = addr
    \<and> t = upd_exe (get_exe pid addr) (\<lambda>x. x\<lparr>status_code := st\<rparr>) (s\<lparr>kmem := m\<rparr>))"
proof -
  obtain n where n: "sysfs_store p s = Ret (n, t)" using assms(4) by (auto simp: store_pkt_def bind_res_eq_Ret)
  have o: "off_tables s (code_block (exes s ! i))" if "pkt_slot p s = Some i" for i
    using blocks_offD [OF assms(1,3)] daemon_pkt_inside(2) [OF assms(2,3) that] by simp
  have "RIP (exes s ! i) = addr" if "pkt_slot p s = Some i" for i
    using that assms(2) by (auto simp: pkt_slot_def daemon_pkt_def Let_def split: if_splits)
  with store_inside [OF n daemon_pkt_inside(1) [OF assms(2,3)] o] daemon_pkt_inside(2) [OF assms(2,3)] assms(2)
  show ?thesis by (fastforce simp: daemon_pkt_def Let_def)
qed

lemma daemon_write_keeps:
  assumes "daemon_write s t" and "blocks_off s"
  shows "spares s t" and "exe_used (exes s ! i) \<Longrightarrow> exe_used (exes t ! i)" and "blocks_off t"
proof -
  obtain pid addr p where d: "in_targets addr" "daemon_pkt pid addr p" "exe_used (exes s ! get_exe pid addr)"
      "store_pkt p s = Ret t" using assms(1) by (auto simp: daemon_write_def)
  note C = daemon_write_cases [OF assms(2) d(2-4)]
  have e: "length (exes t) = length (exes s) \<and> exes_at t = exes_at s \<and> info_at t = info_at s \<and> info t = info s"
    using C by (auto simp: printk_def upd_exe_def)
  have k: "exes t ! i = exes s ! i \<or> (\<exists>st. st \<noteq> un_used \<and> exes t ! i = (exes s ! i)\<lparr>status_code := st\<rparr>
      \<and> RIP (exes s ! i) = addr \<and> exe_used (exes s ! i))" for i
    using C
  proof
    assume "\<exists>st m. st \<noteq> un_used \<and> RIP (exes s ! get_exe pid addr) = addr
      \<and> t = upd_exe (get_exe pid addr) (\<lambda>x. x\<lparr>status_code := st\<rparr>) (s\<lparr>kmem := m\<rparr>)"
    then obtain st m where st: "st \<noteq> un_used" "RIP (exes s ! get_exe pid addr) = addr"
      and t: "t = upd_exe (get_exe pid addr) (\<lambda>x. x\<lparr>status_code := st\<rparr>) (s\<lparr>kmem := m\<rparr>)" by blast
    show ?thesis
    proof (cases "i = get_exe pid addr \<and> i < length (exes s)")
      case True
      with st d(3) show ?thesis by (intro disjI2 exI [of _ st]) (simp add: t upd_exe_def)
    next
      case False
      then show ?thesis by (cases "get_exe pid addr < length (exes s)") (auto simp: t upd_exe_def not_less list_update_beyond)
    qed
  qed (auto simp: printk_def)
  show "spares s t" unfolding spares_def using k d(1) by metis
  show u: "exe_used (exes s ! i) \<Longrightarrow> exe_used (exes t ! i)" for i
    using k [of i] by (auto simp: exe_used_def)
  have "off_tables t a = off_tables s a" for a using e by (simp add: off_tables_def)
  moreover have "code_block (exes t ! i) = code_block (exes s ! i) \<and> (exe_used (exes t ! i) \<longrightarrow> exe_used (exes s ! i))" for i
    using k [of i] by auto
  ultimately show "blocks_off t" using assms(2) by (simp add: blocks_off_def list_all_nth_upt)
qed

lemma daemon_writes_keep:
  assumes "daemon_write\<^sup>*\<^sup>* s t" and "blocks_off s"
  shows "blocks_off t \<and> spares s t \<and> (\<forall>i. exe_used (exes s ! i) \<longrightarrow> exe_used (exes t ! i))"
  using assms(1)
proof (induction rule: rtranclp_induct)
  case (step t u)
  then show ?case using daemon_write_keeps [OF step(2)] spares_trans [of s t u] by blast
qed (use assms(2) in simp)

lemma packets_daemon:
  assumes "unat off + length rest \<le> block_size" and "p \<in> set (packets pid addr off rest)"
  shows "daemon_pkt pid addr p"
  using assms
proof (induction rest arbitrary: off rule: length_induct)
  case (1 rest)
  have r: "rest \<noteq> []" using "1.prems"(2) by (auto simp: packets.simps)
  let ?o = "off + of_nat (min max_pay (length rest))"
  consider "p = chunk_bytes pid addr off rest" | "p \<in> set (packets pid addr ?o (drop max_pay rest))"
    using "1.prems"(2) r by (auto simp: packets.simps [of _ _ _ rest])
  then show ?case
  proof cases
    case 1
    then show ?thesis using "1.prems"(1)
      by (simp add: daemon_pkt_def chunk_bytes_eq enc_simps sizeof_recv_pkt_def status_defs)
  next
    case 2
    have "unat ?o + length (drop max_pay rest) \<le> block_size"
      unfolding blk_channel.next_offset [OF "1.prems"(1)] using "1.prems"(1) by (simp add: min_def)
    moreover have "length (drop max_pay rest) < length rest" using r by (simp add: max_pay_def)
    ultimately show ?thesis using "1.IH" 2 by blast
  qed
qed

lemma store_all_writes:
  assumes "store_all store_pkt ps s = Ret t" and "\<forall>p \<in> set ps. daemon_pkt pid addr p" and "in_targets addr"
    and "blocks_off s" and "exe_used (exes s ! get_exe pid addr)"
  shows "daemon_write\<^sup>*\<^sup>* s t"
  using assms
proof (induction ps arbitrary: s)
  case (Cons p ps)
  then obtain s1 where a: "store_pkt p s = Ret s1" and b: "store_all store_pkt ps s1 = Ret t" by (auto simp: bind_res_eq_Ret)
  have d: "daemon_write s s1" using a Cons.prems unfolding daemon_write_def by auto
  have "daemon_write\<^sup>*\<^sup>* s1 t"
    using Cons.IH [OF b] daemon_write_keeps(2,3) [OF d] Cons.prems by auto
  with d show ?case by (rule converse_rtranclp_into_rtranclp)
qed simp

lemma check_one_writes:
  assumes "check_one v x d s = Ret (d', t)" and "small_images v" and "blocks_off s"
    and "exe_used (exes s ! get_exe (exe_pid x) (RIP x))"
  shows "daemon_write\<^sup>*\<^sup>* s t"
proof -
  have w: "daemon_write\<^sup>*\<^sup>* s u" if wr: "write_sys v (exe_pid x) (RIP x) d2 s = Ret u" and tg: "in_targets (RIP x)" for d2 u
  proof -
    obtain img where i: "read_file v (files d2) (jit_path (RIP x)) = Some img"
      and a: "store_all store_pkt (packets (exe_pid x) (RIP x) 0 (take ibuf_size img)) s = Ret u"
      using wr by (auto simp: write_sys_def write_chunks_packets split: option.splits)
    have "length img \<le> block_size" using i assms(2) by (auto simp: small_images_def)
    then have "\<forall>p \<in> set (packets (exe_pid x) (RIP x) 0 (take ibuf_size img)). daemon_pkt (exe_pid x) (RIP x) p"
      using packets_daemon [of 0 "take ibuf_size img"] by auto
    from store_all_writes [OF a this tg assms(3,4)] show ?thesis .
  qed
  show ?thesis
    using assms(1) by (auto simp: check_one_def Let_def bind_res_eq_Ret split: if_splits option.splits dest: w)
qed

lemma check_all_writes:
  assumes "check_all v xs d s = Ret (d', t)" and "small_images v" and "blocks_off s"
    and "\<forall>x \<in> set xs. exe_used (exes s ! get_exe (exe_pid x) (RIP x))"
  shows "daemon_write\<^sup>*\<^sup>* s t"
  using assms
proof (induction v xs d s rule: check_all.induct)
  case (2 v x xs d s)
  then obtain d1 s1 where a: "check_one v x d s = Ret (d1, s1)" and b: "check_all v xs d1 s1 = Ret (d', t)"
    by (auto simp: bind_res_eq_Ret)
  have w: "daemon_write\<^sup>*\<^sup>* s s1" using check_one_writes [OF a] 2 by simp
  have "daemon_write\<^sup>*\<^sup>* s1 t"
    using daemon_writes_keep [OF w "2.prems"(3)] "2.prems"(2,4) by (intro "2.IH" [OF b]) simp_all
  with w show ?case by (rule rtranclp_trans)
qed simp

lemma read_sys_slots:
  assumes "read_sys s = Ret (b, s1)"
  shows "s1 = s\<lparr>stat_flag := stat_flag s + 1\<rparr>"
    and "parse_exes (length b div sizeof_exe_info) b = filter exe_used (exes s)"
proof -
  have "show_slots (exes s) [] = Some (concat (map exe_bytes (filter exe_used (exes s))))"
    and s1: "s1 = s\<lparr>stat_flag := stat_flag s + 1\<rparr>" and b: "b = take 4096 (concat (map exe_bytes (filter exe_used (exes s))))"
    using assms by (auto simp: read_sys_def sysfs_show_def show_slots_eq bind_res_eq_Ret split: if_splits option.splits)
  then have "length (concat (map exe_bytes (filter exe_used (exes s)))) \<le> 4096"
    by (auto simp: show_slots_eq length_images split: if_splits)
  with b have "b = concat (map exe_bytes (filter exe_used (exes s)))" by simp
  then show "parse_exes (length b div sizeof_exe_info) b = filter exe_used (exes s)" by (simp only: parse_read)
  show "s1 = s\<lparr>stat_flag := stat_flag s + 1\<rparr>" by (rule s1)
qed

lemma used_at_hash:
  assumes "exe_inv J s" and "x \<in> set (filter exe_used (exes s))"
  shows "exes s ! get_exe (exe_pid x) (RIP x) = x"
proof -
  obtain i where "i < max_exe" "exes s ! i = x" "exe_used x"
    using assms by (auto simp: in_set_conv_nth exe_inv_def table_wf_def)
  then show ?thesis using assms(1) by (auto simp: exe_inv_def table_wf_iff exe_key_def exe_idx_def)
qed

lemma check_writes:
  assumes "check v d s = Ret (d', t)" and "exe_inv J s" and "blocks_off s" and "small_images v"
  shows "daemon_write\<^sup>*\<^sup>* (s\<lparr>stat_flag := stat_flag s + 1\<rparr>) t" and "sysfs_show s = Ret (concat (map exe_bytes (filter exe_used (exes s))), s\<lparr>stat_flag := stat_flag s + 1\<rparr>)"
proof -
  let ?s = "s\<lparr>stat_flag := stat_flag s + 1\<rparr>"
  obtain b s1 where r: "read_sys s = Ret (b, s1)" and a: "check_all v (parse_exes (length b div sizeof_exe_info) b) d s1 = Ret (d', t)"
    using assms(1) by (auto simp: check_def bind_res_eq_Ret)
  have "blocks_off ?s" using assms(3) by (simp add: blocks_off_def off_tables_def)
  moreover have "\<forall>x \<in> set (filter exe_used (exes s)). exe_used (exes ?s ! get_exe (exe_pid x) (RIP x))"
    using used_at_hash [OF assms(2)] by auto
  ultimately show "daemon_write\<^sup>*\<^sup>* ?s t"
    using check_all_writes [OF a [unfolded read_sys_slots [OF r]] assms(4)] by simp
  show "sysfs_show s = Ret (concat (map exe_bytes (filter exe_used (exes s))), ?s)"
    using r by (auto simp: read_sys_def sysfs_show_def show_slots_eq bind_res_eq_Ret split: if_splits option.splits)
qed

lemma read_sys_eq:
  assumes "exe_inv J s" and "J \<le> 10"
  shows "read_sys s = Ret (concat (map exe_bytes (filter exe_used (exes s))), s\<lparr>stat_flag := stat_flag s + 1\<rparr>)"
  using used_bound [OF assms(1)] assms(2)
  by (simp add: read_sys_def sysfs_show_def show_slots_eq length_images)

lemma check_all_warn:
  "list_all (\<lambda>x. \<not> in_targets (RIP x)) xs \<Longrightarrow> cnts d + length xs \<le> 1024 \<Longrightarrow> \<exists>d'. check_all v xs d s = Ret (d', s)"
  by (induction xs arbitrary: d) (simp_all add: check_one_def)

lemma lkm_st0_ready: "blk_ready 7 0x400 lkm_st0"
proof -
  have "exes lkm_st0 ! get_exe 7 0x400 = exe_run0" by (simp add: lkm_st0_simps nth_exe_st1)
  then show ?thesis
    using lkm_st0_block by (simp add: blk_ready_def blk_def exe_run0_def lkm_st0_simps exe_st1_def exe_st0_def)
qed

lemma lkm_st0_slots: "set (exes lkm_st0) \<subseteq> {exe_zero, exe_run0}"
  by (auto simp: lkm_st0_simps exe_st1_def exe_st0_def dest!: set_update_subset_insert [THEN subsetD])

lemma lkm_st0_blocks: "blocks_off lkm_st0"
proof -
  have l: "length (exes lkm_st0) = max_exe" by (simp add: lkm_st0_simps exe_st1_def exe_st0_def)
  have "off_tables lkm_st0 (code_block exe_run0)"
    by (simp add: off_tables_def lkm_st0_simps exe_st1_def exe_st0_def apart_def block_size_def sizeof_defs max_exe_def exe_run0_def)
  moreover have "exes lkm_st0 ! i = exe_zero \<or> exes lkm_st0 ! i = exe_run0" if "i < max_exe" for i
    using lkm_st0_slots nth_mem [of i "exes lkm_st0", unfolded l, OF that] by blast
  moreover have "\<not> exe_used exe_zero" by (simp add: exe_used_def exe_zero_def)
  ultimately show ?thesis
    unfolding blocks_off_def list_all_nth_upt by metis
qed

section \<open>Properties\<close>

text \<open>
  C5: The daemon delivers code unchanged: for a slot that is ready and a non-empty image of at
  most 160 pages, \<open>write_sys\<close> ends with the image at the start of the block, the rest of the
  block as it was, and the status \<open>normal\<close>.
\<close>

theorem write_sys_delivers:
  assumes "blk_ready pid addr s" and "read_file v (files d) (jit_path addr) = Some img"
    and "img \<noteq> []" and "length img \<le> block_size"
  shows "\<exists>s'. write_sys v pid addr d s = Ret s' \<and> blk_status pid addr s' = normal
    \<and> (\<forall>i<length img. blk_byte pid addr s' i = Some (img ! i))
    \<and> (\<forall>i<block_size. length img \<le> i \<longrightarrow> blk_byte pid addr s' i = blk_byte pid addr s i)"
proof -
  have "take ibuf_size img = img" using assms(4) by (simp add: ibuf_size_def block_size_def)
  with blk_channel.image_stored [OF assms(1), of 0 img] assms show ?thesis
    by (auto simp: write_sys_def write_chunks_packets)
qed

theorem write_sys_delivers_witness:
  "blk_ready 7 0x400 lkm_st0 \<and> (\<exists>s'. write_sys denv0 7 0x400 (daemon_init ()) lkm_st0 = Ret s'
     \<and> blk_status 7 0x400 s' = normal \<and> blk_byte 7 0x400 s' 4999 = Some 0x90)"
  using write_sys_delivers [OF lkm_st0_ready, of denv0 "daemon_init ()" jit0] lkm_st0_ready
  by (force simp: denv0_def jit0_def block_size_def)

text \<open>
  C21: Half-written code never runs: after any of the packets of an image but the last, the
  status of the slot is \<open>un_init\<close> and the chaining loop does not take the block.
\<close>

theorem write_sys_in_progress:
  assumes "blk_ready pid addr s" and "length img \<le> block_size"
    and "0 < j" and "j < length (packets pid addr 0 img)"
  shows "\<exists>s'. store_all store_pkt (take j (packets pid addr 0 img)) s = Ret s'
    \<and> blk_status pid addr s' = un_init \<and> \<not> exe_hit pid addr s'"
proof -
  obtain s' where "store_all store_pkt (take j (packets pid addr 0 img)) s = Ret s'"
      "blk_status pid addr s' = un_init"
    using blk_channel.in_progress [OF assms(1), of 0 img j] assms by auto
  then show ?thesis by (auto simp: exe_hit_def blk_status_def blk_def status_defs)
qed

theorem write_sys_in_progress_witness:
  "\<exists>s'. store_all store_pkt (take 1 (packets 7 0x400 0 jit0)) lkm_st0 = Ret s'
     \<and> blk_status 7 0x400 s' = un_init \<and> \<not> exe_hit 7 0x400 s'"
  by (rule write_sys_in_progress [OF lkm_st0_ready])
    (simp_all add: jit0_def block_size_def packets.simps max_pay_def)

text \<open>
  C22: What the daemon reads is what the module has: under the invariant of the table, parsing
  the bytes read from sysfs gives the used slots, every field and in order.
\<close>

theorem read_parse:
  assumes "exe_inv J s" and "J \<le> 10"
  shows "\<exists>buffer s1. read_sys s = Ret (buffer, s1)
    \<and> parse_exes (length buffer div sizeof_exe_info) buffer = filter exe_used (exes s)"
  by (simp add: read_sys_eq [OF assms] parse_read)

theorem read_parse_witness:
  "exe_inv 1 lkm_st0 \<and> (\<exists>buffer s1. read_sys lkm_st0 = Ret (buffer, s1)
    \<and> exe_run0 \<in> set (parse_exes (length buffer div sizeof_exe_info) buffer))"
proof -
  have "exe_run0 \<in> set (filter exe_used (exes lkm_st0))"
    using get_exe_less [of 7 "0x400"]
    by (simp add: lkm_st0_simps exe_st1_def exe_st0_def set_update_memI exe_used_def exe_run0_def status_defs)
  with read_parse [OF lkm_st0_inv(1)] lkm_st0_inv(1) show ?thesis by auto
qed

text \<open>
  C23: The white list is kept: a round of the daemon leaves every slot whose address is not in
  \<open>targets\<close> exactly as it was. Nothing in the code checks that a packet stays in its block, so this asks that the blocks lie
  outside the tables, and that the translated code fits its 160 pages.
\<close>

theorem check_whitelist:
  assumes "check v d s = Ret (d', s')" and "\<not> in_targets (RIP (exes s ! i))"
    and "exe_inv J s" and "blocks_off s" and "small_images v"
  shows "exes s' ! i = exes s ! i"
proof -
  let ?s = "s\<lparr>stat_flag := stat_flag s + 1\<rparr>"
  have "blocks_off ?s" using assms(4) by (simp add: blocks_off_def off_tables_def)
  then have "spares ?s s'" using daemon_writes_keep [OF check_writes(1) [OF assms(1,3-5)]] by simp
  then show ?thesis using assms(2) by (simp add: spares_def)
qed

theorem check_whitelist_witness:
  "\<exists>d' s'. check denv0 (daemon_init ()) lkm_st0 = Ret (d', s')
     \<and> exes s' ! get_exe 7 0x400 = exe_run0"
proof -
  let ?xs = "filter exe_used (exes lkm_st0)"
  let ?s1 = "lkm_st0\<lparr>stat_flag := stat_flag lkm_st0 + 1\<rparr>"
  have "list_all (\<lambda>x. \<not> in_targets (RIP x)) ?xs"
    using lkm_st0_slots by (auto simp: list_all_iff in_targets_def targets_def exe_run0_def exe_zero_def)
  moreover have "cnts (daemon_init ()) + length ?xs \<le> 1024"
    using used_bound [OF lkm_st0_inv(1)] by (simp add: daemon_init_def)
  ultimately obtain d' where "check_all denv0 ?xs (daemon_init ()) ?s1 = Ret (d', ?s1)"
    using check_all_warn by blast
  then have c: "check denv0 (daemon_init ()) lkm_st0 = Ret (d', ?s1)"
    by (simp add: check_def read_sys_eq [OF lkm_st0_inv(1)] parse_read)
  have n: "exes lkm_st0 ! get_exe 7 0x400 = exe_run0" by (simp add: lkm_st0_simps nth_exe_st1)
  have "\<not> in_targets (RIP exe_run0)" by (simp add: in_targets_def targets_def exe_run0_def)
  moreover have "small_images denv0" by (simp add: small_images_def denv0_def jit0_def block_size_def)
  ultimately show ?thesis
    using check_whitelist [OF c _ lkm_st0_inv(1) lkm_st0_blocks, of "get_exe 7 0x400"] c n by metis
qed

end
