(* ===== verification/System.thy ===== *)
theory System
  imports Daemon
begin

text \<open>
  The module while it is loaded, as a state machine: the hook of a system call, a read and a
  write of the sysfs file by any process, in any order. A round of the daemon is a sequence of
  such reads and writes.
\<close>

section \<open>Steps\<close>

text \<open>
  What \<open>vmalloc\<close> promises of the module's 65 calls, the statistics of \<open>n\<close> CPUs first, then the
  table, then at most 63 blocks: the memory of a block has no byte in common with the tables. A
  failed call counts as a block at the null pointer, where no table lies.
\<close>

definition vm_max :: nat where "vm_max = 65"

definition vm_ok :: "uenv \<Rightarrow> nat \<Rightarrow> bool" where
  "vm_ok e n \<longleftrightarrow> list_all (\<lambda>k. apart (vm_addr e k) block_size (vm_addr e 1) (sizeof_exe_info * max_exe)
     \<and> apart (vm_addr e k) block_size (vm_addr e 0) (sizeof_per_cpu_info * n)) [2..<vm_max]"

text \<open>
  The layout of the module's memory: the tables are where the first two calls put them, every
  claim made one more call, and the block of a slot in use is one of them.
\<close>

definition layout :: "uenv \<Rightarrow> 's lkm_st_scheme \<Rightarrow> bool" where
  "layout e s \<longleftrightarrow> vm_ok e (length (info s)) \<and> info_at s = vm_addr e 0 \<and> exes_at s = vm_addr e 1
     \<and> vm_calls s = unat (added s) + 2
     \<and> list_all (\<lambda>i. exe_used (exes s ! i) \<longrightarrow> list_ex (\<lambda>k. code_block (exes s ! i) = vm_addr e k) [2..<vm_max]) [0..<max_exe]"

definition rest_inv :: "uenv \<Rightarrow> 's lkm_st_scheme \<Rightarrow> bool" where
  "rest_inv e s \<longleftrightarrow> stat_inv s \<and> layout e s"

text \<open>
  What is asked of code that runs inside the hook (translated blocks and chained system calls),
  now of both tables and of the layout.
\<close>

definition cenv_sound :: "nat \<Rightarrow> uenv \<Rightarrow> 's lkm_st_scheme cenv \<Rightarrow> bool" where
  "cenv_sound J e c \<longleftrightarrow> cenv_ok J c
     \<and> (\<forall>a r g s. rest_inv e s \<longrightarrow> rest_inv e (snd (snd (run_block c a r g s))))
     \<and> (\<forall>a r s. rest_inv e s \<longrightarrow> rest_inv e (snd (snd (call_ptr c a r s))))"

text \<open>
  A write of the file is a step when its packet stays in its block. A packet that does not may
  write to any kernel memory, and nothing is claimed of the module after it.
\<close>

inductive mstep :: "nat \<Rightarrow> uenv \<Rightarrow> 's lkm_st_scheme \<Rightarrow> 's lkm_st_scheme \<Rightarrow> bool" for J e where
  m_hook: "cenv_sound J e c \<Longrightarrow> zz_func e c x regs ts s = Some (Ret (regs', s')) \<Longrightarrow> mstep J e s s'"
| m_show: "sysfs_show s = Ret (buf, s') \<Longrightarrow> mstep J e s s'"
| m_store: "pkt_inside buf s \<Longrightarrow> sysfs_store buf s = Ret (n, s') \<Longrightarrow> mstep J e s s'"

text \<open>Slots of the table that hold, by chance, a key that hashes to them when the module is loaded.\<close>

definition junk_keys :: "uenv \<Rightarrow> nat" where
  "junk_keys e = n_placed exe_idx exe_key (map (\<lambda>i. (exes_junk e i)\<lparr>status_code := un_used\<rparr>) [0..<max_exe])"

text \<open>
  The states of the loaded module; \<open>added\<close> is a static variable and starts at 0, and the calls
  of \<open>vmalloc\<close> are counted from the loading on.
\<close>

inductive reachable :: "nat \<Rightarrow> uenv \<Rightarrow> 's lkm_st_scheme \<Rightarrow> bool" for J e where
  load: "junk_keys e \<le> J \<Longrightarrow> vm_ok e (nat (sint online)) \<Longrightarrow> added s0 = 0 \<Longrightarrow> vm_calls s0 = 0
    \<Longrightarrow> zz_lkm_init e online mk_obj mk_file table s0 = Ret s \<Longrightarrow> reachable J e s"
| run: "reachable J e s \<Longrightarrow> mstep J e s s' \<Longrightarrow> reachable J e s'"

definition module_inv :: "nat \<Rightarrow> uenv \<Rightarrow> 's lkm_st_scheme \<Rightarrow> bool" where
  "module_inv J e s \<longleftrightarrow> exe_inv J s \<and> rest_inv e s"

section \<open>The table as a map\<close>

definition block_tab :: "'s exe_st_scheme \<Rightarrow> cint \<times> u64 \<Rightarrow> exe_info option" where
  "block_tab s = tab_of exe_idx exe_key exe_used (exes s)"

section \<open>Every step keeps the invariant\<close>

lemma stat_inv_cong: "info s = info t \<Longrightarrow> stat_inv s = stat_inv t"
  by (simp add: stat_inv_def)

lemma stat_inv_frame [simp]:
  fixes s :: "'s lkm_st_scheme"
  shows "stat_inv (upd_exe i f s) = stat_inv s" "stat_inv (printk m s) = stat_inv s"
    "stat_inv (exe_report p s) = stat_inv s" "stat_inv (note_miss a p r s) = stat_inv s"
    "stat_inv (s\<lparr>ac := b\<rparr>) = stat_inv s" "stat_inv (s\<lparr>stat_flag := n\<rparr>) = stat_inv s" "stat_inv (s\<lparr>kmem := km\<rparr>) = stat_inv s"
  by (rule stat_inv_cong; simp add: upd_exe_def printk_def exe_report_def note_miss_def Let_def)+

lemma layout_frame [simp]:
  fixes s :: "'s lkm_st_scheme"
  shows "layout e (printk k s) = layout e s" "layout e (exe_report p s) = layout e s"
    "layout e (s\<lparr>ac := b\<rparr>) = layout e s" "layout e (s\<lparr>stat_flag := n\<rparr>) = layout e s" "layout e (s\<lparr>kmem := m\<rparr>) = layout e s"
    "layout e (upd_info j g s) = layout e s"
  by (simp_all add: layout_def printk_def exe_report_def Let_def upd_info_def)

lemma layout_upd:
  fixes s :: "'s lkm_st_scheme"
  assumes "layout e s" and "code_block (f (exes s ! i)) = code_block (exes s ! i)"
    and "exe_used (f (exes s ! i)) \<Longrightarrow> exe_used (exes s ! i)"
  shows "layout e (upd_exe i f s)"
proof -
  have "code_block (exes (upd_exe i f s) ! j) = code_block (exes s ! j)
      \<and> (exe_used (exes (upd_exe i f s) ! j) \<longrightarrow> exe_used (exes s ! j))" if "j < max_exe" for j
    using assms(2,3) by (cases "j = i"; cases "i < length (exes s)")
      (simp_all add: upd_exe_def list_update_beyond)
  then show ?thesis
    using assms(1) by (auto simp: layout_def list_all_nth_upt) (simp_all add: upd_exe_def)
qed

lemma layout_slot:
  assumes "layout e s" and "i < max_exe" and "exe_used (exes s ! i)"
  obtains k where "2 \<le> k" and "k < vm_max" and "code_block (exes s ! i) = vm_addr e k"
proof -
  have "list_ex (\<lambda>k. code_block (exes s ! i) = vm_addr e k) [2..<vm_max]"
    by (rule assms(1) [unfolded layout_def list_all_nth_upt, THEN conjunct2, THEN conjunct2, THEN conjunct2,
          THEN conjunct2, rule_format, OF assms(2,3)])
  then obtain k where k: "k \<in> {2..<vm_max}" "code_block (exes s ! i) = vm_addr e k" unfolding list_ex_iff set_upt ..
  show thesis by (rule that [of k]) (use k in simp_all)
qed

lemma layout_blocks:
  assumes "layout e s" and "length (exes s) = max_exe"
  shows "blocks_off s"
proof -
  note L = assms(1) [unfolded layout_def]
  note at = L [THEN conjunct2, THEN conjunct1] L [THEN conjunct2, THEN conjunct2, THEN conjunct1]
  have "\<forall>k \<in> {2..<vm_max}. apart (vm_addr e k) block_size (exes_at s) (sizeof_exe_info * length (exes s))
      \<and> apart (vm_addr e k) block_size (info_at s) (sizeof_per_cpu_info * length (info s))"
    using L [THEN conjunct1, unfolded vm_ok_def list_all_iff set_upt] unfolding at assms(2) .
  then have o: "off_tables s (vm_addr e k)" if "2 \<le> k" "k < vm_max" for k
    using that unfolding off_tables_def by simp
  have "off_tables s (code_block (exes s ! i))" if "i < max_exe" "exe_used (exes s ! i)" for i
    by (rule layout_slot [OF assms(1) that]) (simp add: o)
  then show ?thesis unfolding blocks_off_def list_all_nth_upt by blast
qed

lemma chained_rest:
  assumes "do_chained_syscall c p r s = Some (r', s')" and "cenv_sound J e c" and "rest_inv e s"
  shows "rest_inv e s'"
proof -
  have k: "rest_inv e (upd_exe p (\<lambda>x. x\<lparr>success_cnt := success_cnt x + 1\<rparr>) (snd (snd (call_ptr c a r s))))" for a r
  proof -
    have "rest_inv e (snd (snd (call_ptr c a r s)))" using assms(2,3) by (simp add: cenv_sound_def)
    then show ?thesis by (auto simp: rest_inv_def exe_used_def intro!: layout_upd)
  qed
  show ?thesis
    using assms(1,3) k
    by (auto simp: do_chained_syscall_def Let_def split_beta split: if_splits option.splits)
qed

lemma note_miss_rest:
  fixes s :: "'s lkm_st_scheme"
  assumes "rest_inv e s" and "exe_used (exes s ! p)"
  shows "rest_inv e (note_miss a p r s)"
  using assms by (auto simp: rest_inv_def note_miss_def Let_def intro!: layout_upd)

lemma exe_turn_rest:
  assumes "cenv_sound J e c" and "module_inv J e s" and "exe_hit pid (ip r) s" and "exe_turn c pid r s = Some (r', s')"
  shows "module_inv J e s'"
proof -
  let ?p = "get_exe pid (ip r)"
  let ?s0 = "s\<lparr>ac := True\<rparr>"
  have ok: "cenv_ok J c" using assms(1) by (simp add: cenv_sound_def)
  obtain r1 a0 a1 s1 where b: "run_block c (code_block (exes ?s0 ! ?p)) r (fsbase c ?s0, 0) ?s0 = (r1, (a0, a1), s1)"
    by (metis prod.exhaust)
  have m0: "exe_inv J ?s0" "rest_inv e ?s0" using assms(2) by (simp_all add: module_inv_def rest_inv_def)
  have "rest_inv e (snd (snd (run_block c (code_block (exes ?s0 ! ?p)) r (fsbase c ?s0, 0) ?s0)))"
    using assms(1) m0(2) unfolding cenv_sound_def by blast
  then have s1: "rest_inv e s1" using b by simp
  have "slots_stay ?s0 (snd (snd (run_block c (code_block (exes ?s0 ! ?p)) r (fsbase c ?s0, 0) ?s0)))"
    using ok m0(1) unfolding cenv_ok_def by blast
  then have u: "exe_used (exes s1 ! ?p)"
    using slots_stayD [of ?s0 s1] exe_hit_used [OF assms(3)] b by simp
  obtain s2 where s2: "(if a0 = scast normal then do_chained_syscall c ?p r1 s1 else Some (r1, note_miss a0 ?p r1 s1)) = Some (r', s2)"
    and s': "s' = exe_report ?p s2"
    using assms(4) b by (auto simp: exe_turn_def Let_def split: option.splits)
  have "rest_inv e s2"
    using s2 s1 u chained_rest [OF _ assms(1), of ?p r1 s1] note_miss_rest [of e s1 ?p a0 r1] by (auto split: if_splits)
  moreover have "exe_inv J s'" using exe_turn_inv [OF ok _ assms(3,4)] assms(2) by (simp add: module_inv_def)
  ultimately show ?thesis using s' by (simp add: module_inv_def rest_inv_def)
qed

lemma exe_add_layout:
  fixes s :: "'s lkm_st_scheme"
  assumes "exe_inv J s" and "layout e s" and "exe_add e pid a s = Ret s'"
  shows "layout e s'"
proof (cases "status_code (exes s ! get_exe pid a) \<noteq> un_used \<or> sint (added s) > 62")
  case True
  with exe_add_skip [of s pid a e] assms(2,3) show ?thesis by simp
next
  case False
  have l: "length (exes s) = max_exe" using assms(1) by (simp add: exe_inv_def table_wf_def)
  note c = exe_add_claim [OF assms(3) l]
  have "sint (added s) = int (unat (added s))" using assms(1) by (intro sint_small) (simp add: exe_inv_def)
  with False have a: "unat (added s) \<le> 62" by linarith
  have i: "info s' = info s" "info_at s' = info_at s"
    using c(3) False by (cases s; cases s'; simp)+
  have n: "vm_calls s = unat (added s) + 2" using assms(2) by (simp add: layout_def)
  then have "2 \<le> vm_calls s \<and> vm_calls s < vm_max" using a by (simp add: vm_max_def)
  then have k: "vm_calls s \<in> set [2..<vm_max]" by simp
  have "list_ex (\<lambda>k. code_block (exes s' ! j) = vm_addr e k) [2..<vm_max]" if "j < max_exe" "exe_used (exes s' ! j)" for j
  proof (cases "j = get_exe pid a")
    case True
    then have "code_block (exes s' ! j) = vm_addr e (vm_calls s)" using c(1) False that l by simp
    with k show ?thesis unfolding list_ex_iff by blast
  next
    case False
    with c(1) \<open>\<not> (status_code (exes s ! get_exe pid a) \<noteq> un_used \<or> sint (added s) > 62)\<close> that
    have "exe_used (exes s ! j)" "exes s' ! j = exes s ! j" by simp_all
    with assms(2) that(1) show ?thesis by (simp only: layout_def list_all_nth_upt)
  qed
  moreover have "unat (added s + 1) = unat (added s) + 1" using a by (simp add: unat_word_ariths)
  ultimately show ?thesis
    using assms(2) c(2,4,5) False i n by (auto simp: layout_def list_all_nth_upt)
qed

lemma hot_scan_layout:
  fixes s :: "'s lkm_st_scheme"
  assumes "hot_scan ps e k s = Ret s'" and "exe_inv J s" and "layout e s"
  shows "layout e s'"
  using assms
proof (induction ps arbitrary: s)
  case (Cons p ps)
  let ?c = "caller (info s ! k) ! p"
  obtain s1 where a: "(if cnt ?c > scast hot_caller_th then exe_add e (cpid ?c) (rip ?c) s else Ret s) = Ret s1"
    and b: "hot_scan ps e k (upd_info k (upd_caller p (\<lambda>c. c\<lparr>cnt := 0\<rparr>)) s1) = Ret s'"
    using Cons.prems(1) by (auto simp: Let_def bind_res_eq_Ret)
  have "exe_inv J s1 \<and> layout e s1"
    using a Cons.prems exe_add_inv [of J s e] exe_add_layout [of J s e] by (auto split: if_splits)
  then show ?case by (intro Cons.IH [OF b]) simp_all
qed simp

lemma stat_func_layout:
  fixes s :: "'s lkm_st_scheme"
  assumes "stat_func e k now pid a ts s = Ret s'" and "exe_inv J s" and "layout e s"
  shows "layout e s'"
proof -
  let ?s1 = "upd_info k (\<lambda>x. x\<lparr>call_cnt := call_cnt x + 1\<rparr>) s"
  have m: "exe_inv J ?s1" "layout e ?s1" using assms(2,3) by simp_all
  have "layout e s2" if "milestone e k now ?s1 = Ret s2" for s2
    using that hot_scan_layout [OF _ m, of "[0..<max_caller]" k] m(2)
    by (auto simp: milestone_def bind_res_eq_Ret split: if_splits)
  with assms(1) m(2) show ?thesis
    by (auto simp: stat_func_def Let_def bind_res_eq_Ret split: if_splits)
qed

lemma zz_func_inv:
  assumes "cenv_sound J e c" and "zz_func e c x regs ts s = Some (Ret (regs', s'))" and "module_inv J e s"
  shows "module_inv J e s'"
proof -
  obtain r1 s1 where o: "exe_on_call c (cc_pid x) regs s = Some (Some (r1, s1))"
    and z: "(if sint (stat_flag s1) < 100 then bind_res (stat_func e (cc_cpu x) (cc_now x) (cc_pid x) (ip r1) ts s1)
        (\<lambda>s2. Ret (r1, s2)) else Ret (r1, s1)) = Ret (regs', s')"
    using assms(2) unfolding zz_func_def by (simp split: option.splits prod.splits)
  obtain t where t: "exe_loop c (cc_pid x) regs s = Some (Some (r1, t))" and s1: "s1 = t\<lparr>ac := False\<rparr>"
    using o by (auto simp: exe_on_call_def)
  have "module_inv J e t"
    using exe_loop_rule [OF t, of "\<lambda>_. module_inv J e"] exe_turn_rest [OF assms(1)] assms(3) by blast
  then have m: "stat_inv s1" "exe_inv J s1" "layout e s1" unfolding s1 by (simp_all add: module_inv_def rest_inv_def)
  show ?thesis
  proof (cases "sint (stat_flag s1) < 100")
    case True
    with z have "stat_func e (cc_cpu x) (cc_now x) (cc_pid x) (ip r1) ts s1 = Ret s'"
      by (auto simp: bind_res_eq_Ret)
    from stat_func_inv [OF this m(1,2)] stat_func_layout [OF this m(2,3)] show ?thesis
      by (simp add: module_inv_def rest_inv_def)
  next
    case False
    with z m show ?thesis by (simp add: module_inv_def rest_inv_def)
  qed
qed

lemma sysfs_show_inv:
  assumes "sysfs_show s = Ret (buf, s')" and "module_inv J e s"
  shows "module_inv J e s'"
proof -
  have "s' = s\<lparr>stat_flag := stat_flag s + 1\<rparr>" using assms(1) by (auto simp: sysfs_show_def split: option.splits)
  then show ?thesis
    using assms(2) exe_inv_cong [of s s'] by (simp add: module_inv_def rest_inv_def)
qed

lemma module_inv_blocks: "module_inv J e s \<Longrightarrow> blocks_off s"
  by (rule layout_blocks [of e]) (simp_all add: module_inv_def rest_inv_def exe_inv_def table_wf_def)

lemma inside_off_tables:
  assumes "pkt_inside buf s" and "pkt_slot buf s = Some i" and "blocks_off s"
  shows "exe_used (exes s ! i)" and "off_tables s (code_block (exes s ! i))"
proof -
  show u: "exe_used (exes s ! i)" using assms(1,2) by (simp add: pkt_inside_def)
  obtain pid a where "i = get_exe pid a" using assms(2) by (auto simp: pkt_slot_def Let_def split: if_splits)
  with blocks_offD [OF assms(3)] u show "off_tables s (code_block (exes s ! i))" by simp
qed

lemma store_inv:
  assumes "pkt_inside buf s" and "sysfs_store buf s = Ret (n, s')" and "module_inv J e s"
  shows "module_inv J e s'"
proof -
  note O = inside_off_tables [OF assms(1) _ module_inv_blocks [OF assms(3)]]
  have m: "exe_inv J s" "rest_inv e s" using assms(3) by (simp_all add: module_inv_def)
  have "rest_inv e (upd_exe i (\<lambda>x. x\<lparr>status_code := c\<rparr>) (s\<lparr>kmem := k\<rparr>))" if "pkt_slot buf s = Some i" for i c k
    using m(2) O(1) [OF that] by (auto simp: rest_inv_def intro!: layout_upd)
  with store_inside [OF assms(2,1) O(2)] m(2) have "rest_inv e s'" by (auto simp: rest_inv_def)
  with sysfs_store_inv(1) [OF m(1) assms(2,1) O(2)] show ?thesis by (simp add: module_inv_def)
qed

lemma mstep_inv: "mstep J e s s' \<Longrightarrow> module_inv J e s \<Longrightarrow> module_inv J e s'"
  by (induction rule: mstep.induct) (rule zz_func_inv sysfs_show_inv store_inv; assumption)+

lemma cpu_ok_zero: "cpu_ok info_zero"
  by (simp add: cpu_ok_def info_zero_def caller_zero_def table_wf_iff caller_used_def short_calls_def
      sum_list_replicate)

lemma zz_lkm_init_inv:
  assumes "zz_lkm_init e online mk_obj mk_file table s0 = Ret s" and "added s0 = 0" and "vm_calls s0 = 0"
    and "junk_keys e \<le> J" and "vm_ok e (nat (sint online))"
  shows "module_inv J e s"
proof -
  let ?xs = "map (\<lambda>i. (exes_junk e i)\<lparr>status_code := un_used\<rparr>) [0..<max_exe]"
  obtain s1 s2 where 1: "stat_init e online (printk ModuleInit s0) = Ret s1" and 2: "exe_init e s1 = Some s2"
    and s: "s = (sys_init mk_obj mk_file s2)\<lparr>zz_var := True, zz_sys_call_table := table\<rparr>"
    using assms(1) by (auto simp: zz_lkm_init_def bind_res_eq_Ret split: option.splits)
  have i1: "info s1 = replicate (nat (sint online)) info_zero" "added s1 = 0" "vm_calls s1 = 1" "info_at s1 = vm_addr e 0"
    using 1 assms(2,3) by (auto simp: stat_init_def vmalloc_def printk_def Let_def split: if_splits)
  have i2: "info s2 = info s1" "added s2 = 0" "exes s2 = ?xs" "vm_calls s2 = 2" "info_at s2 = info_at s1" "exes_at s2 = vm_addr e 1"
    using 2 i1 by (auto simp: exe_init_def vmalloc_def Let_def split: if_splits)
  have i3: "info s = info s2" "added s = added s2" "exes s = exes s2" "vm_calls s = vm_calls s2" "info_at s = info_at s2" "exes_at s = exes_at s2"
    by (simp_all add: s sys_init_def printk_def Let_def)
  have "table_wf exe_idx max_exe exe_key exe_used ?xs"
    by (simp add: table_wf_iff exe_used_def)
  then have "exe_inv J s" using i2 i3 assms(4) by (simp add: exe_inv_def junk_keys_def)
  moreover have "stat_inv s"
    using i1 i2 i3 cpu_ok_zero by (simp add: stat_inv_def list_all_iff)
  moreover have "layout e s"
    using i1 i2 i3 assms(5) by (simp add: layout_def list_all_nth_upt exe_used_def)
  ultimately show ?thesis by (simp add: module_inv_def rest_inv_def)
qed

lemma reachable_inv: "reachable J e s \<Longrightarrow> module_inv J e s"
proof (induction rule: reachable.induct)
  case (load online s0 mk_obj mk_file table s)
  then show ?case by (intro zz_lkm_init_inv)
next
  case (run s s')
  then show ?case by (blast intro: mstep_inv)
qed

section \<open>A round of the daemon\<close>

lemma daemon_write_step: "daemon_write s t \<Longrightarrow> mstep J e s t"
  by (auto simp: daemon_write_def store_pkt_def bind_res_eq_Ret intro: mstep.m_store daemon_pkt_inside(1))

lemma check_steps:
  assumes "check v d s = Ret (d', t)" and "module_inv J e s" and "small_images v"
  shows "(mstep J e)\<^sup>*\<^sup>* s t"
proof -
  have i: "exe_inv J s" "blocks_off s" using assms(2) module_inv_blocks [OF assms(2)] by (simp_all add: module_inv_def)
  note W = check_writes [OF assms(1) i assms(3)]
  have "(mstep J e)\<^sup>*\<^sup>* (s\<lparr>stat_flag := stat_flag s + 1\<rparr>) t"
    using W(1) by (rule rtranclp_mono [THEN predicate2D, rotated]) (auto intro: daemon_write_step)
  with mstep.m_show [OF W(2), of J e] show ?thesis by (rule converse_rtranclp_into_rtranclp)
qed

lemma steps_inv: "(mstep J e)\<^sup>*\<^sup>* s t \<Longrightarrow> module_inv J e s \<Longrightarrow> module_inv J e t"
  by (induction rule: rtranclp_induct) (auto intro: mstep_inv)

lemma daemon_steps:
  "daemon_rounds n v d s = Ret (d', t) \<Longrightarrow> module_inv J e s \<Longrightarrow> small_images v \<Longrightarrow> (mstep J e)\<^sup>*\<^sup>* s t"
proof (induction n arbitrary: d s)
  case (Suc n)
  then obtain d1 s1 where a: "check v d s = Ret (d1, s1)" and b: "daemon_rounds n v d1 s1 = Ret (d', t)"
    by (auto simp: bind_res_eq_Ret)
  note c = check_steps [OF a Suc.prems(2,3)]
  from Suc.IH [OF b steps_inv [OF c Suc.prems(2)] Suc.prems(3)] c show ?case by (meson rtranclp_trans)
qed simp

lemma reachable_steps: "(mstep J e)\<^sup>*\<^sup>* s t \<Longrightarrow> reachable J e s \<Longrightarrow> reachable J e t"
  by (induction rule: rtranclp_induct) (auto intro: reachable.run)

section \<open>The table as a map\<close>

lemma hit_tab: "exe_hit pid a s = (\<exists>x. block_tab s (pid, a) = Some x \<and> status_code x = normal)"
  by (auto simp: exe_hit_def block_tab_def tab_of_def exe_used_def exe_key_def exe_idx_def Let_def status_defs)

lemma add_tab:
  assumes "exe_inv J s" and "exe_add e pid a s = Ret s'"
  shows "\<exists>x. code_block x = vm_addr e (vm_calls s) \<and> status_code x = un_init
    \<and> block_tab s' = (if exe_used (exes s ! get_exe pid a) \<or> sint (added s) > 62 then block_tab s
                      else (block_tab s)((pid, a) \<mapsto> x))"
proof -
  let ?p = "exes s ! get_exe pid a"
  let ?x = "?p\<lparr>exe_pid := pid, RIP := a, code_block := vm_addr e (vm_calls s), status_code := un_init\<rparr>"
  have wf: "table_wf exe_idx max_exe exe_key exe_used (exes s)" using assms(1) by (simp add: exe_inv_def)
  have k: "exe_key ?x = (pid, a)" "exe_idx (pid, a) = get_exe pid a" "exe_used ?x"
    by (simp_all add: exe_key_def exe_idx_def exe_used_def status_defs)
  have "block_tab s' = (if exe_used ?p \<or> sint (added s) > 62 then block_tab s else (block_tab s)((pid, a) \<mapsto> ?x))"
  proof (cases "exe_used ?p \<or> sint (added s) > 62")
    case True
    then have "s' = s" using exe_add_skip [of s pid a e] assms(2) by (simp add: exe_used_def)
    with True show ?thesis by simp
  next
    case False
    then have "exes s' = (exes s)[exe_idx (exe_key ?x) := ?x]"
      using exe_add_claim(1) [OF assms(2) table_wf_length [OF wf]] k by (simp add: exe_used_def)
    moreover have "\<not> exe_used (exes s ! exe_idx (exe_key ?x))" using False k by simp
    ultimately show ?thesis
      using exe_tab.tab_of_claim [OF wf _ k(3)] False k(1) by (simp add: block_tab_def)
  qed
  then show ?thesis by (intro exI [of _ ?x]) simp
qed

lemma store_tab:
  assumes "exe_inv J s" and "blocks_off s" and "block_tab s (pkt_pid p, pkt_RIP p) = Some x"
    and "unat (pkt_offset p) + length bs \<le> block_size"
    and "sysfs_store (pkt_bytes p @ bs) s = Ret (n, s')"
  shows "block_tab s' = (block_tab s)((pkt_pid p, pkt_RIP p) :=
    (if pkt_status p = un_used then None else Some (x\<lparr>status_code := pkt_status p\<rparr>)))"
proof -
  let ?k = "(pkt_pid p, pkt_RIP p)"
  let ?i = "get_exe (pkt_pid p) (pkt_RIP p)"
  let ?x = "x\<lparr>status_code := pkt_status p\<rparr>"
  have wf: "table_wf exe_idx max_exe exe_key exe_used (exes s)" using assms(1) by (simp add: exe_inv_def)
  have x: "x = exes s ! ?i" "exe_used (exes s ! ?i)" "exe_key (exes s ! ?i) = ?k"
    using assms(3) by (auto simp: block_tab_def tab_of_def exe_idx_def Let_def split: if_splits)
  have sl: "pkt_slot (pkt_bytes p @ bs) s = Some ?i"
    using x(3) by (simp add: pkt_slot_def enc_simps exe_key_def)
  then have ins: "pkt_inside (pkt_bytes p @ bs) s"
    using x(2) assms(4) by (simp add: pkt_inside_def enc_simps sizeof_recv_pkt_def)
  have e: "exes s' = (exes s)[?i := ?x]"
    using store_inside [OF assms(5) ins inside_off_tables(2) [OF ins _ assms(2)]] sl x(1)
    by (auto simp: upd_exe_def enc_simps)
  have k: "exe_key ?x = exe_key (exes s ! ?i)" "exe_key ?x = ?k" "exe_used ?x = (pkt_status p \<noteq> un_used)"
    using x by (simp_all add: exe_key_def exe_used_def)
  show ?thesis
    unfolding block_tab_def e exe_tab.tab_of_update [OF wf k(1) x(2) get_exe_less] k(2,3) by simp
qed

text \<open>
  C2: The table of code blocks implements a partial map from (process, address) to blocks, although
  every operation looks at one slot only. A block is run exactly when the map holds a normal block
  for the key. Claiming a slot adds the key with a fresh, not yet initialised block, or leaves the
  map alone when the slot is taken or the 63 claims are used up. A packet for a key of the map that
  ends within its block of 160 pages, where no block overlaps the tables,
  changes the status of that key's block, removing the key if the status says unused, and no other.
\<close>

theorem table_refines:
  assumes "exe_inv J s"
  shows "(exe_hit pid a s \<longleftrightarrow> (\<exists>x. block_tab s (pid, a) = Some x \<and> status_code x = normal))
    \<and> (\<forall>s'. exe_add e pid a s = Ret s' \<longrightarrow> (\<exists>x. code_block x = vm_addr e (vm_calls s) \<and> status_code x = un_init
         \<and> block_tab s' = (if exe_used (exes s ! get_exe pid a) \<or> sint (added s) > 62 then block_tab s
                           else (block_tab s)((pid, a) \<mapsto> x))))
    \<and> (\<forall>p bs x n s'. blocks_off s \<longrightarrow> block_tab s (pkt_pid p, pkt_RIP p) = Some x
         \<longrightarrow> unat (pkt_offset p) + length bs \<le> block_size
         \<longrightarrow> sysfs_store (pkt_bytes p @ bs) s = Ret (n, s')
         \<longrightarrow> block_tab s' = (block_tab s)((pkt_pid p, pkt_RIP p) :=
               (if pkt_status p = un_used then None else Some (x\<lparr>status_code := pkt_status p\<rparr>))))"
  using hit_tab [of pid a s] add_tab [OF assms] store_tab [OF assms] by blast

lemma lkm_st0_tab: "block_tab lkm_st0 (7, 0x400) = Some exe_run0"
  using nth_exe_st1
  by (simp add: block_tab_def tab_of_def lkm_st0_simps exe_idx_def exe_used_def exe_key_def exe_run0_def status_defs)

theorem table_refines_witness:
  "exe_hit 7 0x400 lkm_st0
   \<and> (\<exists>n s'. sysfs_store (pkt_bytes pkt0 @ [1, 2]) lkm_st0 = Ret (n, s')
        \<and> block_tab s' (7, 0x400) = Some (exe_run0\<lparr>status_code := 0\<rparr>))"
proof -
  note R = table_refines [OF lkm_st0_inv(1), of 7 "0x400" uenv0]
  have h: "exe_hit 7 0x400 lkm_st0" using R lkm_st0_tab by (simp add: exe_run0_def)
  have x: "exes lkm_st0 ! get_exe 7 0x400 = exe_run0" by (simp add: lkm_st0_simps nth_exe_st1)
  have m: "mapped (kmem lkm_st0) (0x700000000 + 16) 2"
    by (simp add: mapped_def lkm_st0_simps upt_rec)
  obtain m' where s: "sysfs_store (pkt_bytes pkt0 @ [1, 2]) lkm_st0 = Ret (24 + length [1, 2 :: u8],
      upd_exe (get_exe (pkt_pid pkt0) (pkt_RIP pkt0)) (\<lambda>x. x\<lparr>status_code := pkt_status pkt0\<rparr>) (lkm_st0\<lparr>kmem := m'\<rparr>))"
  proof (rule store_writes [OF refl refl, of lkm_st0 pkt0 "[1, 2]"])
    show "mapped (kmem lkm_st0) (code_block (exes lkm_st0 ! get_exe (pkt_pid pkt0) (pkt_RIP pkt0)) + pkt_offset pkt0)
        (length [1, 2 :: u8])"
      using m x by (simp only: pkt0_def recv_pkt.simps) (simp add: exe_run0_def numeral_2_eq_2)
  qed (use x in \<open>simp_all add: pkt0_def exe_run0_def\<close>)
  then obtain n s' where s: "sysfs_store (pkt_bytes pkt0 @ [1, 2]) lkm_st0 = Ret (n, s')" by blast
  have "block_tab s' (7, 0x400) = Some (exe_run0\<lparr>status_code := 0\<rparr>)"
    using R [THEN conjunct2, THEN conjunct2, rule_format, OF lkm_st0_blocks, of pkt0 exe_run0 "[1, 2]" n s'] s lkm_st0_tab
    by (simp add: pkt0_def status_defs block_size_def)
  with h s show ?thesis by blast
qed

lemma uenv0_vm_ok: "vm_ok uenv0 (nat (sint (1 :: cint)))"
  by (simp add: vm_ok_def uenv0_def apart_def block_size_def sizeof_defs max_exe_def vm_max_def upt_rec)

section \<open>The loaded module\<close>

text \<open>
  C1: In every state the loaded module can reach, by system calls, reads of the sysfs file and packets
  that stay in their block, in any order, reading the file fits its page and gives back exactly the
  blocks in use, no (process, address) pair is held twice, the caller statistics of every CPU are
  consistent, and the block of every slot in use lies outside both tables, so that no such packet
  reaches them; any number of rounds of the daemon leads to such a state again, if the translated code
  fits its 160 pages. Asked of translated blocks and
  chained system calls: they keep the tables; of vmalloc: the blocks do not overlap the tables, and
  at most 10 unused slots of the new table hold by chance a key that hashes to them.
\<close>

theorem module_safe:
  assumes "reachable J e s" and "J \<le> 10"
  shows "(\<exists>buf. sysfs_show s = Ret (buf, s\<lparr>stat_flag := stat_flag s + 1\<rparr>) \<and> length buf \<le> 4088
       \<and> parse_exes (length buf div sizeof_exe_info) buf = filter exe_used (exes s))
    \<and> distinct (map exe_key (filter exe_used (exes s))) \<and> stat_inv s \<and> blocks_off s
    \<and> (\<forall>n v d d' t. small_images v \<longrightarrow> daemon_rounds n v d s = Ret (d', t) \<longrightarrow> reachable J e t)"
proof -
  note M = reachable_inv [OF assms(1)]
  have i: "exe_inv J s" "stat_inv s" using M by (simp_all add: module_inv_def rest_inv_def)
  have "\<exists>buf. sysfs_show s = Ret (buf, s\<lparr>stat_flag := stat_flag s + 1\<rparr>) \<and> length buf \<le> 4088
       \<and> parse_exes (length buf div sizeof_exe_info) buf = filter exe_used (exes s)"
    using used_bound [OF i(1)] assms(2) parse_read [of "filter exe_used (exes s)"]
    by (simp add: sysfs_show_def show_slots_eq length_images)
  moreover have "distinct (map exe_key (filter exe_used (exes s)))"
    using exe_tab.keys_distinct i(1) by (simp add: exe_inv_def)
  moreover have "reachable J e t" if "small_images v" "daemon_rounds n v d s = Ret (d', t)" for n v d d' t
    using reachable_steps [OF daemon_steps [OF that(2) M that(1)] assms(1)] .
  ultimately show ?thesis using i(2) module_inv_blocks [OF M] by blast
qed

theorem module_safe_witness:
  "\<exists>s. zz_lkm_init uenv0 1 True True 0 (lkm_st0\<lparr>added := 0\<rparr>) = Ret s \<and> reachable 1 uenv0 s \<and> blocks_off s
     \<and> (\<exists>buf. sysfs_show s = Ret (buf, s\<lparr>stat_flag := stat_flag s + 1\<rparr>) \<and> length buf \<le> 4088)"
proof -
  obtain s where s: "zz_lkm_init uenv0 1 True True 0 (lkm_st0\<lparr>added := 0\<rparr>) = Ret s"
    by (simp add: zz_lkm_init_def stat_init_def exe_init_def vmalloc_def uenv0_def Let_def printk_def lkm_st0_def
        stat_st.extend_def exe_st.extend_def stat_st.fields_def lkm_st.fields_def exe_st1_def exe_st0_def)
  have j: "junk_keys uenv0 \<le> 1"
    using n_placed_replicate [of exe_idx exe_key max_exe "exe_zero\<lparr>status_code := un_used\<rparr>"]
    by (simp add: junk_keys_def uenv0_def map_replicate_const)
  have r: "reachable 1 uenv0 s"
    by (rule reachable.load [OF j uenv0_vm_ok _ _ s])
      (simp_all add: lkm_st0_def stat_st.extend_def exe_st.extend_def exe_st1_def exe_st0_def)
  from module_safe [OF r] s r show ?thesis by auto
qed

end
