(* ===== verification/Entry.thy ===== *)
theory Entry
  imports Regs
begin

text \<open>
  The patched system call entry \<open>kernel_modify/common.c\<close>. The state of the running thread is
  its saved registers, the flag words of \<open>thread_info\<close>, whether interrupts are on, the calls
  made to code outside the file (\<open>t_trace\<close>, in order), and the rest of the world. Every call
  to such code is \<open>ext v c s\<close> for a call \<open>c\<close> with its arguments: it returns a value and may
  change everything but the trace. The configuration is that of \<open>.config\<close>: no context
  tracking, no entry debugging, no lock proving; \<open>CONFIG_IA32_EMULATION\<close>,
  \<open>CONFIG_SECCOMP\<close> and \<open>CONFIG_COMPAT\<close> set. \<open>x32_abi\<close> is \<open>CONFIG_X86_X32_ABI\<close>, which the
  build system decides.
\<close>

section \<open>Data\<close>

datatype tflag = SYSCALL_TRACE | SYSCALL_EMU | SECCOMP | SYSCALL_TRACEPOINT | SYSCALL_AUDIT
  | SINGLESTEP | SIGPENDING | NOTIFY_RESUME | UPROBE | NEED_RESCHED | USER_RETURN_NOTIFY
  | PATCH_PENDING | NEED_FPU_LOAD | WORK_SYSCALL_ENTRY

record seccomp_data =
  sd_arch :: bool
  sd_nr :: cint
  sd_ip :: u64
  sd_args :: "u64 list"

datatype ecall =
    KtimeBoot
  | TracehookEntry
  | SecureComputing seccomp_data
  | TraceSysEnter u64
  | AuditEntry u64 u64 u64 u64 u64
  | SysCall u64
  | X32SysCall u64
  | Ia32SysCall u32
  | HookCall u64
  | AuditExit
  | TraceSysExit u64
  | TracehookExit bool
  | RseqSyscall
  | Schedule
  | UprobeNotifyResume
  | KlpUpdate
  | DoSignal
  | TracehookNotifyResume
  | RseqNotifyResume
  | FireUserReturn
  | AddrLimitCheck
  | FpregsAssert
  | SwitchFpuReturn
  | UserEnter
  | MdsClear

record 'w thr =
  t_regs :: pt_regs
  ti_flags :: u32
  ti_status :: u32
  t_irq :: bool
  t_trace :: "ecall list"
  t_world :: 'w

record 'w eenv =
  tif :: "tflag \<Rightarrow> u32"
  TS_COMPAT :: u32
  TS_I386_REGS_POKED :: u32
  NR_syscalls :: u64
  X32_SYSCALL_BIT :: u64
  X32_NR_syscalls :: u64
  IA32_NR_syscalls :: u32
  USER32_CS :: u64
  USER_DS :: u64
  EFLAGS_RF :: u64
  EFLAGS_TF :: u64
  E_FAULT :: u64
  x32_abi :: bool
  array_index_nospec :: "u64 \<Rightarrow> u64 \<Rightarrow> u64"
  in_ia32_syscall :: "'w thr \<Rightarrow> bool"
  landing_pad :: "'w thr \<Rightarrow> u64"
  get_user32 :: "'w thr \<Rightarrow> u64 \<Rightarrow> u32 option"
  ext :: "ecall \<Rightarrow> 'w thr \<Rightarrow> u64 \<times> 'w thr"

section \<open>Calls out of the file\<close>

definition call :: "'w eenv \<Rightarrow> ecall \<Rightarrow> 'w thr \<Rightarrow> u64 \<times> 'w thr" where
  "call v c s = (let (r, s1) = ext v c s in (r, s1\<lparr>t_trace := t_trace s @ [c]\<rparr>))"

definition call_ign :: "'w eenv \<Rightarrow> ecall \<Rightarrow> 'w thr \<Rightarrow> 'w thr" where
  "call_ign v c s = snd (call v c s)"

definition call_if :: "bool \<Rightarrow> 'w eenv \<Rightarrow> ecall \<Rightarrow> 'w thr \<Rightarrow> 'w thr" where
  "call_if b v c s = (if b then call_ign v c s else s)"

section \<open>Entry work\<close>

text \<open>The architecture is 64 bit iff \<open>arch64\<close>.\<close>

definition do_audit_syscall_entry :: "'w eenv \<Rightarrow> bool \<Rightarrow> 'w thr \<Rightarrow> 'w thr" where
  "do_audit_syscall_entry v arch64 s =
     (let r = t_regs s in
      if arch64 then call_ign v (AuditEntry (orig_ax r) (di r) (si r) (dx r) (r10 r)) s
      else call_ign v (AuditEntry (orig_ax r) (bx r) (cx r) (dx r) (si r)) s)"

definition mk_seccomp_data :: "bool \<Rightarrow> pt_regs \<Rightarrow> seccomp_data" where
  "mk_seccomp_data arch64 r = \<lparr>sd_arch = arch64, sd_nr = ucast (orig_ax r), sd_ip = ip r,
     sd_args = (if arch64 then [di r, si r, dx r, r10 r, r8 r, r9 r]
                else [bx r, cx r, dx r, si r, di r, bp r])\<rparr>"

definition syscall_trace_enter :: "'w eenv \<Rightarrow> 'w thr \<Rightarrow> u64 \<times> 'w thr" where
  "syscall_trace_enter v s =
     (let arch64 = (\<not> in_ia32_syscall v s);
          work = ti_flags s;
          (ret1, s1) = (if test work (tif v SYSCALL_TRACE OR tif v SYSCALL_EMU)
                        then call v TracehookEntry s else (0, s))
      in if test work (tif v SYSCALL_TRACE OR tif v SYSCALL_EMU)
            \<and> (ret1 \<noteq> 0 \<or> test work (tif v SYSCALL_EMU)) then (-1, s1) else
      let (ret2, s2) = (if test work (tif v SECCOMP)
                        then call v (SecureComputing (mk_seccomp_data arch64 (t_regs s1))) s1
                        else (ret1, s1))
      in if test work (tif v SECCOMP) \<and> ret2 = -1 then (ret2, s2) else
      let s3 = call_if (test (ti_flags s2) (tif v SYSCALL_TRACEPOINT)) v
                 (TraceSysEnter (orig_ax (t_regs s2))) s2;
          s4 = do_audit_syscall_entry v arch64 s3
      in (if ret2 \<noteq> 0 then ret2 else orig_ax (t_regs s4), s4))"

section \<open>Exit work\<close>

definition EXIT_TO_USERMODE_LOOP_FLAGS :: "'w eenv \<Rightarrow> u32" where
  "EXIT_TO_USERMODE_LOOP_FLAGS v = tif v SIGPENDING OR tif v NOTIFY_RESUME OR tif v UPROBE OR
     tif v NEED_RESCHED OR tif v USER_RETURN_NOTIFY OR tif v PATCH_PENDING"

text \<open>One pass of the loop, up to the reload of the flags.\<close>

definition exit_pass :: "'w eenv \<Rightarrow> u32 \<Rightarrow> 'w thr \<Rightarrow> 'w thr" where
  "exit_pass v cached s =
     (let s1 = call_if (test cached (tif v NEED_RESCHED)) v Schedule (s\<lparr>t_irq := True\<rparr>);
          s2 = call_if (test cached (tif v UPROBE)) v UprobeNotifyResume s1;
          s3 = call_if (test cached (tif v PATCH_PENDING)) v KlpUpdate s2;
          s4 = call_if (test cached (tif v SIGPENDING)) v DoSignal s3;
          s5 = (if test cached (tif v NOTIFY_RESUME)
                then call_ign v RseqNotifyResume (call_ign v TracehookNotifyResume
                       (s4\<lparr>ti_flags := ti_flags s4 AND NOT (tif v NOTIFY_RESUME)\<rparr>))
                else s4);
          s6 = call_if (test cached (tif v USER_RETURN_NOTIFY)) v FireUserReturn s5
      in s6\<lparr>t_irq := False\<rparr>)"

text \<open>\<open>None\<close>: there is always more work, and the thread never returns to user mode.\<close>

partial_function (option) exit_to_usermode_loop :: "'w eenv \<Rightarrow> u32 \<Rightarrow> 'w thr \<Rightarrow> 'w thr option" where
  "exit_to_usermode_loop v cached s =
     (let s1 = exit_pass v cached s
      in if \<not> test (ti_flags s1) (EXIT_TO_USERMODE_LOOP_FLAGS v) then Some s1
         else exit_to_usermode_loop v (ti_flags s1) s1)"

definition prepare_exit_to_usermode :: "'w eenv \<Rightarrow> 'w thr \<Rightarrow> 'w thr option" where
  "prepare_exit_to_usermode v s =
     (let s1 = call_ign v AddrLimitCheck s;
          cached = ti_flags s1
      in case (if test cached (EXIT_TO_USERMODE_LOOP_FLAGS v)
               then exit_to_usermode_loop v cached s1 else Some s1) of
           None \<Rightarrow> None
         | Some s2 \<Rightarrow>
             let cached2 = ti_flags s2;
                 s3 = call_ign v FpregsAssert s2;
                 s4 = call_if (test cached2 (tif v NEED_FPU_LOAD)) v SwitchFpuReturn s3;
                 s5 = s4\<lparr>ti_status := ti_status s4 AND NOT (TS_COMPAT v OR TS_I386_REGS_POKED v)\<rparr>
             in Some (call_ign v MdsClear (call_ign v UserEnter s5)))"

definition SYSCALL_EXIT_WORK_FLAGS :: "'w eenv \<Rightarrow> u32" where
  "SYSCALL_EXIT_WORK_FLAGS v = tif v SYSCALL_TRACE OR tif v SYSCALL_AUDIT OR tif v SINGLESTEP OR
     tif v SYSCALL_TRACEPOINT"

definition syscall_slow_exit_work :: "'w eenv \<Rightarrow> u32 \<Rightarrow> 'w thr \<Rightarrow> 'w thr" where
  "syscall_slow_exit_work v cached s =
     (let s1 = call_ign v AuditExit s;
          s2 = call_if (test cached (tif v SYSCALL_TRACEPOINT)) v (TraceSysExit (ax (t_regs s1))) s1;
          step = (cached AND (tif v SINGLESTEP OR tif v SYSCALL_EMU) = tif v SINGLESTEP)
      in call_if (step \<or> test cached (tif v SYSCALL_TRACE)) v (TracehookExit step) s2)"

definition syscall_return_slowpath :: "'w eenv \<Rightarrow> 'w thr \<Rightarrow> 'w thr option" where
  "syscall_return_slowpath v s =
     (let cached = ti_flags s;
          s1 = call_ign v RseqSyscall s;
          s2 = (if test cached (SYSCALL_EXIT_WORK_FLAGS v) then syscall_slow_exit_work v cached s1 else s1)
      in prepare_exit_to_usermode v (s2\<lparr>t_irq := False\<rparr>))"

section \<open>64-bit system calls\<close>

definition set_ax :: "u64 \<Rightarrow> 'w thr \<Rightarrow> 'w thr" where
  "set_ax a s = s\<lparr>t_regs := (t_regs s)\<lparr>ax := a\<rparr>\<rparr>"

text \<open>The dispatch through \<open>sys_call_table\<close> or \<open>x32_sys_call_table\<close>.\<close>

definition dispatch_64 :: "'w eenv \<Rightarrow> u64 \<Rightarrow> 'w thr \<Rightarrow> 'w thr" where
  "dispatch_64 v nr s =
     (if nr < NR_syscalls v
      then let (r, s1) = call v (SysCall (array_index_nospec v nr (NR_syscalls v))) s in set_ax r s1
      else if x32_abi v \<and> test nr (X32_SYSCALL_BIT v)
             \<and> nr AND NOT (X32_SYSCALL_BIT v) < X32_NR_syscalls v
      then let (r, s1) = call v (X32SysCall (array_index_nospec v (nr AND NOT (X32_SYSCALL_BIT v))
                                   (X32_NR_syscalls v))) s in set_ax r s1
      else s)"

text \<open>
  \<open>zz_var\<close> is \<open>None\<close> when no module has set the pointer. The hook gets the saved registers
  and the time of entry; it returns \<open>None\<close> when it does not return.
\<close>

type_synonym 'w zz_hook = "u64 \<Rightarrow> 'w thr \<Rightarrow> 'w thr option"

definition run_hook :: "'w zz_hook option \<Rightarrow> u64 \<Rightarrow> 'w thr \<Rightarrow> 'w thr option" where
  "run_hook zz ts s =
     (case zz of
        None \<Rightarrow> Some s
      | Some f \<Rightarrow>
          (case f ts s of
             None \<Rightarrow> None
           | Some s1 \<Rightarrow> Some (s1\<lparr>t_trace := t_trace s @ [HookCall ts]\<rparr>)))"

definition do_syscall_64 :: "'w eenv \<Rightarrow> 'w zz_hook option \<Rightarrow> u64 \<Rightarrow> 'w thr \<Rightarrow> 'w thr option" where
  "do_syscall_64 v zz nr s =
     (let (ts, s0) = call v KtimeBoot s;
          s1 = s0\<lparr>t_irq := True\<rparr>;
          (nr1, s2) = (if test (ti_flags s1) (tif v WORK_SYSCALL_ENTRY)
                       then syscall_trace_enter v s1 else (nr, s1));
          s3 = dispatch_64 v nr1 s2
      in case run_hook zz ts s3 of None \<Rightarrow> None | Some s4 \<Rightarrow> syscall_return_slowpath v s4)"

section \<open>32-bit system calls\<close>

definition do_syscall_32_irqs_on :: "'w eenv \<Rightarrow> 'w thr \<Rightarrow> 'w thr option" where
  "do_syscall_32_irqs_on v s =
     (let nr = (ucast (orig_ax (t_regs s)) :: u32);
          s1 = s\<lparr>ti_status := ti_status s OR TS_COMPAT v\<rparr>;
          (nr1, s2) = (if test (ti_flags s1) (tif v WORK_SYSCALL_ENTRY)
                       then let (r, s2) = syscall_trace_enter v s1 in (ucast r, s2) else (nr, s1));
          s3 = (if nr1 < IA32_NR_syscalls v
                then let (r, s3) = call v (Ia32SysCall (ucast (array_index_nospec v (ucast nr1)
                           (ucast (IA32_NR_syscalls v))))) s2 in set_ax r s3
                else s2)
      in syscall_return_slowpath v s3)"

definition do_int80_syscall_32 :: "'w eenv \<Rightarrow> 'w thr \<Rightarrow> 'w thr option" where
  "do_int80_syscall_32 v s = do_syscall_32_irqs_on v (s\<lparr>t_irq := True\<rparr>)"

text \<open>
  The low half of \<open>bp\<close> is read from the user stack; a failed \<open>__get_user\<close> stores zero. The
  result is true for a return by SYSRETL.
\<close>

definition set_low32 :: "u64 \<Rightarrow> u32 \<Rightarrow> u64" where
  "set_low32 a w = (a AND NOT 0xFFFFFFFF) OR ucast w"

definition do_fast_syscall_32 :: "'w eenv \<Rightarrow> 'w thr \<Rightarrow> (bool \<times> 'w thr) option" where
  "do_fast_syscall_32 v s =
     (let pad = landing_pad v s;
          s1 = s\<lparr>t_regs := (t_regs s)\<lparr>ip := pad\<rparr>, t_irq := True\<rparr>;
          setbp = (\<lambda>w. s1\<lparr>t_regs := (t_regs s1)\<lparr>bp := set_low32 (bp (t_regs s1)) w\<rparr>\<rparr>)
      in case get_user32 v s1 (ucast (ucast (sp (t_regs s1)) :: u32)) of
           None \<Rightarrow>
             map_option (\<lambda>s2. (False, s2))
               (prepare_exit_to_usermode v (set_ax (- E_FAULT v) ((setbp 0)\<lparr>t_irq := False\<rparr>)))
         | Some w \<Rightarrow>
             map_option (\<lambda>s2. let r = t_regs s2 in
               (cs r = USER32_CS v \<and> ss r = USER_DS v \<and> ip r = pad
                  \<and> eflags r AND (EFLAGS_RF v OR EFLAGS_TF v) = 0, s2))
               (do_syscall_32_irqs_on v (setbp w)))"

section \<open>What is said of a call\<close>

text \<open>The calls out of the file by what they are for; \<open>adds P s s'\<close>: only calls of that kind were made.\<close>

primrec dispatching :: "ecall \<Rightarrow> bool" where
  "dispatching KtimeBoot = False"
| "dispatching TracehookEntry = False"
| "dispatching (SecureComputing d) = False"
| "dispatching (TraceSysEnter a) = False"
| "dispatching (AuditEntry a b c d e) = False"
| "dispatching (SysCall a) = True"
| "dispatching (X32SysCall a) = True"
| "dispatching (Ia32SysCall a) = True"
| "dispatching (HookCall a) = False"
| "dispatching AuditExit = False"
| "dispatching (TraceSysExit a) = False"
| "dispatching (TracehookExit a) = False"
| "dispatching RseqSyscall = False"
| "dispatching Schedule = False"
| "dispatching UprobeNotifyResume = False"
| "dispatching KlpUpdate = False"
| "dispatching DoSignal = False"
| "dispatching TracehookNotifyResume = False"
| "dispatching RseqNotifyResume = False"
| "dispatching FireUserReturn = False"
| "dispatching AddrLimitCheck = False"
| "dispatching FpregsAssert = False"
| "dispatching SwitchFpuReturn = False"
| "dispatching UserEnter = False"
| "dispatching MdsClear = False"

definition entry_work :: "ecall \<Rightarrow> bool" where
  "entry_work c = (case c of KtimeBoot \<Rightarrow> True | TracehookEntry \<Rightarrow> True | SecureComputing d \<Rightarrow> True
     | TraceSysEnter a \<Rightarrow> True | AuditEntry a b cc d e \<Rightarrow> True | _ \<Rightarrow> False)"

definition hooking :: "ecall \<Rightarrow> bool" where
  "hooking c = (case c of HookCall ts \<Rightarrow> True | _ \<Rightarrow> False)"

definition exit_work :: "ecall \<Rightarrow> bool" where
  "exit_work c \<longleftrightarrow> \<not> entry_work c \<and> \<not> dispatching c \<and> \<not> hooking c"

definition adds :: "(ecall \<Rightarrow> bool) \<Rightarrow> 'w thr \<Rightarrow> 'w thr \<Rightarrow> bool" where
  "adds P s s' \<longleftrightarrow> (\<exists>cs. t_trace s' = t_trace s @ cs \<and> list_all P cs)"

text \<open>Whether the entry work refuses the call: ptrace or seccomp asks for it to be skipped.\<close>

definition entry_denies :: "'w eenv \<Rightarrow> 'w thr \<Rightarrow> bool" where
  "entry_denies v s \<longleftrightarrow> test (ti_flags s) (tif v WORK_SYSCALL_ENTRY)
     \<and> (let tr = test (ti_flags s) (tif v SYSCALL_TRACE OR tif v SYSCALL_EMU);
            s1 = call_if tr v TracehookEntry s
        in tr \<and> (test (ti_flags s) (tif v SYSCALL_EMU) \<or> fst (call v TracehookEntry s) \<noteq> 0)
           \<or> test (ti_flags s) (tif v SECCOMP)
             \<and> fst (call v (SecureComputing (mk_seccomp_data (\<not> in_ia32_syscall v s) (t_regs s1))) s1) = - 1)"

definition to_hook :: "'w eenv \<Rightarrow> u64 \<Rightarrow> 'w thr \<Rightarrow> u64 \<times> 'w thr" where
  "to_hook v nr s =
     (let (ts, s0) = call v KtimeBoot s;
          s1 = s0\<lparr>t_irq := True\<rparr>;
          (nr1, s2) = (if test (ti_flags s1) (tif v WORK_SYSCALL_ENTRY)
                       then syscall_trace_enter v s1 else (nr, s1))
      in (ts, dispatch_64 v nr1 s2))"

definition flags_sub :: "u32 \<Rightarrow> u32 \<Rightarrow> bool" where
  "flags_sub a b \<longleftrightarrow> a AND NOT b = 0"

definition exit_quiet :: "'w eenv \<Rightarrow> bool" where
  "exit_quiet v \<longleftrightarrow> (\<forall>c \<in> {AddrLimitCheck, FpregsAssert, SwitchFpuReturn, UserEnter, MdsClear}. \<forall>s.
     flags_sub (ti_flags (snd (ext v c s))) (ti_flags s) \<and> (\<not> t_irq s \<longrightarrow> \<not> t_irq (snd (ext v c s)))
     \<and> ti_status (snd (ext v c s)) = ti_status s)"

definition work_done :: "'w eenv \<Rightarrow> bool" where
  "work_done v \<longleftrightarrow> (\<forall>c s. exit_work c \<longrightarrow> flags_sub (ti_flags (snd (ext v c s))) (ti_flags s))
     \<and> (\<forall>s. \<not> test (ti_flags (snd (ext v Schedule s))) (tif v NEED_RESCHED)
          \<and> \<not> test (ti_flags (snd (ext v UprobeNotifyResume s))) (tif v UPROBE)
          \<and> \<not> test (ti_flags (snd (ext v KlpUpdate s))) (tif v PATCH_PENDING)
          \<and> \<not> test (ti_flags (snd (ext v DoSignal s))) (tif v SIGPENDING)
          \<and> \<not> test (ti_flags (snd (ext v FireUserReturn s))) (tif v USER_RETURN_NOTIFY))"

definition tif0 :: "tflag \<Rightarrow> u32" where
  "tif0 f = (case f of SYSCALL_TRACE \<Rightarrow> 1 | NOTIFY_RESUME \<Rightarrow> 2 | SIGPENDING \<Rightarrow> 4 | NEED_RESCHED \<Rightarrow> 8
     | SINGLESTEP \<Rightarrow> 16 | SYSCALL_EMU \<Rightarrow> 64 | SYSCALL_AUDIT \<Rightarrow> 128 | SECCOMP \<Rightarrow> 256
     | USER_RETURN_NOTIFY \<Rightarrow> 2048 | UPROBE \<Rightarrow> 4096 | PATCH_PENDING \<Rightarrow> 8192 | NEED_FPU_LOAD \<Rightarrow> 16384
     | SYSCALL_TRACEPOINT \<Rightarrow> 0x10000000 | WORK_SYSCALL_ENTRY \<Rightarrow> 0x100001C1)"

definition clear_flag :: "tflag \<Rightarrow> unit thr \<Rightarrow> unit thr" where
  "clear_flag f s = s\<lparr>ti_flags := ti_flags s AND NOT (tif0 f)\<rparr>"

text \<open>A kernel whose system call \<open>n\<close> returns \<open>n + 1000\<close> and whose seccomp filter forbids \<open>execve\<close>.\<close>

definition ext0 :: "ecall \<Rightarrow> unit thr \<Rightarrow> u64 \<times> unit thr" where
  "ext0 c s = (case c of SysCall n \<Rightarrow> (n + 1000, s)
     | SecureComputing d \<Rightarrow> (if sd_nr d = 59 then - 1 else 0, s)
     | Schedule \<Rightarrow> (0, clear_flag NEED_RESCHED s) | UprobeNotifyResume \<Rightarrow> (0, clear_flag UPROBE s)
     | KlpUpdate \<Rightarrow> (0, clear_flag PATCH_PENDING s) | DoSignal \<Rightarrow> (0, clear_flag SIGPENDING s)
     | FireUserReturn \<Rightarrow> (0, clear_flag USER_RETURN_NOTIFY s)
     | SwitchFpuReturn \<Rightarrow> (0, clear_flag NEED_FPU_LOAD s) | KtimeBoot \<Rightarrow> (77, s) | _ \<Rightarrow> (0, s))"

definition eenv0 :: "unit eenv" where
  "eenv0 = \<lparr>tif = tif0, TS_COMPAT = 2, TS_I386_REGS_POKED = 4, NR_syscalls = 436,
     X32_SYSCALL_BIT = 0x40000000, X32_NR_syscalls = 548, IA32_NR_syscalls = 436, USER32_CS = 0x23,
     USER_DS = 0x2B, EFLAGS_RF = 0x10000, EFLAGS_TF = 0x100, E_FAULT = 14, x32_abi = False,
     array_index_nospec = (\<lambda>i n. if i < n then i else 0), in_ia32_syscall = (\<lambda>s. False),
     landing_pad = (\<lambda>s. 0x1000), get_user32 = (\<lambda>s a. Some 7), ext = ext0\<rparr>"

definition thr0 :: "u32 \<Rightarrow> u64 \<Rightarrow> unit thr" where
  "thr0 fl nr = \<lparr>t_regs = regs0\<lparr>orig_ax := nr, ax := - 38\<rparr>, ti_flags = fl, ti_status = 6, t_irq = False,
     t_trace = [], t_world = ()\<rparr>"

section \<open>Lemmas and properties\<close>

lemma adds_refl: "adds P s s"
  by (simp add: adds_def)

lemma adds_trans: "adds P s s1 \<Longrightarrow> adds P s1 s2 \<Longrightarrow> adds P s s2"
  by (fastforce simp: adds_def)

lemma adds_call: "P c \<Longrightarrow> adds P s (snd (call v c s))"
  by (auto simp: adds_def call_def split_beta)

lemma trace_call [simp]: "t_trace (snd (call v c s)) = t_trace s @ [c]"
  by (simp add: call_def split_beta)

lemma trace_call_ign [simp]: "t_trace (call_ign v c s) = t_trace s @ [c]"
  by (simp add: call_ign_def call_def split_beta)

lemma trace_call_if [simp]: "t_trace (call_if b v c s) = t_trace s @ (if b then [c] else [])"
  by (simp add: call_if_def)

lemma trace_set_ax [simp]: "t_trace (set_ax a s) = t_trace s"
  by (simp add: set_ax_def)

lemma exit_work_simps [simp]:
  "exit_work RseqSyscall" "exit_work AuditExit" "exit_work (TraceSysExit a)" "exit_work (TracehookExit b)"
  "exit_work Schedule" "exit_work UprobeNotifyResume" "exit_work KlpUpdate" "exit_work DoSignal"
  "exit_work TracehookNotifyResume" "exit_work RseqNotifyResume" "exit_work FireUserReturn"
  "exit_work AddrLimitCheck" "exit_work FpregsAssert" "exit_work SwitchFpuReturn" "exit_work UserEnter"
  "exit_work MdsClear"
  by (simp_all add: exit_work_def entry_work_def hooking_def)

lemma entry_work_simps [simp]:
  "entry_work KtimeBoot" "entry_work TracehookEntry" "entry_work (SecureComputing d)"
  "entry_work (TraceSysEnter a)" "entry_work (AuditEntry a b e f g)"
  by (simp_all add: entry_work_def)

lemma trace_audit: "adds entry_work s (do_audit_syscall_entry v a s)"
  by (simp add: adds_def do_audit_syscall_entry_def Let_def)

lemma adds_call_if: "P c \<Longrightarrow> adds P s (call_if b v c s)"
  by (simp add: adds_def)

lemma syscall_trace_enter_adds: "adds entry_work s (snd (syscall_trace_enter v s))"
proof -
  let ?t = "test (ti_flags s) (tif v SYSCALL_TRACE OR tif v SYSCALL_EMU)"
  define p1 where "p1 = (if ?t then call v TracehookEntry s else (0, s))"
  let ?d = "SecureComputing (mk_seccomp_data (\<not> in_ia32_syscall v s) (t_regs (snd p1)))"
  define p2 where "p2 = (if test (ti_flags s) (tif v SECCOMP) then call v ?d (snd p1) else p1)"
  let ?s3 = "call_if (test (ti_flags (snd p2)) (tif v SYSCALL_TRACEPOINT)) v
       (TraceSysEnter (orig_ax (t_regs (snd p2)))) (snd p2)"
  have 1: "adds entry_work s (snd p1)" by (simp add: p1_def adds_def)
  have "adds entry_work (snd p1) (snd p2)" by (simp add: p2_def adds_def)
  with 1 have 2: "adds entry_work s (snd p2)" by (rule adds_trans)
  then have 3: "adds entry_work s (do_audit_syscall_entry v (\<not> in_ia32_syscall v s) ?s3)"
    by (rule adds_trans [OF adds_trans [OF _ adds_call_if] trace_audit]) simp
  have "snd (syscall_trace_enter v s) = snd p1 \<or> snd (syscall_trace_enter v s) = snd p2
    \<or> snd (syscall_trace_enter v s) = do_audit_syscall_entry v (\<not> in_ia32_syscall v s) ?s3"
    unfolding syscall_trace_enter_def Let_def split_beta
    unfolding p1_def [symmetric] prod.collapse unfolding p2_def [symmetric] by simp
  with 1 2 3 show ?thesis by metis
qed

lemma exit_pass_adds: "adds exit_work s (exit_pass v c s)"
  by (simp add: adds_def exit_pass_def Let_def)

lemma exit_loop_adds:
  assumes "exit_to_usermode_loop v c s = Some s'"
  shows "adds exit_work s s'"
  using assms
proof (induction rule: exit_to_usermode_loop.raw_induct [rotated, consumes 1, case_names 1])
  case (1 loop v c s s')
  show ?case
  proof (cases "test (ti_flags (exit_pass v c s)) (EXIT_TO_USERMODE_LOOP_FLAGS v)")
    case True
    with 1(2) have "loop v (ti_flags (exit_pass v c s)) (exit_pass v c s) = Some s'" by (simp add: Let_def)
    from adds_trans [OF exit_pass_adds 1(1) [OF this]] show ?thesis .
  next
    case False
    with 1(2) exit_pass_adds [of s v c] show ?thesis by (simp add: Let_def)
  qed
qed

lemma prepare_exit_adds:
  assumes "prepare_exit_to_usermode v s = Some s'"
  shows "adds exit_work s s'"
proof -
  let ?s1 = "call_ign v AddrLimitCheck s"
  obtain s2 where l: "(if test (ti_flags ?s1) (EXIT_TO_USERMODE_LOOP_FLAGS v)
      then exit_to_usermode_loop v (ti_flags ?s1) ?s1 else Some ?s1) = Some s2"
    using assms by (auto simp: prepare_exit_to_usermode_def Let_def split: option.splits)
  have "adds exit_work s ?s1" by (simp add: adds_def)
  moreover have "adds exit_work ?s1 s2" using l by (auto split: if_splits intro: adds_refl exit_loop_adds)
  moreover have "adds exit_work s2 s'"
    using assms l by (auto simp: prepare_exit_to_usermode_def Let_def adds_def)
  ultimately show ?thesis by (blast intro: adds_trans)
qed

lemma slowpath_adds:
  assumes "syscall_return_slowpath v s = Some s'"
  shows "adds exit_work s s'"
proof -
  let ?s2 = "if test (ti_flags s) (SYSCALL_EXIT_WORK_FLAGS v)
    then syscall_slow_exit_work v (ti_flags s) (call_ign v RseqSyscall s) else call_ign v RseqSyscall s"
  have "adds exit_work s (?s2\<lparr>t_irq := False\<rparr>)"
    by (simp add: adds_def syscall_slow_exit_work_def Let_def)
  moreover have "adds exit_work (?s2\<lparr>t_irq := False\<rparr>) s'"
    using assms by (intro prepare_exit_adds) (simp add: syscall_return_slowpath_def Let_def)
  ultimately show ?thesis by (rule adds_trans)
qed

lemma dispatch_trace:
  "\<exists>d. t_trace (dispatch_64 v nr s) = t_trace s @ d \<and> list_all dispatching d \<and> length d \<le> 1"
  by (auto simp: dispatch_64_def Let_def split_beta)

lemma do_syscall_64_eq:
  "do_syscall_64 v zz nr s =
     (case run_hook zz (fst (to_hook v nr s)) (snd (to_hook v nr s)) of
        None \<Rightarrow> None | Some s4 \<Rightarrow> syscall_return_slowpath v s4)"
  by (simp add: do_syscall_64_def to_hook_def Let_def split_beta)

lemma to_hook_ts: "fst (to_hook v nr s) = fst (ext v KtimeBoot s)"
  by (simp add: to_hook_def call_def Let_def split_beta)

lemma to_hook_trace:
  "\<exists>ent d. t_trace (snd (to_hook v nr s)) = t_trace s @ [KtimeBoot] @ ent @ d
     \<and> list_all entry_work ent \<and> list_all dispatching d \<and> length d \<le> 1"
proof -
  let ?s1 = "(snd (call v KtimeBoot s))\<lparr>t_irq := True\<rparr>"
  let ?p = "if test (ti_flags ?s1) (tif v WORK_SYSCALL_ENTRY) then syscall_trace_enter v ?s1 else (nr, ?s1)"
  obtain ent where e: "t_trace (snd ?p) = t_trace ?s1 @ ent" "list_all entry_work ent"
    using syscall_trace_enter_adds [of ?s1 v] adds_refl [of entry_work ?s1] unfolding adds_def
    by (cases "test (ti_flags ?s1) (tif v WORK_SYSCALL_ENTRY)") auto
  obtain d where d: "t_trace (dispatch_64 v (fst ?p) (snd ?p)) = t_trace (snd ?p) @ d"
    "list_all dispatching d" "length d \<le> 1"
    using dispatch_trace by blast
  have "snd (to_hook v nr s) = dispatch_64 v (fst ?p) (snd ?p)"
    by (simp add: to_hook_def Let_def split_beta)
  with d e show ?thesis by auto
qed

lemma run_hook_trace:
  "run_hook zz ts s = Some s' \<Longrightarrow> t_trace s' = t_trace s @ (if zz = None then [] else [HookCall ts])"
  by (auto simp: run_hook_def split: option.splits)

text \<open>
  C13: The order of a 64-bit system call that returns: the clock is read, then comes the entry
  work, then at most one dispatch through a system call table, then the hook (exactly once, with
  the time read at entry, if a module has set it), and only then the exit work.
\<close>

theorem do_syscall_64_order:
  assumes "do_syscall_64 v zz nr s = Some s'"
  shows "\<exists>ent d post. t_trace s' = t_trace s @ [KtimeBoot] @ ent @ d
      @ (if zz = None then [] else [HookCall (fst (ext v KtimeBoot s))]) @ post
    \<and> list_all entry_work ent \<and> list_all dispatching d \<and> length d \<le> 1 \<and> list_all exit_work post"
proof -
  obtain s4 where h: "run_hook zz (fst (to_hook v nr s)) (snd (to_hook v nr s)) = Some s4"
    and e: "syscall_return_slowpath v s4 = Some s'"
    using assms by (auto simp: do_syscall_64_eq split: option.splits)
  obtain post where "t_trace s' = t_trace s4 @ post" "list_all exit_work post"
    using slowpath_adds [OF e] by (auto simp: adds_def)
  moreover obtain ent d where "t_trace (snd (to_hook v nr s)) = t_trace s @ [KtimeBoot] @ ent @ d"
    "list_all entry_work ent" "list_all dispatching d" "length d \<le> 1"
    using to_hook_trace by blast
  ultimately show ?thesis using run_hook_trace [OF h] by (auto simp: to_hook_ts)
qed

lemma trace_enter_ptrace:
  assumes "test (ti_flags s) (tif v SYSCALL_TRACE OR tif v SYSCALL_EMU)"
    and "test (ti_flags s) (tif v SYSCALL_EMU) \<or> fst (call v TracehookEntry s) \<noteq> 0"
  shows "fst (syscall_trace_enter v s) = - 1"
proof -
  have c: "fst (call v TracehookEntry s) \<noteq> 0 \<or> test (ti_flags s) (tif v SYSCALL_EMU)"
    using assms(2) by blast
  show ?thesis
    by (simp only: syscall_trace_enter_def Let_def split_beta assms(1) c if_True prod.sel simp_thms)
qed

lemma trace_enter_seccomp:
  assumes "\<not> (test (ti_flags s) (tif v SYSCALL_TRACE OR tif v SYSCALL_EMU)
      \<and> (test (ti_flags s) (tif v SYSCALL_EMU) \<or> fst (call v TracehookEntry s) \<noteq> 0))"
    and "test (ti_flags s) (tif v SECCOMP)"
    and "fst (call v (SecureComputing (mk_seccomp_data (\<not> in_ia32_syscall v s) (t_regs s1))) s1) = - 1"
    and "s1 = call_if (test (ti_flags s) (tif v SYSCALL_TRACE OR tif v SYSCALL_EMU)) v TracehookEntry s"
  shows "fst (syscall_trace_enter v s) = - 1"
proof -
  let ?t = "test (ti_flags s) (tif v SYSCALL_TRACE OR tif v SYSCALL_EMU)"
  have s1: "snd (if ?t then call v TracehookEntry s else (0, s)) = s1"
    by (simp add: assms(4) call_if_def call_ign_def)
  have n: "(?t \<and> (fst (if ?t then call v TracehookEntry s else (0, s)) \<noteq> 0
      \<or> test (ti_flags s) (tif v SYSCALL_EMU))) = False"
    using assms(1) by auto
  show ?thesis
    by (simp only: syscall_trace_enter_def Let_def split_beta n s1 assms(2,3) if_True if_False prod.sel simp_thms)
qed

lemma denied_enter: "entry_denies v s \<Longrightarrow> fst (syscall_trace_enter v s) = - 1"
  unfolding entry_denies_def Let_def using trace_enter_ptrace trace_enter_seccomp by blast

lemma dispatch_denied: "\<not> x32_abi v \<Longrightarrow> dispatch_64 v (- 1) s = s"
  by (simp add: dispatch_64_def)

lemma entry_work_not: "entry_work c \<Longrightarrow> \<not> dispatching c" "entry_work c \<Longrightarrow> \<not> hooking c"
  by (cases c; simp add: entry_work_def hooking_def)+

lemma class_lists:
  "list_all entry_work ks \<Longrightarrow> \<not> list_ex dispatching ks \<and> \<not> list_ex hooking ks"
  "list_all exit_work ks \<Longrightarrow> \<not> list_ex dispatching ks \<and> \<not> list_ex hooking ks"
  "list_all dispatching ks \<Longrightarrow> \<not> list_ex hooking ks"
  by (induction ks) (auto simp: exit_work_def entry_work_def entry_work_not hooking_def split: ecall.splits)

text \<open>
  C24: A 64-bit system call that ptrace or the seccomp filter refuses is not dispatched through
  any system call table; the hook is called for it all the same. (The x32 table is left out:
  without CONFIG_X86_X32_ABI.)
\<close>

theorem do_syscall_64_denied:
  assumes "do_syscall_64 v zz nr s = Some s'" and "\<not> x32_abi v"
    and "entry_denies v ((snd (call v KtimeBoot s))\<lparr>t_irq := True\<rparr>)"
  shows "\<exists>cs. t_trace s' = t_trace s @ cs \<and> \<not> list_ex dispatching cs
    \<and> list_ex hooking cs = (zz \<noteq> None)"
proof -
  let ?s1 = "(snd (call v KtimeBoot s))\<lparr>t_irq := True\<rparr>"
  have "test (ti_flags ?s1) (tif v WORK_SYSCALL_ENTRY)"
    using assms(3) unfolding entry_denies_def by blast
  then have "snd (to_hook v nr s) = dispatch_64 v (fst (syscall_trace_enter v ?s1)) (snd (syscall_trace_enter v ?s1))"
    by (simp only: to_hook_def Let_def split_beta if_True prod.sel)
  then have "snd (to_hook v nr s) = snd (syscall_trace_enter v ?s1)"
    by (simp only: denied_enter [OF assms(3)] dispatch_denied [OF assms(2)])
  then obtain ent where h: "t_trace (snd (to_hook v nr s)) = t_trace s @ KtimeBoot # ent" "list_all entry_work ent"
    using syscall_trace_enter_adds [of ?s1 v] by (auto simp: adds_def)
  obtain s4 where r: "run_hook zz (fst (to_hook v nr s)) (snd (to_hook v nr s)) = Some s4"
    and e: "syscall_return_slowpath v s4 = Some s'"
    using assms(1) by (auto simp: do_syscall_64_eq split: option.splits)
  obtain post where p: "t_trace s' = t_trace s4 @ post" "list_all exit_work post"
    using slowpath_adds [OF e] by (auto simp: adds_def)
  have "t_trace s' = t_trace s @ (KtimeBoot # ent @ (if zz = None then [] else [HookCall (fst (to_hook v nr s))]) @ post)"
    using h(1) p(1) run_hook_trace [OF r] by simp
  moreover have "\<not> list_ex dispatching ent \<and> \<not> list_ex hooking ent"
    "\<not> list_ex dispatching post \<and> \<not> list_ex hooking post"
    using class_lists h(2) p(2) by blast+
  ultimately show ?thesis
    by (intro exI [of _ "KtimeBoot # ent @ (if zz = None then [] else [HookCall (fst (to_hook v nr s))]) @ post"])
      (simp add: hooking_def)
qed

lemma flags_sub_bits: "flags_sub a b \<longleftrightarrow> (\<forall>n. bit a n \<longrightarrow> bit b n)"
proof
  assume "flags_sub a b"
  then have z: "a AND NOT b = 0" by (simp add: flags_sub_def)
  show "\<forall>n. bit a n \<longrightarrow> bit b n"
  proof (intro allI impI)
    fix n assume n: "bit a n"
    from z have "\<not> bit (a AND NOT b) n" by simp
    with n bit_imp_le_length [OF n] show "bit b n" by (simp add: bit_simps)
  qed
qed (auto simp: flags_sub_def bit_eq_iff bit_simps)

lemma flags_sub_refl [simp]: "flags_sub a a" and flags_sub_and [simp]: "flags_sub (a AND b) a"
  by (simp_all add: flags_sub_bits bit_simps)

lemma flags_sub_trans: "flags_sub a b \<Longrightarrow> flags_sub b c \<Longrightarrow> flags_sub a c"
  by (simp add: flags_sub_bits)

lemma flags_sub_test: "flags_sub a b \<Longrightarrow> test a m \<Longrightarrow> test b m"
  by (auto simp: flags_sub_bits test_def bit_eq_iff bit_simps)

lemma test_cleared: "\<not> test (x AND NOT m) m"
  by (simp add: test_def and.assoc)

lemma status_cleared: "\<not> test (ti_status (s\<lparr>ti_status := x AND NOT m\<rparr>)) m"
  by (simp add: test_cleared)

lemma call_ign_sel [simp]:
  "ti_flags (call_ign v c s) = ti_flags (snd (ext v c s))" "t_irq (call_ign v c s) = t_irq (snd (ext v c s))"
  "ti_status (call_ign v c s) = ti_status (snd (ext v c s))"
  by (simp_all add: call_ign_def call_def split_beta)

lemma exit_loop_clean:
  assumes "exit_to_usermode_loop v c s = Some s'"
  shows "\<not> t_irq s' \<and> \<not> test (ti_flags s') (EXIT_TO_USERMODE_LOOP_FLAGS v)"
  using assms
proof (induction rule: exit_to_usermode_loop.raw_induct [rotated, consumes 1, case_names 1])
  case (1 loop v c s s')
  have "\<not> t_irq (exit_pass v c s)" by (simp add: exit_pass_def Let_def)
  with 1 show ?case by (auto simp: Let_def split: if_splits)
qed

text \<open>
  C26: If the thread comes back from prepare_exit_to_usermode, interrupts are off, no flag that
  asks for exit work is set, and the compat bits of the status are clear. The calls made on the
  way with interrupts off are assumed to leave them off, to set no flag and to keep the status.
\<close>

theorem prepare_exit_clean:
  assumes "exit_quiet v" and "prepare_exit_to_usermode v s = Some s'" and "\<not> t_irq s"
  shows "\<not> t_irq s' \<and> \<not> test (ti_flags s') (EXIT_TO_USERMODE_LOOP_FLAGS v)
    \<and> \<not> test (ti_status s') (TS_COMPAT v OR TS_I386_REGS_POKED v)"
proof -
  let ?F = "EXIT_TO_USERMODE_LOOP_FLAGS v" and ?s1 = "call_ign v AddrLimitCheck s"
  have q: "flags_sub (ti_flags (snd (ext v c s))) (ti_flags s)" "\<not> t_irq s \<Longrightarrow> \<not> t_irq (snd (ext v c s))"
    "ti_status (snd (ext v c s)) = ti_status s"
    if "c \<in> {AddrLimitCheck, FpregsAssert, SwitchFpuReturn, UserEnter, MdsClear}" for c s
    using assms(1) that unfolding exit_quiet_def by blast+
  obtain s2 where l: "(if test (ti_flags ?s1) ?F then exit_to_usermode_loop v (ti_flags ?s1) ?s1 else Some ?s1)
      = Some s2"
    using assms(2) by (auto simp: prepare_exit_to_usermode_def Let_def split: option.splits)
  have c2: "\<not> t_irq s2" "\<not> test (ti_flags s2) ?F"
    using l exit_loop_clean q(2) [of AddrLimitCheck s] assms(3) by (auto split: if_splits)
  let ?s4 = "call_if (test (ti_flags s2) (tif v NEED_FPU_LOAD)) v SwitchFpuReturn (call_ign v FpregsAssert s2)"
  let ?s5 = "?s4\<lparr>ti_status := ti_status ?s4 AND NOT (TS_COMPAT v OR TS_I386_REGS_POKED v)\<rparr>"
  have s': "s' = call_ign v MdsClear (call_ign v UserEnter ?s5)"
    using assms(2) l by (auto simp: prepare_exit_to_usermode_def Let_def)
  have k: "flags_sub (ti_flags (call_ign v c s)) (ti_flags s)" "\<not> t_irq s \<Longrightarrow> \<not> t_irq (call_ign v c s)"
    "ti_status (call_ign v c s) = ti_status s"
    if "c \<in> {FpregsAssert, SwitchFpuReturn, UserEnter, MdsClear}" for c s
    using q that by auto
  have 4: "flags_sub (ti_flags ?s4) (ti_flags s2)" "\<not> t_irq ?s4"
    using k c2(1) by (auto simp: call_if_def intro: flags_sub_trans simp del: call_ign_sel)
  have 5: "flags_sub (ti_flags s') (ti_flags ?s5)" "ti_status s' = ti_status ?s5"
    unfolding s' by (rule flags_sub_trans [OF k(1) k(1)], simp_all add: k(3) del: call_ign_sel)
  have irq: "\<not> t_irq s'"
    unfolding s' using 4(2) by (intro k(2)) simp_all
  have "flags_sub (ti_flags s') (ti_flags s2)" using flags_sub_trans 5(1) 4(1) by simp
  with c2(2) flags_sub_test have "\<not> test (ti_flags s') ?F" by blast
  moreover have "\<not> test (ti_status s') (TS_COMPAT v OR TS_I386_REGS_POKED v)"
    unfolding 5(2) by (rule status_cleared)
  ultimately show ?thesis using irq by blast
qed

lemma call_if_cleared:
  assumes "\<And>s. flags_sub (ti_flags (snd (ext v c s))) (ti_flags s)"
    and "\<And>s. \<not> test (ti_flags (snd (ext v c s))) m" and "flags_sub (ti_flags s) c0"
  shows "flags_sub (ti_flags (call_if (test c0 m) v c s)) c0 \<and> \<not> test (ti_flags (call_if (test c0 m) v c s)) m"
  using assms flags_sub_trans flags_sub_test by (simp add: call_if_def) blast

lemma call_if_sub:
  assumes "\<And>s. flags_sub (ti_flags (snd (ext v c s))) (ti_flags s)"
  shows "flags_sub (ti_flags (call_if b v c s)) (ti_flags s)"
  using assms by (simp add: call_if_def)

lemma exit_pass_done:
  assumes "work_done v"
  shows "\<not> test (ti_flags (exit_pass v (ti_flags s) s)) (EXIT_TO_USERMODE_LOOP_FLAGS v)"
proof -
  let ?c = "ti_flags s"
  have q: "\<And>s. flags_sub (ti_flags (snd (ext v c s))) (ti_flags s)" if "exit_work c" for c
    using assms that unfolding work_done_def by blast
  note f = assms [unfolded work_done_def, THEN conjunct2, rule_format]
  note cl = call_if_cleared [OF q]
  define s1 where "s1 = call_if (test ?c (tif v NEED_RESCHED)) v Schedule (s\<lparr>t_irq := True\<rparr>)"
  define s2 where "s2 = call_if (test ?c (tif v UPROBE)) v UprobeNotifyResume s1"
  define s3 where "s3 = call_if (test ?c (tif v PATCH_PENDING)) v KlpUpdate s2"
  define s4 where "s4 = call_if (test ?c (tif v SIGPENDING)) v DoSignal s3"
  define s5 where "s5 = (if test ?c (tif v NOTIFY_RESUME)
      then call_ign v RseqNotifyResume (call_ign v TracehookNotifyResume
             (s4\<lparr>ti_flags := ti_flags s4 AND NOT (tif v NOTIFY_RESUME)\<rparr>)) else s4)"
  define s6 where "s6 = call_if (test ?c (tif v USER_RETURN_NOTIFY)) v FireUserReturn s5"
  have 1: "flags_sub (ti_flags s1) ?c \<and> \<not> test (ti_flags s1) (tif v NEED_RESCHED)"
    unfolding s1_def by (rule cl) (simp_all add: f)
  have 2: "flags_sub (ti_flags s2) ?c \<and> \<not> test (ti_flags s2) (tif v UPROBE)"
    unfolding s2_def by (rule cl) (simp_all add: f 1)
  have 3: "flags_sub (ti_flags s3) ?c \<and> \<not> test (ti_flags s3) (tif v PATCH_PENDING)"
    unfolding s3_def by (rule cl) (simp_all add: f 2)
  have 4: "flags_sub (ti_flags s4) ?c \<and> \<not> test (ti_flags s4) (tif v SIGPENDING)"
    unfolding s4_def by (rule cl) (simp_all add: f 3)
  have qc: "flags_sub (ti_flags (call_ign v c t)) (ti_flags t)" if "exit_work c" for c t
    using q [OF that] by simp
  have nr: "flags_sub (ti_flags (call_ign v RseqNotifyResume (call_ign v TracehookNotifyResume t))) (ti_flags t)" for t
    by (rule flags_sub_trans [OF qc qc]) (rule exit_work_simps)+
  have 54: "flags_sub (ti_flags s5) (ti_flags s4)"
    using flags_sub_trans [OF nr] by (simp add: s5_def del: call_ign_sel)
  have 5: "\<not> test (ti_flags s5) (tif v NOTIFY_RESUME)"
  proof (cases "test ?c (tif v NOTIFY_RESUME)")
    case True
    then show ?thesis
      using nr [THEN flags_sub_test] test_cleared
      by (fastforce simp: s5_def simp del: call_ign_sel)
  next
    case False
    with 4 54 show ?thesis by (meson flags_sub_test)
  qed
  have 6: "flags_sub (ti_flags s6) ?c \<and> \<not> test (ti_flags s6) (tif v USER_RETURN_NOTIFY)"
    unfolding s6_def using flags_sub_trans [OF 54 4 [THEN conjunct1]] by (intro cl) (simp_all add: f)
  have sub: "flags_sub (ti_flags s6) (ti_flags s5)" "flags_sub (ti_flags s4) (ti_flags s3)"
    "flags_sub (ti_flags s3) (ti_flags s2)" "flags_sub (ti_flags s2) (ti_flags s1)"
    unfolding s6_def s4_def s3_def s2_def by (rule call_if_sub, rule q, simp)+
  have "\<not> test (ti_flags s6) (EXIT_TO_USERMODE_LOOP_FLAGS v)"
    unfolding EXIT_TO_USERMODE_LOOP_FLAGS_def test_or
    using 1 2 3 4 5 6 sub 54 by (meson flags_sub_test)
  moreover have "exit_pass v ?c s = s6\<lparr>t_irq := False\<rparr>"
    by (simp only: exit_pass_def Let_def s1_def s2_def s3_def s4_def s5_def s6_def)
  ultimately show ?thesis by simp
qed

lemma exit_loop_one_pass:
  assumes "work_done v"
  shows "exit_to_usermode_loop v (ti_flags s) s = Some (exit_pass v (ti_flags s) s)"
  using exit_pass_done [OF assms] by (subst exit_to_usermode_loop.simps) (simp add: Let_def)


lemma int32_adds:
  assumes "do_syscall_32_irqs_on v s = Some s'"
  shows "\<exists>ks. t_trace s' = t_trace s @ ks \<and> \<not> list_ex hooking ks \<and> length (filter dispatching ks) \<le> 1"
proof -
  let ?s1 = "s\<lparr>ti_status := ti_status s OR TS_COMPAT v\<rparr>"
  define p where "p = (if test (ti_flags ?s1) (tif v WORK_SYSCALL_ENTRY)
       then let (r, s2) = syscall_trace_enter v ?s1 in (ucast r, s2) else (ucast (orig_ax (t_regs s)) :: u32, ?s1))"
  obtain ent where e: "t_trace (snd p) = t_trace s @ ent" "list_all entry_work ent"
    using syscall_trace_enter_adds [of ?s1 v] unfolding adds_def p_def split_beta
    by (cases "test (ti_flags ?s1) (tif v WORK_SYSCALL_ENTRY)") (auto simp: Let_def split_beta)
  define s3 where "s3 = (if fst p < IA32_NR_syscalls v
       then let (r, s3) = call v (Ia32SysCall (ucast (array_index_nospec v (ucast (fst p))
                   (ucast (IA32_NR_syscalls v))))) (snd p) in set_ax r s3 else snd p)"
  obtain d where d: "t_trace s3 = t_trace (snd p) @ d" "list_all dispatching d" "length d \<le> 1"
    by (cases "fst p < IA32_NR_syscalls v") (auto simp: s3_def Let_def split_beta)
  have "syscall_return_slowpath v s3 = Some s'"
    using assms unfolding do_syscall_32_irqs_on_def Let_def split_beta s3_def p_def by simp
  then obtain post where p: "t_trace s' = t_trace s3 @ post" "list_all exit_work post"
    using slowpath_adds by (fastforce simp: adds_def)
  have "filter dispatching ent = []" "filter dispatching post = []"
    using class_lists e(2) p(2) by (auto simp: filter_empty_conv list_ex_iff)
  moreover have "length (filter dispatching d) \<le> 1"
    using d(3) length_filter_le order_trans by blast
  ultimately show ?thesis
    using class_lists(1) [OF e(2)] class_lists(2) [OF p(2)] class_lists(3) [OF d(2)] e(1) p(1) d(1)
    by (intro exI [of _ "ent @ d @ post"]) simp
qed

text \<open>
  C28: The two 32-bit entry points never call the hook, and dispatch at most one system call.
\<close>

theorem syscalls_32_no_hook:
  assumes "do_int80_syscall_32 v s = Some s' \<or> do_fast_syscall_32 v s = Some (sysret, s')"
  shows "\<exists>ks. t_trace s' = t_trace s @ ks \<and> \<not> list_ex hooking ks \<and> length (filter dispatching ks) \<le> 1"
proof -
  consider t where "do_syscall_32_irqs_on v t = Some s'" "t_trace t = t_trace s"
    | t where "prepare_exit_to_usermode v t = Some s'" "t_trace t = t_trace s"
    using assms by (auto simp: do_int80_syscall_32_def do_fast_syscall_32_def Let_def split: option.splits) force+
  then show ?thesis
  proof cases
    case 1
    with int32_adds show ?thesis by metis
  next
    case 2
    then obtain ks where "t_trace s' = t_trace s @ ks" "list_all exit_work ks"
      using prepare_exit_adds by (fastforce simp: adds_def)
    with class_lists(2) show ?thesis by (intro exI [of _ ks]) (auto simp: filter_empty_conv list_ex_iff)
  qed
qed

lemma eenv0_denies: "entry_denies eenv0 ((snd (call eenv0 KtimeBoot (thr0 256 59)))\<lparr>t_irq := True\<rparr>)"
  by code_simp

lemma eenv0_quiet: "exit_quiet eenv0"
  by (auto simp: exit_quiet_def eenv0_def ext0_def clear_flag_def)

lemma eenv0_done: "work_done eenv0"
proof -
  have "flags_sub (ti_flags (snd (ext0 c s))) (ti_flags s)" for c s
    by (cases c) (simp_all add: ext0_def clear_flag_def)
  then show ?thesis
    by (simp add: work_done_def eenv0_def) (simp add: ext0_def clear_flag_def test_cleared)
qed

lemma prepare_returns:
  assumes "work_done v"
  shows "\<exists>s'. prepare_exit_to_usermode v s = Some s'"
  by (simp add: prepare_exit_to_usermode_def exit_loop_one_pass [OF assms] Let_def del: call_ign_sel)

lemma slowpath_returns: "work_done v \<Longrightarrow> \<exists>s'. syscall_return_slowpath v s = Some s'"
  unfolding syscall_return_slowpath_def Let_def by (rule prepare_returns)




text \<open>A hook that always returns.\<close>

lemma eenv0_runs: "\<exists>s'. do_syscall_64 eenv0 (Some (\<lambda>ts t. Some t)) nr s = Some s'"
  using slowpath_returns [OF eenv0_done] by (simp add: do_syscall_64_eq run_hook_def)

theorem do_syscall_64_order_witness:
  "\<exists>s' ent d post. do_syscall_64 eenv0 (Some (\<lambda>ts t. Some t)) 1 (thr0 0 1) = Some s'
     \<and> t_trace s' = [KtimeBoot] @ ent @ d @ [HookCall 77] @ post
     \<and> list_all entry_work ent \<and> list_all dispatching d \<and> length d \<le> 1 \<and> list_all exit_work post"
proof -
  obtain s' where s': "do_syscall_64 eenv0 (Some (\<lambda>ts t. Some t)) 1 (thr0 0 1) = Some s'"
    using eenv0_runs by blast
  have ts: "fst (ext eenv0 KtimeBoot (thr0 0 1)) = 77" "t_trace (thr0 0 1) = []"
    by (simp_all add: eenv0_def ext0_def thr0_def)
  from do_syscall_64_order [OF s'] s' show ?thesis unfolding ts by auto
qed

theorem do_syscall_64_denied_witness:
  "\<exists>s'. do_syscall_64 eenv0 (Some (\<lambda>ts t. Some t)) 59 (thr0 256 59) = Some s'
     \<and> \<not> list_ex dispatching (t_trace s') \<and> list_ex hooking (t_trace s')"
proof -
  obtain s' where s': "do_syscall_64 eenv0 (Some (\<lambda>ts t. Some t)) 59 (thr0 256 59) = Some s'"
    using eenv0_runs by blast
  have "\<not> x32_abi eenv0" "t_trace (thr0 256 59) = []" by (simp_all add: eenv0_def thr0_def)
  with do_syscall_64_denied [OF s' _ eenv0_denies] s' show ?thesis by auto
qed

theorem prepare_exit_clean_witness:
  "\<exists>s'. prepare_exit_to_usermode eenv0 (thr0 0x380E 1) = Some s' \<and> \<not> t_irq s'
     \<and> \<not> test (ti_flags s') (EXIT_TO_USERMODE_LOOP_FLAGS eenv0) \<and> \<not> test (ti_status s') 6"
proof -
  obtain s' where s': "prepare_exit_to_usermode eenv0 (thr0 0x380E 1) = Some s'"
    using prepare_returns [OF eenv0_done] by blast
  have "\<not> t_irq (thr0 0x380E 1)" "TS_COMPAT eenv0 OR TS_I386_REGS_POKED eenv0 = 6"
    by (simp_all add: thr0_def eenv0_def)
  with prepare_exit_clean [OF eenv0_quiet s'] s' show ?thesis by auto
qed

theorem syscalls_32_no_hook_witness:
  "\<exists>s'. do_int80_syscall_32 eenv0 (thr0 0 20) = Some s' \<and> \<not> list_ex hooking (t_trace s')"
proof -
  obtain s' where s': "do_int80_syscall_32 eenv0 (thr0 0 20) = Some s'"
    using slowpath_returns [OF eenv0_done]
    by (auto simp: do_int80_syscall_32_def do_syscall_32_irqs_on_def Let_def split_beta)
  have "t_trace (thr0 0 20) = []" by (simp add: thr0_def)
  with syscalls_32_no_hook [OF disjI1, OF s'] s' show ?thesis by auto
qed

end
