(* ===== verification/Fault.thy ===== *)
theory Fault
  imports Pageattr Regs
begin

text \<open>
  The patched page fault handler \<open>kernel_modify/fault.c\<close> in the 64-bit configuration of
  \<open>.config\<close>. The state of the faulting thread is its saved registers, whether interrupts are
  on, how often it holds \<open>mmap_sem\<close> for reading, the trap data of \<open>thread_struct\<close>, the fault
  counters, the page-table words, what was printed, and the rest of the world. Code outside
  the file is reached in three ways: \<open>fext v c s\<close> is a call with effects (its value and the new
  state; the calls made are kept in \<open>f_calls\<close>), \<open>ask v q s\<close> a question about the state, and
  \<open>kallsyms_lookup_name\<close> with the two functions the module may provide.
\<close>

section \<open>Data\<close>

datatype pfbit = PF_PROT | PF_WRITE | PF_USER | PF_RSVD | PF_INSTR | PF_PK

datatype vmfault = VM_OOM | VM_SIGBUS | VM_HWPOISON | VM_HWPOISON_LARGE | VM_SIGSEGV | VM_RETRY
  | VM_MAJOR | VM_ERROR

datatype fltflag = ALLOW_RETRY | KILLABLE | FUSER | FWRITE | FINSTRUCTION | TRIED

datatype vmflag = GROWSDOWN | VMREAD | VMWRITE | VMEXEC

datatype fsig = NoSig | SIGSEGV | SIGBUS | SIGKILL

datatype sicode = NoCode | SEGV_MAPERR | SEGV_ACCERR | SEGV_PKUERR | BUS_ADRERR

record vma =
  vm_start :: u64
  vm_flags :: u64
  vm_tag :: nat

datatype fcall =
    KmmioHandler u64
  | KprobePageFault
  | FixupException u64 u64
  | ForceSigFault fsig sicode u64
  | ForceSigPkuerr u64 u32
  | ForceSigMceerr u64 nat
  | OopsBegin
  | Die string u64
  | OopsEnd fsig
  | HandleStackOverflow u64
  | EfiRecover u64
  | UbFaultAddressSpace u64 u64
  | UbErrorHandler int
  | PrintkRatelimit
  | PerfFault
  | PerfMaj
  | PerfMin
  | EmulateVsyscall u64 u64
  | DownReadTrylock
  | DownRead
  | UpRead
  | ExpandStack vma u64
  | HandleMmFault vma u64 u32
  | OutOfMemory
  | CheckV8086 u64
  | FlushLazyMmu
  | TraceUser u64 u64
  | TraceKernel u64 u64

datatype fquery = KmmioActive | InInterrupt | SigOnUaccessErr | OopsMayPrint | StackEndCorrupted
  | UnhandledSigsegv | HasMm | FaulthandlerDisabled | FatalSignalPending | TracePagefaultEnabled
  | CpuSMAP | CpuOSPKE | CpuSMEP | PgtableL5 | AmdK8 | PidAbove1

datatype fmsg =
    PrNxExec
  | PrSmepExec
  | PrNullDeref u64
  | PrUnable u64
  | PrWho bool bool bool bool
  | PrCode u64 string
  | PrTables
  | PrDesc string u16 string
  | PrDescAt string u16 u64 u32
  | PrEntry string u64
  | PrEndl
  | PrBad
  | PrCorrupted u64
  | PrStackOverrun
  | PrCr2 u64
  | PrSegfault bool u64 u64 u64 u64
  | PrVmaAddr u64
  | PrOpcodes bool
  | PrErrata93
  | PrMce u64
  | WarnPk
  | WarnPmd

record 'w flt =
  f_regs :: pt_regs
  f_irq :: bool
  f_sem :: int
  trap_nr :: u64
  trap_error_code :: u64
  trap_cr2 :: u64
  maj_flt :: u64
  min_flt :: u64
  f_ptm :: ptmem
  f_pr :: "fmsg list"
  f_calls :: "fcall list"
  show_unhandled_signals :: bool
  f_world :: 'w

text \<open>A descriptor as \<open>show_ldttss\<close> reads it: \<open>base0\<close> to \<open>base3\<close>, \<open>limit0\<close>, \<open>limit1\<close>.\<close>

record ldttss_desc =
  base0 :: u64
  base1 :: u64
  base2 :: u64
  base3 :: u64
  limit0 :: u32
  limit1 :: u32

record 'w fenv =
  fh :: hdr
  pf :: "pfbit \<Rightarrow> u64"
  vmf :: "vmfault \<Rightarrow> u32"
  ffl :: "fltflag \<Rightarrow> u32"
  vmfl :: "vmflag \<Rightarrow> u64"
  TASK_SIZE_MAX :: u64
  VSYSCALL_ADDR :: u64
  VMALLOC_START :: u64
  VMALLOC_END :: u64
  MODULES_VADDR :: u64
  MODULES_END :: u64
  THREAD_SIZE :: u64
  F_USER32_CS :: u64
  EFLAGS_AC :: u64
  EFLAGS_IF :: u64
  PAGE_USER :: u64
  X86_TRAP_PF :: u64
  HPOISON_SHIFT :: "u32 \<Rightarrow> nat"
  user_mode :: "pt_regs \<Rightarrow> bool"
  user_64bit_mode :: "pt_regs \<Rightarrow> bool"
  convert_ip_to_linear :: "'w flt \<Rightarrow> u64"
  cr3_va :: "'w flt \<Rightarrow> u64"
  probe_byte :: "'w flt \<Rightarrow> u64 \<Rightarrow> u8 option"
  probe_word :: "'w flt \<Rightarrow> u64 \<Rightarrow> u64 option"
  pgd_flags :: "u64 \<Rightarrow> u64"
  is_vmalloc_addr :: "u64 \<Rightarrow> bool"
  task_stack :: "'w flt \<Rightarrow> u64"
  gdt_address :: "'w flt \<Rightarrow> u64"
  gdt_size :: "'w flt \<Rightarrow> u16"
  ldtr :: "'w flt \<Rightarrow> u16"
  task_reg :: "'w flt \<Rightarrow> u16"
  probe_desc :: "'w flt \<Rightarrow> u64 \<Rightarrow> ldttss_desc option"
  search_exception_tables :: "u64 \<Rightarrow> bool"
  find_vma :: "'w flt \<Rightarrow> u64 \<Rightarrow> vma option"
  vma_pkey :: "vma \<Rightarrow> u32"
  arch_vma_access_permitted :: "'w flt \<Rightarrow> vma \<Rightarrow> bool \<Rightarrow> bool \<Rightarrow> bool"
  kallsyms_lookup_name :: "string \<Rightarrow> u64"
  ask :: "fquery \<Rightarrow> 'w flt \<Rightarrow> bool"
  oops_end_returns :: "fsig \<Rightarrow> bool"
  fext :: "fcall \<Rightarrow> 'w flt \<Rightarrow> u64 \<times> 'w flt"

text \<open>
  How a handler ends: it returns, or the thread goes no further (\<open>BUG\<close>, \<open>oops_end\<close> with a
  signal, the stack overflow handler).
\<close>

datatype 's fres = Fin 's | Dead 's

primrec final :: "'s fres \<Rightarrow> 's" where
  "final (Fin s) = s"
| "final (Dead s) = s"

section \<open>Calls and messages\<close>

definition fdo :: "'w fenv \<Rightarrow> fcall \<Rightarrow> 'w flt \<Rightarrow> u64 \<times> 'w flt" where
  "fdo v c s = (let (r, s1) = fext v c s in (r, s1\<lparr>f_calls := f_calls s @ [c]\<rparr>))"

definition pr :: "fmsg list \<Rightarrow> 'w flt \<Rightarrow> 'w flt" where
  "pr ms s = s\<lparr>f_pr := f_pr s @ ms\<rparr>"

text \<open>\<open>printk_once\<close>, \<open>WARN_ONCE\<close> and \<open>WARN_ON_ONCE\<close>.\<close>

definition pr_once :: "fmsg \<Rightarrow> 'w flt \<Rightarrow> 'w flt" where
  "pr_once m s = (if m \<in> set (f_pr s) then s else pr [m] s)"

definition down_read :: "'w fenv \<Rightarrow> 'w flt \<Rightarrow> 'w flt" where
  "down_read v s = (let s1 = snd (fdo v DownRead s) in s1\<lparr>f_sem := f_sem s1 + 1\<rparr>)"

definition up_read :: "'w fenv \<Rightarrow> 'w flt \<Rightarrow> 'w flt" where
  "up_read v s = (let s1 = snd (fdo v UpRead s) in s1\<lparr>f_sem := f_sem s1 - 1\<rparr>)"

definition down_read_trylock :: "'w fenv \<Rightarrow> 'w flt \<Rightarrow> bool \<times> 'w flt" where
  "down_read_trylock v s =
     (let (r, s1) = fdo v DownReadTrylock s
      in if r \<noteq> 0 then (True, s1\<lparr>f_sem := f_sem s1 + 1\<rparr>) else (False, s1))"

section \<open>Prefetch and CPU errata\<close>

definition kmmio_fault :: "'w fenv \<Rightarrow> u64 \<Rightarrow> 'w flt \<Rightarrow> bool \<times> 'w flt" where
  "kmmio_fault v addr s =
     (if ask v KmmioActive s
      then let (r, s1) = fdo v (KmmioHandler addr) s in (r = 1, s1) else (False, s))"

text \<open>Whether to go on to the next byte, and the new value of \<open>*prefetch\<close>.\<close>

definition check_prefetch_opcode :: "'w fenv \<Rightarrow> u64 \<Rightarrow> u8 \<Rightarrow> bool \<Rightarrow> 'w flt \<Rightarrow> bool \<times> bool" where
  "check_prefetch_opcode v instr opcode prefetch s =
     (let instr_hi = opcode AND 0xf0; instr_lo = opcode AND 0x0f in
      if instr_hi = 0x20 \<or> instr_hi = 0x30 then (instr_lo AND 7 = 6, prefetch)
      else if instr_hi = 0x40
      then (\<not> user_mode v (f_regs s) \<or> user_64bit_mode v (f_regs s), prefetch)
      else if instr_hi = 0x60 then (instr_lo AND 0xC = 4, prefetch)
      else if instr_hi = 0xF0 then (instr_lo = 0 \<or> drop_bit 1 instr_lo = 1, prefetch)
      else if instr_hi = 0
      then (case probe_byte v s instr of
              None \<Rightarrow> (False, prefetch)
            | Some op2 \<Rightarrow> (False, instr_lo = 0xF \<and> (op2 = 0x0D \<or> op2 = 0x18)))
      else (False, prefetch))"

text \<open>At most 15 bytes are looked at.\<close>

primrec prefetch_loop :: "nat \<Rightarrow> 'w fenv \<Rightarrow> u64 \<Rightarrow> u64 \<Rightarrow> bool \<Rightarrow> 'w flt \<Rightarrow> bool" where
  "prefetch_loop 0 v instr max_instr prefetch s = prefetch"
| "prefetch_loop (Suc n) v instr max_instr prefetch s =
     (if instr < max_instr
      then case probe_byte v s instr of
             None \<Rightarrow> prefetch
           | Some opcode \<Rightarrow>
               let (go, p1) = check_prefetch_opcode v (instr + 1) opcode prefetch s
               in if go then prefetch_loop n v (instr + 1) max_instr p1 s else p1
      else prefetch)"

definition is_prefetch :: "'w fenv \<Rightarrow> u64 \<Rightarrow> 'w flt \<Rightarrow> bool" where
  "is_prefetch v error_code s =
     (if test error_code (pf v PF_INSTR) then False
      else let instr = convert_ip_to_linear v s
        in if user_mode v (f_regs s) \<and> instr \<ge> TASK_SIZE_MAX v then False
           else prefetch_loop 15 v instr (instr + 15) False s)"

definition is_errata93 :: "'w fenv \<Rightarrow> u64 \<Rightarrow> 'w flt \<Rightarrow> bool \<times> 'w flt" where
  "is_errata93 v address s =
     (if \<not> ask v AmdK8 s then (False, s)
      else if address \<noteq> ip (f_regs s) then (False, s)
      else if drop_bit 32 address \<noteq> 0 then (False, s)
      else let a = address OR push_bit 32 0xffffffff
        in if a \<ge> ksym (fh v) STEXT \<and> a \<le> ksym (fh v) SETEXT
              \<or> a \<ge> MODULES_VADDR v \<and> a \<le> MODULES_END v
           then let s1 = pr_once PrErrata93 s in (True, s1\<lparr>f_regs := (f_regs s1)\<lparr>ip := a\<rparr>\<rparr>)
           else (False, s))"

definition is_errata100 :: "'w fenv \<Rightarrow> u64 \<Rightarrow> pt_regs \<Rightarrow> bool" where
  "is_errata100 v address regs \<longleftrightarrow>
     (cs regs = F_USER32_CS v \<or> test (cs regs) 4) \<and> drop_bit 32 address \<noteq> 0"

text \<open>\<open>CONFIG_X86_F00F_BUG\<close> is not set on 64 bit.\<close>

definition is_f00f_bug :: "u64 \<Rightarrow> pt_regs \<Rightarrow> bool" where
  "is_f00f_bug address regs = False"

section \<open>Kernel page tables\<close>

text \<open>\<open>set_pgd\<close> or \<open>set_p4d\<close> followed by \<open>arch_flush_lazy_mmu_mode\<close>.\<close>

definition vmalloc_sync :: "'w fenv \<Rightarrow> u64 \<Rightarrow> u64 \<Rightarrow> 'w flt \<Rightarrow> 'w flt" where
  "vmalloc_sync v p e s = snd (fdo v FlushLazyMmu (s\<lparr>f_ptm := (f_ptm s)(p := e)\<rparr>))"

definition vmalloc_walk :: "'w fenv \<Rightarrow> u64 \<Rightarrow> u64 \<Rightarrow> ptmem \<Rightarrow> bool" where
  "vmalloc_walk v address p4d m =
     (let h = fh v; pud = pud_offset h m p4d address in
      if pud_none h (m pud) then False else
      if pud_large h (m pud) then True else
      let pmd = pmd_offset h m pud address in
      if pmd_none h (m pmd) then False else
      if pmd_large h (m pmd) then True else
      pte_present h (m (pte_offset_kernel h m pmd address)))"

text \<open>\<open>Some True\<close> is 0, \<open>Some False\<close> is -1, \<open>None\<close> a failed \<open>BUG_ON\<close>.\<close>

definition vmalloc_fault :: "'w fenv \<Rightarrow> u64 \<Rightarrow> 'w flt \<Rightarrow> bool option \<times> 'w flt" where
  "vmalloc_fault v address s =
     (let h = fh v; l5 = ask v PgtableL5 s;
          pgd = cr3_va v s + 8 * pgd_index h address; pgd_k = pgd_offset_k h address; m = f_ptm s in
      if \<not> (address \<ge> VMALLOC_START v \<and> address < VMALLOC_END v) then (Some False, s)
      else if pgd_none h (m pgd_k) then (Some False, s)
      else if l5 \<and> \<not> pgd_none h (m pgd)
              \<and> ent_page_vaddr h Pgd (m pgd) \<noteq> ent_page_vaddr h Pgd (m pgd_k) then (None, s)
      else
      let s1 = (if l5 \<and> pgd_none h (m pgd) then vmalloc_sync v pgd (m pgd_k) s else s);
          m1 = f_ptm s1;
          p4d = p4d_offset h m1 pgd address; p4d_k = p4d_offset h m1 pgd_k address in
      if p4d_none h (m1 p4d_k) then (Some False, s1)
      else if p4d_none h (m1 p4d) \<and> \<not> l5
      then let s2 = vmalloc_sync v p4d (m1 p4d_k) s1 in (Some (vmalloc_walk v address p4d (f_ptm s2)), s2)
      else if ent_pfn h P4d (m1 p4d) \<noteq> ent_pfn h P4d (m1 p4d_k) then (None, s1)
      else (Some (vmalloc_walk v address p4d m1), s1))"

definition bad_address :: "'w fenv \<Rightarrow> u64 \<Rightarrow> 'w flt \<Rightarrow> bool" where
  "bad_address v p s \<longleftrightarrow> probe_word v s p = None"

definition dump_pagetable :: "'w fenv \<Rightarrow> u64 \<Rightarrow> 'w flt \<Rightarrow> 'w flt" where
  "dump_pagetable v address s = pr
     (let h = fh v; m = f_ptm s; pgd = cr3_va v s + 8 * pgd_index h address in
      if bad_address v pgd s then [PrBad] else PrEntry ''PGD'' (m pgd) #
      (if \<not> pgd_present h (m pgd) then [PrEndl] else
       let p4d = p4d_offset h m pgd address in
       if bad_address v p4d s then [PrBad] else PrEntry ''P4D'' (m p4d) #
       (if \<not> p4d_present h (m p4d) \<or> p4d_large h (m p4d) then [PrEndl] else
        let pud = pud_offset h m p4d address in
        if bad_address v pud s then [PrBad] else PrEntry ''PUD'' (m pud) #
        (if \<not> pud_present h (m pud) \<or> pud_large h (m pud) then [PrEndl] else
         let pmd = pmd_offset h m pud address in
         if bad_address v pmd s then [PrBad] else PrEntry ''PMD'' (m pmd) #
         (if \<not> pmd_present h (m pmd) \<or> pmd_large h (m pmd) then [PrEndl] else
          let pte = pte_offset_kernel h m pmd address in
          if bad_address v pte s then [PrBad] else [PrEntry ''PTE'' (m pte), PrEndl]))))) s"

definition spurious_kernel_fault_check :: "'w fenv \<Rightarrow> u64 \<Rightarrow> u64 \<Rightarrow> bool" where
  "spurious_kernel_fault_check v error_code e \<longleftrightarrow>
     \<not> (test error_code (pf v PF_WRITE) \<and> \<not> pte_write (fh v) e)
     \<and> \<not> (test error_code (pf v PF_INSTR) \<and> \<not> pte_exec (fh v) e)"

definition spurious_kernel_fault :: "'w fenv \<Rightarrow> u64 \<Rightarrow> u64 \<Rightarrow> 'w flt \<Rightarrow> bool \<times> 'w flt" where
  "spurious_kernel_fault v error_code address s =
     (let h = fh v; m = f_ptm s; ok = (\<lambda>p. spurious_kernel_fault_check v error_code (m p)) in
      if error_code \<noteq> pf v PF_WRITE OR pf v PF_PROT \<and> error_code \<noteq> pf v PF_INSTR OR pf v PF_PROT
      then (False, s) else
      let pgd = init_mm_pgd h + 8 * pgd_index h address in
      if \<not> pgd_present h (m pgd) then (False, s) else
      let p4d = p4d_offset h m pgd address in
      if \<not> p4d_present h (m p4d) then (False, s) else
      if p4d_large h (m p4d) then (ok p4d, s) else
      let pud = pud_offset h m p4d address in
      if \<not> pud_present h (m pud) then (False, s) else
      if pud_large h (m pud) then (ok pud, s) else
      let pmd = pmd_offset h m pud address in
      if \<not> pmd_present h (m pmd) then (False, s) else
      if pmd_large h (m pmd) then (ok pmd, s) else
      let pte = pte_offset_kernel h m pmd address in
      if \<not> pte_present h (m pte) then (False, s) else
      if \<not> ok pte then (False, s) else
      (ok pmd, if ok pmd then s else pr_once WarnPmd s))"

section \<open>Reporting\<close>

text \<open>A descriptor of the table is 8 bytes, a system descriptor 16.\<close>

definition show_ldttss :: "'w fenv \<Rightarrow> string \<Rightarrow> u16 \<Rightarrow> 'w flt \<Rightarrow> 'w flt" where
  "show_ldttss v name index s =
     (let off = (ucast (drop_bit 3 index) :: u64) * 8 in
      if index = 0 then pr [PrDesc name index ''NULL''] s
      else if off + 16 \<ge> ucast (gdt_size v s) then pr [PrDesc name index ''out of bounds''] s
      else case probe_desc v s (gdt_address v s + off) of
             None \<Rightarrow> pr [PrDesc name index ''GDT entry is not readable''] s
           | Some d \<Rightarrow>
               pr [PrDescAt name index (base0 d OR push_bit 16 (base1 d) OR push_bit 24 (base2 d)
                     OR push_bit 32 (base3 d)) (limit0 d OR push_bit 16 (limit1 d))] s)"

definition exec_msgs :: "'w fenv \<Rightarrow> u64 \<Rightarrow> 'w flt \<Rightarrow> fmsg list" where
  "exec_msgs v address s =
     (let h = fh v; m = f_ptm s; pgd = cr3_va v s + 8 * pgd_index h address in
      case fst (lookup_address_in_pgd h m pgd address) of
        None \<Rightarrow> []
      | Some pte \<Rightarrow>
          (if pte_present h (m pte) \<and> \<not> pte_exec h (m pte) then [PrNxExec] else [])
          @ (if pte_present h (m pte) \<and> pte_exec h (m pte) \<and> test (pgd_flags v (m pgd)) (PAGE_USER v)
                \<and> ask v CpuSMEP s then [PrSmepExec] else []))"

definition code_text :: "'w fenv \<Rightarrow> u64 \<Rightarrow> string" where
  "code_text v error_code =
     (if \<not> test error_code (pf v PF_PROT) then ''not-present page''
      else if test error_code (pf v PF_RSVD) then ''reserved bit violation''
      else if test error_code (pf v PF_PK) then ''protection keys violation''
      else ''permissions violation'')"

definition show_fault_oops :: "'w fenv \<Rightarrow> u64 \<Rightarrow> u64 \<Rightarrow> 'w flt \<Rightarrow> 'w flt" where
  "show_fault_oops v error_code address s =
     (if \<not> ask v OopsMayPrint s then s else
      let um = user_mode v (f_regs s);
          s1 = (if test error_code (pf v PF_INSTR) then pr (exec_msgs v address s) s else s);
          s2 = pr [if address < PAGE_SIZE (fh v) \<and> \<not> um then PrNullDeref address else PrUnable address,
                   PrWho (test error_code (pf v PF_USER)) (test error_code (pf v PF_INSTR))
                     (test error_code (pf v PF_WRITE)) um,
                   PrCode error_code (code_text v error_code)] s1;
          s3 = (if \<not> test error_code (pf v PF_USER) \<and> um
                then show_ldttss v ''TR'' (task_reg v s2)
                       (show_ldttss v ''LDTR'' (ldtr v s2) (pr [PrTables] s2))
                else s2)
      in dump_pagetable v address s3)"

definition oops_end :: "'w fenv \<Rightarrow> fsig \<Rightarrow> 'w flt \<Rightarrow> 'w flt fres" where
  "oops_end v sig s =
     (let s1 = snd (fdo v (OopsEnd sig) s) in if oops_end_returns v sig then Fin s1 else Dead s1)"

definition pgtable_bad :: "'w fenv \<Rightarrow> u64 \<Rightarrow> u64 \<Rightarrow> 'w flt \<Rightarrow> 'w flt fres" where
  "pgtable_bad v error_code address s =
     (let s1 = pr [PrCorrupted address] (snd (fdo v OopsBegin s));
          (r, s2) = fdo v (Die ''Bad pagetable'' error_code) (dump_pagetable v address s1)
      in oops_end v (if r \<noteq> 0 then NoSig else SIGKILL) s2)"

definition set_signal_archinfo :: "'w fenv \<Rightarrow> u64 \<Rightarrow> u64 \<Rightarrow> 'w flt \<Rightarrow> 'w flt" where
  "set_signal_archinfo v address error_code s =
     s\<lparr>trap_nr := X86_TRAP_PF v,
       trap_error_code := (if address \<ge> TASK_SIZE_MAX v then error_code OR pf v PF_PROT else error_code)
          OR pf v PF_USER,
       trap_cr2 := address\<rparr>"

section \<open>Faults in kernel mode\<close>

text \<open>From the label \<open>oops\<close> on.\<close>

definition no_context_oops :: "'w fenv \<Rightarrow> u64 \<Rightarrow> u64 \<Rightarrow> 'w flt \<Rightarrow> 'w flt fres" where
  "no_context_oops v error_code address s =
     (let s1 = show_fault_oops v error_code address (snd (fdo v OopsBegin s));
          s2 = (if ask v StackEndCorrupted s1 then pr [PrStackOverrun] s1 else s1);
          (r, s3) = fdo v (Die ''Oops'' error_code) s2
      in oops_end v (if r \<noteq> 0 then NoSig else SIGKILL) (pr [PrCr2 address] s3))"

text \<open>What follows a successful \<open>fixup_exception\<close>.\<close>

definition after_fixup :: "'w fenv \<Rightarrow> u64 \<Rightarrow> u64 \<Rightarrow> fsig \<Rightarrow> sicode \<Rightarrow> 'w flt \<Rightarrow> 'w flt" where
  "after_fixup v error_code address signal si_code s =
     (if ask v InInterrupt s then s
      else if ask v SigOnUaccessErr s \<and> signal \<noteq> NoSig
      then snd (fdo v (ForceSigFault signal si_code address) (set_signal_archinfo v address error_code s))
      else s)"

text \<open>
  The patch: ask the module whether the fault is its own and resume at the address its error
  handler gives. The first component says that \<open>no_context\<close> returns here.
\<close>

definition ub_fixup :: "'w fenv \<Rightarrow> u64 \<Rightarrow> 'w flt \<Rightarrow> bool \<times> 'w flt" where
  "ub_fixup v address s =
     (if kallsyms_lookup_name v ''UB_fault_address_space'' = 0 then (False, s)
      else let (ret, s1) = fdo v (UbFaultAddressSpace address (r13 (f_regs s))) s
        in if (ucast ret :: cint) = 1 \<and> kallsyms_lookup_name v ''UB_SFI_error_handler'' \<noteq> 0
           then let (a, s2) = fdo v (UbErrorHandler (-0x200)) s1
                in (True, s2\<lparr>f_regs := (f_regs s2)\<lparr>ip := a\<rparr>\<rparr>)
           else (False, s1))"

definition near_stack :: "'w fenv \<Rightarrow> u64 \<Rightarrow> 'w flt \<Rightarrow> bool" where
  "near_stack v address s \<longleftrightarrow> is_vmalloc_addr v address
     \<and> (task_stack v s - 1 - address < PAGE_SIZE (fh v)
        \<or> address - (task_stack v s + THREAD_SIZE v) < PAGE_SIZE (fh v))"

definition no_context :: "'w fenv \<Rightarrow> u64 \<Rightarrow> u64 \<Rightarrow> fsig \<Rightarrow> sicode \<Rightarrow> 'w flt \<Rightarrow> 'w flt fres" where
  "no_context v error_code address signal si_code s =
     (if user_mode v (f_regs s) then no_context_oops v error_code address s else
      let (fixed, s1) = fdo v (FixupException error_code address) s in
      if fixed \<noteq> 0 then Fin (after_fixup v error_code address signal si_code s1) else
      let (ub, s2) = ub_fixup v address s1 in
      if ub then Fin s2 else
      if near_stack v address s2 then Dead (snd (fdo v (HandleStackOverflow address) s2)) else
      if is_prefetch v error_code s2 then Fin s2 else
      let (e93, s3) = is_errata93 v address s2 in
      if e93 then Fin s3 else
      no_context_oops v error_code address (snd (fdo v (EfiRecover address) s3)))"

section \<open>Bad areas\<close>

definition show_signal_msg :: "'w fenv \<Rightarrow> u64 \<Rightarrow> u64 \<Rightarrow> 'w flt \<Rightarrow> 'w flt" where
  "show_signal_msg v error_code address s =
     (let info_level = ask v PidAbove1 s in
      if \<not> ask v UnhandledSigsegv s then s else
      let (r, s1) = fdo v PrintkRatelimit s in
      if r = 0 then s1
      else pr [PrSegfault info_level address (ip (f_regs s1)) (sp (f_regs s1)) error_code,
               PrVmaAddr (ip (f_regs s1)), PrEndl, PrOpcodes info_level] s1)"

definition is_vsyscall_vaddr :: "'w fenv \<Rightarrow> u64 \<Rightarrow> bool" where
  "is_vsyscall_vaddr v vaddr \<longleftrightarrow> vaddr AND PAGE_MASK (fh v) = VSYSCALL_ADDR v"

definition raw_bad_area_nosemaphore ::
  "'w fenv \<Rightarrow> u64 \<Rightarrow> u64 \<Rightarrow> u32 \<Rightarrow> sicode \<Rightarrow> 'w flt \<Rightarrow> 'w flt fres" where
  "raw_bad_area_nosemaphore v error_code address pkey si_code s =
     (if user_mode v (f_regs s) \<and> test error_code (pf v PF_USER)
      then let s1 = s\<lparr>f_irq := True\<rparr> in
        if is_prefetch v error_code s1 then Fin s1 else
        if is_errata100 v address (f_regs s1) then Fin s1 else
        let ec = (if address \<ge> TASK_SIZE_MAX v then error_code OR pf v PF_PROT else error_code);
            s2 = (if show_unhandled_signals s1 then show_signal_msg v ec address s1 else s1);
            s3 = set_signal_archinfo v address ec s2;
            s4 = (if si_code = SEGV_PKUERR then snd (fdo v (ForceSigPkuerr address pkey) s3) else s3)
        in Fin (snd (fdo v (ForceSigFault SIGSEGV si_code address) s4))
      else if is_f00f_bug address (f_regs s) then Fin s
      else no_context v error_code address SIGSEGV si_code s)"

definition bad_area_nosemaphore :: "'w fenv \<Rightarrow> u64 \<Rightarrow> u64 \<Rightarrow> 'w flt \<Rightarrow> 'w flt fres" where
  "bad_area_nosemaphore v error_code address s =
     raw_bad_area_nosemaphore v error_code address 0 SEGV_MAPERR s"

definition raw_bad_area :: "'w fenv \<Rightarrow> u64 \<Rightarrow> u64 \<Rightarrow> u32 \<Rightarrow> sicode \<Rightarrow> 'w flt \<Rightarrow> 'w flt fres" where
  "raw_bad_area v error_code address pkey si_code s =
     raw_bad_area_nosemaphore v error_code address pkey si_code (up_read v s)"

definition bad_area :: "'w fenv \<Rightarrow> u64 \<Rightarrow> u64 \<Rightarrow> 'w flt \<Rightarrow> 'w flt fres" where
  "bad_area v error_code address s = raw_bad_area v error_code address 0 SEGV_MAPERR s"

definition bad_area_access_from_pkeys :: "'w fenv \<Rightarrow> u64 \<Rightarrow> vma \<Rightarrow> 'w flt \<Rightarrow> bool" where
  "bad_area_access_from_pkeys v error_code a s =
     (if \<not> ask v CpuOSPKE s then False
      else if test error_code (pf v PF_PK) then True
      else \<not> arch_vma_access_permitted v s a (test error_code (pf v PF_WRITE))
              (test error_code (pf v PF_INSTR)))"

definition bad_area_access_error :: "'w fenv \<Rightarrow> u64 \<Rightarrow> u64 \<Rightarrow> vma \<Rightarrow> 'w flt \<Rightarrow> 'w flt fres" where
  "bad_area_access_error v error_code address a s =
     (if bad_area_access_from_pkeys v error_code a s
      then raw_bad_area v error_code address (vma_pkey v a) SEGV_PKUERR s
      else raw_bad_area v error_code address 0 SEGV_ACCERR s)"

definition do_sigbus :: "'w fenv \<Rightarrow> u64 \<Rightarrow> u64 \<Rightarrow> u32 \<Rightarrow> 'w flt \<Rightarrow> 'w flt fres" where
  "do_sigbus v error_code address fault s =
     (if \<not> test error_code (pf v PF_USER) then no_context v error_code address SIGBUS BUS_ADRERR s
      else if is_prefetch v error_code s then Fin s else
      let s1 = set_signal_archinfo v address error_code s in
      if test fault (vmf v VM_HWPOISON OR vmf v VM_HWPOISON_LARGE)
      then let lsb = (if test fault (vmf v VM_HWPOISON) then PAGE_SHIFT (fh v)
                      else if test fault (vmf v VM_HWPOISON_LARGE) then HPOISON_SHIFT v fault else 0)
        in Fin (snd (fdo v (ForceSigMceerr address lsb) (pr [PrMce address] s1)))
      else Fin (snd (fdo v (ForceSigFault SIGBUS BUS_ADRERR address) s1)))"

definition mm_fault_error :: "'w fenv \<Rightarrow> u64 \<Rightarrow> u64 \<Rightarrow> u32 \<Rightarrow> 'w flt \<Rightarrow> 'w flt fres" where
  "mm_fault_error v error_code address fault s =
     (if ask v FatalSignalPending s \<and> \<not> test error_code (pf v PF_USER)
      then no_context v error_code address NoSig NoCode s
      else if test fault (vmf v VM_OOM)
      then if \<not> test error_code (pf v PF_USER)
           then no_context v error_code address SIGSEGV SEGV_MAPERR s
           else Fin (snd (fdo v OutOfMemory s))
      else if test fault (vmf v VM_SIGBUS OR vmf v VM_HWPOISON OR vmf v VM_HWPOISON_LARGE)
      then do_sigbus v error_code address fault s
      else if test fault (vmf v VM_SIGSEGV) then bad_area_nosemaphore v error_code address s
      else Dead s)"

section \<open>Dispatch\<close>

definition access_error :: "'w fenv \<Rightarrow> u64 \<Rightarrow> vma \<Rightarrow> 'w flt \<Rightarrow> bool" where
  "access_error v error_code a s =
     (if test error_code (pf v PF_PK) then True
      else if \<not> arch_vma_access_permitted v s a (test error_code (pf v PF_WRITE))
                (test error_code (pf v PF_INSTR)) then True
      else if test error_code (pf v PF_WRITE) then \<not> test (vm_flags a) (vmfl v VMWRITE)
      else if test error_code (pf v PF_PROT) then True
      else \<not> test (vm_flags a) (vmfl v VMREAD OR vmfl v VMEXEC OR vmfl v VMWRITE))"

definition fault_in_kernel_space :: "'w fenv \<Rightarrow> u64 \<Rightarrow> bool" where
  "fault_in_kernel_space v address =
     (if is_vsyscall_vaddr v address then False else address \<ge> TASK_SIZE_MAX v)"

definition kern_addr_tail :: "'w fenv \<Rightarrow> u64 \<Rightarrow> u64 \<Rightarrow> 'w flt \<Rightarrow> 'w flt fres" where
  "kern_addr_tail v error_code address s =
     (let (spurious, s1) = spurious_kernel_fault v error_code address s in
      if spurious then Fin s1 else
      let (kp, s2) = fdo v KprobePageFault s1 in
      if kp \<noteq> 0 then Fin s2 else bad_area_nosemaphore v error_code address s2)"

definition do_kern_addr_fault :: "'w fenv \<Rightarrow> u64 \<Rightarrow> u64 \<Rightarrow> 'w flt \<Rightarrow> 'w flt fres" where
  "do_kern_addr_fault v error_code address s =
     (let s0 = (if test error_code (pf v PF_PK) then pr_once WarnPk s else s) in
      if \<not> test error_code (pf v PF_RSVD OR pf v PF_USER OR pf v PF_PROT)
      then case vmalloc_fault v address s0 of
             (None, s1) \<Rightarrow> Dead s1
           | (Some True, s1) \<Rightarrow> Fin s1
           | (Some False, s1) \<Rightarrow> kern_addr_tail v error_code address s1
      else kern_addr_tail v error_code address s0)"

text \<open>
  After \<open>handle_mm_fault\<close> returned \<open>fault\<close>: \<open>Inl\<close> is the jump to \<open>retry\<close> with the new
  flags.
\<close>

definition user_fault_result ::
  "'w fenv \<Rightarrow> u64 \<Rightarrow> u64 \<Rightarrow> u32 \<Rightarrow> u32 \<Rightarrow> u32 \<Rightarrow> 'w flt \<Rightarrow> (u32 \<times> 'w flt) + 'w flt fres" where
  "user_fault_result v error_code address fault fl major s =
     (if test fault (vmf v VM_RETRY)
      then let again = test fl (ffl v ALLOW_RETRY);
               fl1 = (if again then (fl AND NOT (ffl v ALLOW_RETRY)) OR ffl v TRIED else fl)
        in if again \<and> \<not> ask v FatalSignalPending s then Inl (fl1, s)
           else if test fl1 (ffl v FUSER) then Inr (Fin s)
           else Inr (no_context v error_code address SIGBUS BUS_ADRERR s)
      else let s1 = up_read v s in
        if test fault (vmf v VM_ERROR) then Inr (mm_fault_error v error_code address fault s1)
        else let s2 = (if major \<noteq> 0 then snd (fdo v PerfMaj (s1\<lparr>maj_flt := maj_flt s1 + 1\<rparr>))
                       else snd (fdo v PerfMin (s1\<lparr>min_flt := min_flt s1 + 1\<rparr>)))
          in Inr (Fin (snd (fdo v (CheckV8086 address) s2))))"

text \<open>From the label \<open>good_area\<close> on; \<open>major\<close> accumulates over the attempts.\<close>

definition good_area ::
  "'w fenv \<Rightarrow> u64 \<Rightarrow> u64 \<Rightarrow> vma \<Rightarrow> u32 \<Rightarrow> u32 \<Rightarrow> 'w flt
     \<Rightarrow> (u32 \<times> u32 \<times> 'w flt) + 'w flt fres" where
  "good_area v error_code address a fl major s =
     (if access_error v error_code a s then Inr (bad_area_access_error v error_code address a s) else
      let (r, s1) = fdo v (HandleMmFault a address fl) s;
          fault = ucast r; major1 = major OR (fault AND vmf v VM_MAJOR)
      in case user_fault_result v error_code address fault fl major1 s1 of
           Inl (fl1, s2) \<Rightarrow> Inl (fl1, major1, s2)
         | Inr e \<Rightarrow> Inr e)"

text \<open>One attempt, with \<open>mmap_sem\<close> held.\<close>

definition user_fault_attempt ::
  "'w fenv \<Rightarrow> u64 \<Rightarrow> u64 \<Rightarrow> u32 \<Rightarrow> u32 \<Rightarrow> 'w flt \<Rightarrow> (u32 \<times> u32 \<times> 'w flt) + 'w flt fres" where
  "user_fault_attempt v error_code address fl major s =
     (case find_vma v s address of
        None \<Rightarrow> Inr (bad_area v error_code address s)
      | Some a \<Rightarrow>
          if vm_start a \<le> address then good_area v error_code address a fl major s
          else if \<not> test (vm_flags a) (vmfl v GROWSDOWN) then Inr (bad_area v error_code address s)
          else let (r, s1) = fdo v (ExpandStack a address) s in
            if r \<noteq> 0 then Inr (bad_area v error_code address s1)
            else good_area v error_code address a fl major s1)"

text \<open>\<open>None\<close>: the jump to \<open>retry\<close> is taken for ever.\<close>

partial_function (option) user_fault_loop ::
  "'w fenv \<Rightarrow> u64 \<Rightarrow> u64 \<Rightarrow> u32 \<Rightarrow> u32 \<Rightarrow> 'w flt \<Rightarrow> 'w flt fres option" where
  "user_fault_loop v error_code address fl major s =
     (case user_fault_attempt v error_code address fl major s of
        Inr e \<Rightarrow> Some e
      | Inl t \<Rightarrow> user_fault_loop v error_code address (fst t) (fst (snd t)) (down_read v (snd (snd t))))"

definition fault_flags :: "'w fenv \<Rightarrow> u64 \<Rightarrow> bool \<Rightarrow> u32" where
  "fault_flags v error_code um =
     ffl v ALLOW_RETRY OR ffl v KILLABLE
     OR (if um then ffl v FUSER else 0)
     OR (if test error_code (pf v PF_WRITE) then ffl v FWRITE else 0)
     OR (if test error_code (pf v PF_INSTR) then ffl v FINSTRUCTION else 0)"

text \<open>From the call of \<open>perf_sw_event\<close> on.\<close>

definition user_addr_locked :: "'w fenv \<Rightarrow> u64 \<Rightarrow> u64 \<Rightarrow> u32 \<Rightarrow> 'w flt \<Rightarrow> 'w flt fres option" where
  "user_addr_locked v error_code address fl s =
     (let s1 = snd (fdo v PerfFault s);
          vs = is_vsyscall_vaddr v address;
          (em, s2) = (if vs then fdo v (EmulateVsyscall error_code address) s1 else (0, s1)) in
      if vs \<and> em \<noteq> 0 then Some (Fin s2) else
      let (got, s3) = down_read_trylock v s2 in
      if got then user_fault_loop v error_code address fl 0 s3
      else if \<not> user_mode v (f_regs s3) \<and> \<not> search_exception_tables v (ip (f_regs s3))
      then Some (bad_area_nosemaphore v error_code address s3)
      else user_fault_loop v error_code address fl 0 (down_read v s3))"

text \<open>After the reserved-bit check, which may itself return.\<close>

definition user_addr_checked :: "'w fenv \<Rightarrow> u64 \<Rightarrow> u64 \<Rightarrow> 'w flt \<Rightarrow> 'w flt fres option" where
  "user_addr_checked v error_code address s =
     (if ask v CpuSMAP s \<and> \<not> test error_code (pf v PF_USER)
         \<and> \<not> test (eflags (f_regs s)) (EFLAGS_AC v)
      then Some (bad_area_nosemaphore v error_code address s)
      else if ask v FaulthandlerDisabled s \<or> \<not> ask v HasMm s
      then Some (bad_area_nosemaphore v error_code address s)
      else let um = user_mode v (f_regs s);
               s1 = (if um \<or> test (eflags (f_regs s)) (EFLAGS_IF v) then s\<lparr>f_irq := True\<rparr> else s)
        in user_addr_locked v error_code address (fault_flags v error_code um) s1)"

definition do_user_addr_fault :: "'w fenv \<Rightarrow> u64 \<Rightarrow> u64 \<Rightarrow> 'w flt \<Rightarrow> 'w flt fres option" where
  "do_user_addr_fault v error_code address s =
     (let (kp, s1) = fdo v KprobePageFault s in
      if kp \<noteq> 0 then Some (Fin s1)
      else if test error_code (pf v PF_RSVD)
      then case pgtable_bad v error_code address s1 of
             Dead s2 \<Rightarrow> Some (Dead s2)
           | Fin s2 \<Rightarrow> user_addr_checked v error_code address s2
      else user_addr_checked v error_code address s1)"

definition raw_do_page_fault :: "'w fenv \<Rightarrow> u64 \<Rightarrow> u64 \<Rightarrow> 'w flt \<Rightarrow> 'w flt fres option" where
  "raw_do_page_fault v error_code address s =
     (let (k, s1) = kmmio_fault v address s in
      if k then Some (Fin s1)
      else if fault_in_kernel_space v address
      then Some (do_kern_addr_fault v error_code address s1)
      else do_user_addr_fault v error_code address s1)"

definition trace_page_fault_entries :: "'w fenv \<Rightarrow> u64 \<Rightarrow> u64 \<Rightarrow> 'w flt \<Rightarrow> 'w flt" where
  "trace_page_fault_entries v error_code address s =
     (if \<not> ask v TracePagefaultEnabled s then s
      else if user_mode v (f_regs s) then snd (fdo v (TraceUser address error_code) s)
      else snd (fdo v (TraceKernel address error_code) s))"

text \<open>\<open>exception_enter\<close> and \<open>exception_exit\<close> do nothing without context tracking.\<close>

definition do_page_fault :: "'w fenv \<Rightarrow> u64 \<Rightarrow> u64 \<Rightarrow> 'w flt \<Rightarrow> 'w flt fres option" where
  "do_page_fault v error_code address s =
     raw_do_page_fault v error_code address (trace_page_fault_entries v error_code address s)"

section \<open>What is said of a fault\<close>

definition is_mm :: "fcall \<Rightarrow> bool" where
  "is_mm c = (case c of HandleMmFault a ad fl \<Rightarrow> True | _ \<Rightarrow> False)"

text \<open>How often \<open>mmap_sem\<close> is held, and how often \<open>handle_mm_fault\<close> has been called.\<close>

definition held :: "'w flt \<Rightarrow> int \<times> nat" where
  "held s = (f_sem s, length (filter is_mm (f_calls s)))"

definition sem_contract :: "'w fenv \<Rightarrow> bool" where
  "sem_contract v \<longleftrightarrow> (\<forall>c s. f_sem (snd (fext v c s)) =
     f_sem s - (if is_mm c \<and> test (ucast (fst (fext v c s)) :: u32) (vmf v VM_RETRY) then 1 else 0))"

text \<open>What one attempt does to the semaphore (held at its start) and to the number of calls.\<close>

definition attempt_ok :: "'w fenv \<Rightarrow> u32 \<Rightarrow> 'w flt \<Rightarrow> (u32 \<times> u32 \<times> 'w flt) + 'w flt fres \<Rightarrow> bool" where
  "attempt_ok v fl s r = (case r of
       Inl (fl1, _, s1) \<Rightarrow> held s1 = (f_sem s - 1, Suc (snd (held s)))
         \<and> test fl (ffl v ALLOW_RETRY) \<and> \<not> test fl1 (ffl v ALLOW_RETRY)
     | Inr e \<Rightarrow> f_sem (final e) = f_sem s - 1 \<and> snd (held (final e)) \<le> Suc (snd (held s)))"

definition settled :: "'w flt \<Rightarrow> 'w flt fres option \<Rightarrow> bool" where
  "settled s r = (case r of None \<Rightarrow> False
     | Some e \<Rightarrow> f_sem (final e) = f_sem s \<and> snd (held (final e)) \<le> snd (held s) + 2)"

text \<open>A machine on which user memory has one area, and \<open>handle_mm_fault\<close> asks for a retry while it may.\<close>

definition vma0 :: vma where
  "vma0 = \<lparr>vm_start = 0x400000, vm_flags = 7, vm_tag = 0\<rparr>"

definition ffl0 :: "fltflag \<Rightarrow> u32" where
  "ffl0 f = (case f of ALLOW_RETRY \<Rightarrow> 4 | KILLABLE \<Rightarrow> 16 | FUSER \<Rightarrow> 64 | FWRITE \<Rightarrow> 1 | FINSTRUCTION \<Rightarrow> 256
     | TRIED \<Rightarrow> 32)"

definition pf0 :: "pfbit \<Rightarrow> u64" where
  "pf0 b = (case b of PF_PROT \<Rightarrow> 1 | PF_WRITE \<Rightarrow> 2 | PF_USER \<Rightarrow> 4 | PF_RSVD \<Rightarrow> 8 | PF_INSTR \<Rightarrow> 16 | PF_PK \<Rightarrow> 32)"

definition vmf0 :: "vmfault \<Rightarrow> u32" where
  "vmf0 f = (case f of VM_OOM \<Rightarrow> 1 | VM_SIGBUS \<Rightarrow> 2 | VM_HWPOISON \<Rightarrow> 0x10 | VM_HWPOISON_LARGE \<Rightarrow> 0x20
     | VM_SIGSEGV \<Rightarrow> 0x40 | VM_RETRY \<Rightarrow> 0x400 | VM_MAJOR \<Rightarrow> 4 | VM_ERROR \<Rightarrow> 0x73)"

definition fext0 :: "fcall \<Rightarrow> unit flt \<Rightarrow> u64 \<times> unit flt" where
  "fext0 c s = (case c of
       HandleMmFault a ad fl \<Rightarrow>
         if test fl (ffl0 ALLOW_RETRY) then (0x400, s\<lparr>f_sem := f_sem s - 1\<rparr>) else (0, s)
     | DownReadTrylock \<Rightarrow> (1, s)
     | UbFaultAddressSpace a b \<Rightarrow> (1, s)
     | UbErrorHandler z \<Rightarrow> (0x5000, s)
     | _ \<Rightarrow> (0, s))"

definition fenv0 :: "unit fenv" where
  "fenv0 = \<lparr>fh = hdr0, pf = pf0, vmf = vmf0, ffl = ffl0,
     vmfl = (\<lambda>f. case f of GROWSDOWN \<Rightarrow> 0x100 | VMREAD \<Rightarrow> 1 | VMWRITE \<Rightarrow> 2 | VMEXEC \<Rightarrow> 4),
     TASK_SIZE_MAX = 0x7FFFFFFFF000, VSYSCALL_ADDR = 0xFFFFFFFFFF600000,
     VMALLOC_START = 0xFFFFC90000000000, VMALLOC_END = 0xFFFFE8FFFFFFFFFF,
     MODULES_VADDR = 0xFFFFFFFFA0000000, MODULES_END = 0xFFFFFFFFFF000000, THREAD_SIZE = 0x4000,
     F_USER32_CS = 0x23, EFLAGS_AC = 0x40000, EFLAGS_IF = 0x200, PAGE_USER = 4, X86_TRAP_PF = 14,
     HPOISON_SHIFT = (\<lambda>_. 21), user_mode = (\<lambda>r. test (cs r) 3), user_64bit_mode = (\<lambda>r. test (cs r) 3),
     convert_ip_to_linear = (\<lambda>s. ip (f_regs s)), cr3_va = (\<lambda>s. 0x1000), probe_byte = (\<lambda>s a. Some 0x90),
     probe_word = (\<lambda>s a. Some 0), pgd_flags = (\<lambda>e. e), is_vmalloc_addr = (\<lambda>a. False),
     task_stack = (\<lambda>s. 0), gdt_address = (\<lambda>s. 0), gdt_size = (\<lambda>s. 0), ldtr = (\<lambda>s. 0), task_reg = (\<lambda>s. 0),
     probe_desc = (\<lambda>s a. None), search_exception_tables = (\<lambda>a. False),
     find_vma = (\<lambda>s a. if a < 0x500000 then Some vma0 else None), vma_pkey = (\<lambda>_. 0),
     arch_vma_access_permitted = (\<lambda>s a w x. True),
     kallsyms_lookup_name = (\<lambda>n. if n = ''UB_fault_address_space'' then 0x9000 else 0),
     ask = (\<lambda>q s. q = HasMm), oops_end_returns = (\<lambda>sg. sg = NoSig), fext = fext0\<rparr>"

definition flt0 :: "u64 \<Rightarrow> ptmem \<Rightarrow> unit flt" where
  "flt0 seg m = \<lparr>f_regs = regs0\<lparr>cs := seg\<rparr>, f_irq = False, f_sem = 0, trap_nr = 0, trap_error_code = 0,
     trap_cr2 = 0, maj_flt = 0, min_flt = 0, f_ptm = m, f_pr = [], f_calls = [],
     show_unhandled_signals = False, f_world = ()\<rparr>"

definition fptm0 :: ptmem where
  "fptm0 = (\<lambda>_. 0)(0x1000 := 0x2063, 0x2000 := 0x3063, 0x3018 := 0x4063, 0x4000 := 0x600163)"

section \<open>Lemmas and properties\<close>

named_theorems held_simps

lemma held_fdo [held_simps]: "sem_contract v \<Longrightarrow> \<not> is_mm c \<Longrightarrow> held (snd (fdo v c s)) = held s"
  by (simp add: held_def fdo_def split_beta sem_contract_def)

lemma is_mm_simps [held_simps]:
  "\<not> is_mm (KmmioHandler a)" "\<not> is_mm KprobePageFault" "\<not> is_mm (FixupException a b)"
  "\<not> is_mm (ForceSigFault sg co a)" "\<not> is_mm (ForceSigPkuerr a k)" "\<not> is_mm (ForceSigMceerr a n)"
  "\<not> is_mm OopsBegin" "\<not> is_mm (Die t a)" "\<not> is_mm (OopsEnd sg)" "\<not> is_mm (HandleStackOverflow a)"
  "\<not> is_mm (EfiRecover a)" "\<not> is_mm (UbFaultAddressSpace a b)" "\<not> is_mm (UbErrorHandler z)"
  "\<not> is_mm PrintkRatelimit" "\<not> is_mm PerfFault" "\<not> is_mm PerfMaj" "\<not> is_mm PerfMin"
  "\<not> is_mm (EmulateVsyscall a b)" "\<not> is_mm DownReadTrylock" "\<not> is_mm DownRead" "\<not> is_mm UpRead"
  "\<not> is_mm (ExpandStack w a)" "\<not> is_mm OutOfMemory" "\<not> is_mm (CheckV8086 a)" "\<not> is_mm FlushLazyMmu"
  "\<not> is_mm (TraceUser a b)" "\<not> is_mm (TraceKernel a b)"
  by (simp_all add: is_mm_def)

lemma held_upd [held_simps]:
  "held (s\<lparr>f_regs := r\<rparr>) = held s" "held (s\<lparr>f_irq := i\<rparr>) = held s" "held (s\<lparr>f_ptm := m\<rparr>) = held s"
  "held (s\<lparr>maj_flt := a\<rparr>) = held s" "held (s\<lparr>min_flt := a\<rparr>) = held s" "held (pr ms s) = held s"
  "held (pr_once msg s) = held s" "held (set_signal_archinfo v ad ec s) = held s"
  by (simp_all add: held_def pr_def pr_once_def set_signal_archinfo_def)

lemma held_if [held_simps]: "held (if b then s else t) = (if b then held s else held t)"
  by simp

lemma held_dump [held_simps]: "held (dump_pagetable v ad s) = held s"
  unfolding dump_pagetable_def by (rule held_upd(6))

lemma held_ldttss [held_simps]: "held (show_ldttss v nm ix s) = held s"
  by (simp only: show_ldttss_def held_simps Let_def if_cancel split: option.split) simp

lemma held_show_oops [held_simps]: "held (show_fault_oops v ec ad s) = held s"
  by (simp only: show_fault_oops_def held_simps Let_def if_cancel)

lemma held_sem:
  assumes "sem_contract v"
  shows "held (up_read v s) = (f_sem s - 1, snd (held s))" "held (down_read v s) = (f_sem s + 1, snd (held s))"
    "down_read_trylock v s = (b, s') \<Longrightarrow> held s' = (f_sem s + (if b then 1 else 0), snd (held s))"
  using held_fdo [OF assms, of UpRead s] held_fdo [OF assms, of DownRead s] held_fdo [OF assms, of DownReadTrylock s]
  by (auto simp: up_read_def down_read_def down_read_trylock_def held_def Let_def split_beta held_simps split: if_splits)

lemma held_kernel [held_simps]:
  assumes "sem_contract v"
  shows "held (snd (is_errata93 v ad s)) = held s" "held (vmalloc_sync v p e s) = held s"
    "held (snd (spurious_kernel_fault v ec ad s)) = held s" "held (snd (kmmio_fault v ad s)) = held s"
    "held (final (oops_end v sg s)) = held s" "held (snd (ub_fixup v ad s)) = held s"
    "held (after_fixup v ec ad sg co s) = held s" "held (show_signal_msg v ec ad s) = held s"
    "held (trace_page_fault_entries v ec ad s) = held s"
  using assms
  by (simp_all add: is_errata93_def vmalloc_sync_def spurious_kernel_fault_def kmmio_fault_def oops_end_def
      ub_fixup_def after_fixup_def show_signal_msg_def trace_page_fault_entries_def held_simps Let_def split_beta)

lemma held_vmalloc [held_simps]: "sem_contract v \<Longrightarrow> held (snd (vmalloc_fault v ad s)) = held s"
  by (simp add: vmalloc_fault_def held_simps Let_def)

lemma final_if: "final (if b then x else y) = (if b then final x else final y)"
  by simp

lemma held_oops [held_simps]:
  assumes "sem_contract v"
  shows "held (final (no_context_oops v ec ad s)) = held s" "held (final (pgtable_bad v ec ad s)) = held s"
  using assms by (simp_all add: no_context_oops_def pgtable_bad_def held_simps Let_def split_beta)

lemma held_no_context [held_simps]:
  "sem_contract v \<Longrightarrow> held (final (no_context v ec ad sg co s)) = held s"
  by (simp add: no_context_def held_simps Let_def split_beta)

lemma held_bad_area [held_simps]:
  assumes "sem_contract v"
  shows "held (final (raw_bad_area_nosemaphore v ec ad pk co s)) = held s"
    "held (final (bad_area_nosemaphore v ec ad s)) = held s"
  using assms by (simp_all add: raw_bad_area_nosemaphore_def bad_area_nosemaphore_def held_simps Let_def)

lemma held_mm_error [held_simps]:
  assumes "sem_contract v"
  shows "held (final (do_sigbus v ec ad fa s)) = held s" "held (final (mm_fault_error v ec ad fa s)) = held s"
  using assms by (simp_all add: mm_fault_error_def do_sigbus_def held_simps Let_def)

lemma held_kern [held_simps]:
  assumes "sem_contract v"
  shows "held (final (kern_addr_tail v ec ad s)) = held s"
    "held (final (do_kern_addr_fault v ec ad s)) = held s"
  using assms held_vmalloc [OF assms]
  by (simp_all add: kern_addr_tail_def do_kern_addr_fault_def held_simps Let_def split_beta split: option.split bool.split prod.split)
  

lemma held_mm:
  assumes "sem_contract v" and "fdo v (HandleMmFault a ad fl) s = (r, s')"
  shows "held s' = (f_sem s - (if test (ucast r :: u32) (vmf v VM_RETRY) then 1 else 0), Suc (snd (held s)))"
proof -
  have "f_sem (snd (fext v (HandleMmFault a ad fl) s)) = f_sem s - (if test (ucast (fst (fext v (HandleMmFault a ad fl) s)) :: u32) (vmf v VM_RETRY) then 1 else 0)"
    using assms(1) unfolding sem_contract_def by (simp add: is_mm_def)
  with assms(2) show ?thesis by (auto simp: fdo_def split_beta held_def is_mm_def)
qed

lemma held_user_result:
  assumes "sem_contract v" and "\<not> test (ffl v TRIED) (ffl v ALLOW_RETRY)"
  shows "user_fault_result v ec ad fault fl major s = Inl (fl1, s2) \<Longrightarrow>
      s2 = s \<and> test fault (vmf v VM_RETRY) \<and> test fl (ffl v ALLOW_RETRY) \<and> \<not> test fl1 (ffl v ALLOW_RETRY)"
    and "user_fault_result v ec ad fault fl major s = Inr e \<Longrightarrow>
      held (final e) = (f_sem s - (if test fault (vmf v VM_RETRY) then 0 else 1), snd (held s))"
proof -
  have clr: "\<not> test ((fl AND NOT (ffl v ALLOW_RETRY)) OR ffl v TRIED) (ffl v ALLOW_RETRY)"
    using assms(2) by (simp add: test_def bit.conj_disj_distrib2 and.assoc)
  show "user_fault_result v ec ad fault fl major s = Inl (fl1, s2) \<Longrightarrow>
      s2 = s \<and> test fault (vmf v VM_RETRY) \<and> test fl (ffl v ALLOW_RETRY) \<and> \<not> test fl1 (ffl v ALLOW_RETRY)"
    using clr by (auto simp: user_fault_result_def Let_def split: if_splits)
  have u: "held (up_read v s) = (f_sem s - 1, snd (held s))" by (rule held_sem [OF assms(1)])
  have h: "held s = (f_sem s, snd (held s))" by (simp add: held_def)
  assume "user_fault_result v ec ad fault fl major s = Inr e"
  then consider "test fault (vmf v VM_RETRY)" "e = Fin s \<or> e = no_context v ec ad SIGBUS BUS_ADRERR s"
    | "\<not> test fault (vmf v VM_RETRY)" "held (final e) = held (up_read v s)"
    using assms(1) by (auto simp: user_fault_result_def Let_def held_simps split: if_splits)
  then show "held (final e) = (f_sem s - (if test fault (vmf v VM_RETRY) then 0 else 1), snd (held s))"
    using assms(1) h u by cases (auto simp: held_simps)
qed

lemma held_raw_bad_area:
  assumes "sem_contract v"
  shows "held (final (raw_bad_area v ec ad pk co s)) = (f_sem s - 1, snd (held s))"
    "held (final (bad_area v ec ad s)) = (f_sem s - 1, snd (held s))"
    "held (final (bad_area_access_error v ec ad a s)) = (f_sem s - 1, snd (held s))"
  using assms by (simp_all add: bad_area_def raw_bad_area_def bad_area_access_error_def held_simps held_sem)

lemma attempt_ok_bad: "held (final e) = (f_sem s - 1, snd (held s)) \<Longrightarrow> attempt_ok v fl s (Inr e)"
  by (auto simp: attempt_ok_def held_def)

lemma attempt_ok_held:
  assumes "held s1 = held s" and "attempt_ok v fl s1 x"
  shows "attempt_ok v fl s x"
proof -
  have "f_sem s1 = f_sem s" using assms(1) by (simp add: held_def)
  with assms show ?thesis unfolding attempt_ok_def by (cases x) auto
qed

lemma good_area_ok:
  assumes "sem_contract v" and "\<not> test (ffl v TRIED) (ffl v ALLOW_RETRY)"
  shows "attempt_ok v fl s (good_area v ec ad a fl major s)"
proof (cases "access_error v ec a s")
  case True
  then have "good_area v ec ad a fl major s = Inr (bad_area_access_error v ec ad a s)"
    by (simp add: good_area_def)
  with attempt_ok_bad [OF held_raw_bad_area(3) [OF assms(1)]] show ?thesis by simp
next
  case False
  obtain r s1 where c: "fdo v (HandleMmFault a ad fl) s = (r, s1)" by fastforce
  let ?f = "ucast r :: u32"
  note h = held_mm [OF assms(1) c]
  have f1: "f_sem s1 = f_sem s - (if test ?f (vmf v VM_RETRY) then 1 else 0)" using h by (simp add: held_def)
  show ?thesis
  proof (cases "user_fault_result v ec ad ?f fl (major OR (?f AND vmf v VM_MAJOR)) s1")
    case (Inl p)
    with held_user_result(1) [OF assms, of ec ad ?f fl _ s1 "fst p" "snd p"]
    have "snd p = s1" "test ?f (vmf v VM_RETRY)" "test fl (ffl v ALLOW_RETRY)" "\<not> test (fst p) (ffl v ALLOW_RETRY)"
      by auto
    with False c h Inl show ?thesis by (simp add: good_area_def attempt_ok_def Let_def split_beta)
  next
    case (Inr e)
    with held_user_result(2) [OF assms Inr] False c h f1 show ?thesis
      by (auto simp: good_area_def attempt_ok_def Let_def held_def)
  qed
qed

lemma attempt_ok:
  assumes "sem_contract v" and "\<not> test (ffl v TRIED) (ffl v ALLOW_RETRY)"
  shows "attempt_ok v fl s (user_fault_attempt v ec ad fl major s)"
proof (cases "find_vma v s ad")
  case None
  with attempt_ok_bad [OF held_raw_bad_area(2) [OF assms(1)]] show ?thesis
    by (simp add: user_fault_attempt_def)
next
  case (Some a)
  let ?s1 = "snd (fdo v (ExpandStack a ad) s)"
  have e: "held ?s1 = held s" by (simp add: held_simps assms(1))
  note h1 = attempt_ok_held [OF e]
  note s1 = h1 [OF attempt_ok_bad [OF held_raw_bad_area(2) [OF assms(1)]]] h1 [OF good_area_ok [OF assms]]
  with Some attempt_ok_bad [OF held_raw_bad_area(2) [OF assms(1)]] good_area_ok [OF assms] show ?thesis
    by (simp add: user_fault_attempt_def Let_def split_beta)
qed

lemma user_fault_loop_ok:
  assumes "sem_contract v" and "\<not> test (ffl v TRIED) (ffl v ALLOW_RETRY)"
  shows "\<exists>e. user_fault_loop v ec ad fl major s = Some e \<and> f_sem (final e) = f_sem s - 1
    \<and> snd (held (final e)) \<le> snd (held s) + (if test fl (ffl v ALLOW_RETRY) then 2 else 1)"
proof (cases "user_fault_attempt v ec ad fl major s")
  case (Inr e)
  with attempt_ok [OF assms, of fl s ec ad major] show ?thesis
    by (subst user_fault_loop.simps) (auto simp: attempt_ok_def)
next
  case first: (Inl p)
  obtain fl1 m1 s1 where p: "p = (fl1, m1, s1)" by (cases p)
  let ?s2 = "down_read v s1"
  have h: "held s1 = (f_sem s - 1, Suc (snd (held s)))" and fl: "test fl (ffl v ALLOW_RETRY)"
    and nr: "\<not> test fl1 (ffl v ALLOW_RETRY)"
    using attempt_ok [OF assms, of fl s ec ad major] first p by (auto simp: attempt_ok_def)
  have h2: "f_sem ?s2 = f_sem s" "snd (held ?s2) = Suc (snd (held s))"
    using held_sem(2) [OF assms(1), of s1] h by (auto simp: held_def)
  note a2 = attempt_ok [OF assms, of fl1 ?s2 ec ad m1]
  show ?thesis
  proof (cases "user_fault_attempt v ec ad fl1 m1 ?s2")
    case (Inl q)
    with a2 nr show ?thesis by (auto simp: attempt_ok_def split: prod.splits)
  next
    case (Inr e)
    then have "user_fault_loop v ec ad fl1 m1 ?s2 = Some e" by (subst user_fault_loop.simps) simp
    with first p have "user_fault_loop v ec ad fl major s = Some e" by (subst user_fault_loop.simps) simp
    with a2 Inr h2 fl show ?thesis by (auto simp: attempt_ok_def)
  qed
qed

lemma settled_held: "held s1 = held s \<Longrightarrow> settled s1 r \<Longrightarrow> settled s r"
  by (auto simp: settled_def held_def split: option.splits)

lemma settled_final: "held (final e) = held s \<Longrightarrow> settled s (Some e)"
  by (auto simp: settled_def held_def)

lemma loop_settled:
  assumes "sem_contract v" and "\<not> test (ffl v TRIED) (ffl v ALLOW_RETRY)"
    and "held s1 = (f_sem s + 1, snd (held s))"
  shows "settled s (user_fault_loop v ec ad fl major s1)"
  using user_fault_loop_ok [OF assms(1,2), of ec ad fl major s1] assms(3)
  by (auto simp: settled_def held_def split: if_splits)

lemma locked_settled:
  assumes "sem_contract v" and "\<not> test (ffl v TRIED) (ffl v ALLOW_RETRY)"
  shows "settled s (user_addr_locked v ec ad fl s)"
proof -
  define s1 where "s1 = snd (fdo v PerfFault s)"
  define p2 where "p2 = (if is_vsyscall_vaddr v ad then fdo v (EmulateVsyscall ec ad) s1 else (0, s1))"
  obtain got s3 where t: "down_read_trylock v (snd p2) = (got, s3)" by fastforce
  have h2: "held (snd p2) = held s" by (simp add: p2_def s1_def held_simps assms(1))
  have h3: "held s3 = (f_sem s + (if got then 1 else 0), snd (held s))"
    using held_sem(3) [OF assms(1) t] h2 by (simp add: held_def)
  have r: "user_addr_locked v ec ad fl s =
     (if is_vsyscall_vaddr v ad \<and> fst p2 \<noteq> 0 then Some (Fin (snd p2))
      else if got then user_fault_loop v ec ad fl 0 s3
      else if \<not> user_mode v (f_regs s3) \<and> \<not> search_exception_tables v (ip (f_regs s3))
      then Some (bad_area_nosemaphore v ec ad s3)
      else user_fault_loop v ec ad fl 0 (down_read v s3))"
    unfolding user_addr_locked_def Let_def split_beta s1_def [symmetric] unfolding p2_def [symmetric]
    by (simp add: t)
  have 1: "settled s (Some (Fin (snd p2)))" using h2 by (simp add: settled_final)
  have 2: "settled s (user_fault_loop v ec ad fl 0 s3)" if got
    using loop_settled [OF assms] h3 that by simp
  have 3: "settled s (Some (bad_area_nosemaphore v ec ad s3))" if "\<not> got"
    using h3 that by (intro settled_final) (simp add: held_simps assms(1), simp add: held_def)
  have 4: "settled s (user_fault_loop v ec ad fl 0 (down_read v s3))" if "\<not> got"
    using held_sem(2) [OF assms(1), of s3] h3 that by (intro loop_settled [OF assms]) (simp add: held_def)
  show ?thesis unfolding r using 1 2 3 4 by simp
qed

lemma checked_settled:
  assumes "sem_contract v" and "\<not> test (ffl v TRIED) (ffl v ALLOW_RETRY)"
  shows "settled s (user_addr_checked v ec ad s)"
proof -
  have b: "settled s (Some (bad_area_nosemaphore v ec ad s))"
    by (rule settled_final) (simp add: held_simps assms(1))
  have "settled s (user_addr_locked v ec ad fl (s\<lparr>f_irq := True\<rparr>))" for fl
    using settled_held [OF _ locked_settled [OF assms]] by (simp add: held_simps)
  with b locked_settled [OF assms] show ?thesis
    by (simp add: user_addr_checked_def Let_def)
qed

text \<open>
  C17: Every page fault is handled in finitely many steps, with at most two calls of
  handle_mm_fault, and mmap_sem is held as often afterwards as before, on every path, also when
  the thread is killed. The contract of the code outside the file: handle_mm_fault drops the
  semaphore exactly when it answers VM_FAULT_RETRY, and no other call changes it.
\<close>

theorem page_fault_settles:
  assumes "sem_contract v" and "\<not> test (ffl v TRIED) (ffl v ALLOW_RETRY)"
  shows "\<exists>e. do_page_fault v ec ad s = Some e \<and> f_sem (final e) = f_sem s
    \<and> length (filter is_mm (f_calls (final e))) \<le> length (filter is_mm (f_calls s)) + 2"
proof -
  let ?s0 = "trace_page_fault_entries v ec ad s"
  define p where "p = kmmio_fault v ad ?s0"
  have h0: "held (snd p) = held s" by (simp add: p_def held_simps assms(1))
  define k where "k = fdo v KprobePageFault (snd p)"
  have h1: "held (snd k) = held s" by (simp add: k_def held_simps assms(1) h0)
  have c: "settled s (user_addr_checked v ec ad s')" if "held s' = held s" for s'
    by (rule settled_held [OF that checked_settled [OF assms]])
  have pb: "held (final (pgtable_bad v ec ad (snd k))) = held s" by (simp add: held_simps assms(1) h1)
  have u: "settled s (do_user_addr_fault v ec ad (snd p))"
    unfolding do_user_addr_fault_def Let_def split_beta k_def [symmetric]
    using h1 c pb by (auto simp: settled_final split: fres.split)
  have kn: "settled s (Some (do_kern_addr_fault v ec ad (snd p)))"
    by (rule settled_final) (simp add: held_simps assms(1) h0)
  have "settled s (do_page_fault v ec ad s)"
    unfolding do_page_fault_def raw_do_page_fault_def Let_def split_beta p_def [symmetric]
    using u kn h0 by (simp add: settled_final)
  then show ?thesis by (auto simp: settled_def held_def split: option.splits)
qed

text \<open>
  C29: A kernel fault is called spurious only if the kernel's page tables map the address with a
  present entry, the one a lookup finds, that allows the access; nothing is changed then.
\<close>

theorem spurious_fault_allowed:
  assumes "fst (spurious_kernel_fault v ec ad s)"
    and "\<And>l e. ent_present (fh v) l e \<Longrightarrow> \<not> ent_none (fh v) l e"
  shows "\<exists>p lvl. lookup_address_in_pgd (fh v) (f_ptm s) (init_mm_pgd (fh v) + 8 * pgd_index (fh v) ad) ad
      = (Some p, lvl) \<and> ent_present (fh v) (case lvl of PG_LEVEL_512G \<Rightarrow> P4d | PG_LEVEL_1G \<Rightarrow> Pud
         | PG_LEVEL_2M \<Rightarrow> Pmd | _ \<Rightarrow> Pte) (f_ptm s p)
    \<and> (test ec (pf v PF_WRITE) \<longrightarrow> pte_write (fh v) (f_ptm s p))
    \<and> (test ec (pf v PF_INSTR) \<longrightarrow> pte_exec (fh v) (f_ptm s p))
    \<and> snd (spurious_kernel_fault v ec ad s) = s"
proof -
  let ?h = "fh v" and ?m = "f_ptm s"
  define pgd where "pgd = init_mm_pgd ?h + 8 * pgd_index ?h ad"
  define p4d where "p4d = p4d_offset ?h ?m pgd ad"
  define pud where "pud = pud_offset ?h ?m p4d ad"
  define pmd where "pmd = pmd_offset ?h ?m pud ad"
  define pte where "pte = pte_offset_kernel ?h ?m pmd ad"
  note d = pgd_def [symmetric] p4d_def [symmetric] pud_def [symmetric] pmd_def [symmetric] pte_def [symmetric]
  let ?ok = "\<lambda>p. spurious_kernel_fault_check v ec (?m p)"
  have w: "pgd_present ?h (?m pgd) \<and> p4d_present ?h (?m p4d)
    \<and> (if p4d_large ?h (?m p4d) then ?ok p4d
       else pud_present ?h (?m pud) \<and> (if pud_large ?h (?m pud) then ?ok pud
         else pmd_present ?h (?m pmd) \<and> (if pmd_large ?h (?m pmd) then ?ok pmd
           else pte_present ?h (?m pte) \<and> ?ok pte \<and> ?ok pmd)))"
    using assms(1) unfolding spurious_kernel_fault_def Let_def d
    by (simp only: if_distrib [of fst] prod.sel if_bool_eq_conj) blast
  have s: "snd (spurious_kernel_fault v ec ad s) = s"
    using w unfolding spurious_kernel_fault_def Let_def d
    by (cases "p4d_large ?h (?m p4d)"; cases "pud_large ?h (?m pud)"; cases "pmd_large ?h (?m pmd)") simp_all
  note n = assms(2)
  let ?good = "\<lambda>p l. ent_present ?h l (?m p) \<and> ?ok p"
  consider "lookup_address_in_pgd ?h ?m pgd ad = (Some p4d, PG_LEVEL_512G)" "?good p4d P4d"
    | "lookup_address_in_pgd ?h ?m pgd ad = (Some pud, PG_LEVEL_1G)" "?good pud Pud"
    | "lookup_address_in_pgd ?h ?m pgd ad = (Some pmd, PG_LEVEL_2M)" "?good pmd Pmd"
    | "lookup_address_in_pgd ?h ?m pgd ad = (Some pte, PG_LEVEL_4K)" "?good pte Pte"
    using w n unfolding lookup_address_in_pgd_def Let_def d
    by (cases "p4d_large ?h (?m p4d)"; cases "pud_large ?h (?m pud)"; cases "pmd_large ?h (?m pmd)") simp_all
  then show ?thesis
    using s unfolding pgd_def by cases (force simp: spurious_kernel_fault_check_def)+
qed

lemma calls_fdo [simp]: "f_calls (snd (fdo v c t)) = f_calls t @ [c]"
  by (simp add: fdo_def split_beta)

lemma calls_signal_msg:
  "\<exists>ks. f_calls (show_signal_msg v ec ad t) = f_calls t @ ks \<and> set ks \<subseteq> {PrintkRatelimit}"
  by (simp add: show_signal_msg_def pr_def Let_def split_beta)


lemma fenv0_contract: "sem_contract fenv0"
proof -
  have "f_sem (snd (fext0 c s)) =
     f_sem s - (if is_mm c \<and> test (ucast (fst (fext0 c s)) :: u32) 0x400 then 1 else 0)" for c s
    by (cases c) (simp_all add: fext0_def is_mm_def test_def)
  then show ?thesis by (simp add: sem_contract_def fenv0_def vmf0_def)
qed

lemma fenv0_flags: "\<not> test (ffl fenv0 TRIED) (ffl fenv0 ALLOW_RETRY)"
  by (simp add: fenv0_def ffl0_def test_def)

theorem page_fault_settles_witness:
  "\<exists>e. do_page_fault fenv0 4 0x400010 (flt0 3 fptm0) = Some e \<and> f_sem (final e) = 0
     \<and> length (filter is_mm (f_calls (final e))) \<le> 2"
  using page_fault_settles [OF fenv0_contract fenv0_flags, of 4 "0x400010" "flt0 3 fptm0"]
  by (auto simp: flt0_def numeral_2_eq_2)

theorem spurious_fault_allowed_witness:
  "\<exists>p lvl. lookup_address_in_pgd hdr0 fptm0 0x1000 0x600000 = (Some p, lvl) \<and> pte_write hdr0 (fptm0 p)"
proof -
  have "fst (spurious_kernel_fault fenv0 3 0x600000 (flt0 0 fptm0))" by code_simp
  moreover have "\<And>l e. ent_present (fh fenv0) l e \<Longrightarrow> \<not> ent_none (fh fenv0) l e"
    by (auto simp: fenv0_def hdr0_def)
  moreover have "test 3 (pf fenv0 PF_WRITE)" "fh fenv0 = hdr0" "f_ptm (flt0 0 fptm0) = fptm0"
    "init_mm_pgd hdr0 + 8 * pgd_index hdr0 0x600000 = 0x1000"
    by (simp_all add: fenv0_def flt0_def pf0_def test_def hdr0_def)
  ultimately show ?thesis
    using spurious_fault_allowed [of fenv0 3 "0x600000" "flt0 0 fptm0"] by auto
qed


end
