(* ===== verification/Exec_Pages.thy ===== *)
theory Exec_Pages imports Set_Memory begin

text \<open>
  What the module relies on when it makes a translated block executable: set_memory_x
  (pageattr.c) on a range of 4K pages. walk_words and leaf name the page table words a lookup
  reads and the entry it ends in; mapped_4k says that each page of a range has a present 4K entry
  of its own, which no walk of the range passes through; nx_cleared gives the entry after the
  call, bit for bit, from the one before. The lemmas follow the loop of __change_page_attr_set_clr page by page.
\<close>

unbundle bit_operations_syntax

section \<open>Definitions\<close>

definition walk_words :: "'h hdr_scheme \<Rightarrow> ptmem \<Rightarrow> u64 \<Rightarrow> u64 list" where
  "walk_words h m a =
     (let pgd = pgd_offset_k h a; p4d = p4d_offset h m pgd a; pud = pud_offset h m p4d a;
          pmd = pmd_offset h m pud a
      in [pgd, p4d, pud, pmd])"

definition page_at :: "'h hdr_scheme \<Rightarrow> u64 \<Rightarrow> nat \<Rightarrow> u64" where
  "page_at h a i = a + of_nat i * PAGE_SIZE h"

definition leaf :: "'h hdr_scheme \<Rightarrow> ptmem \<Rightarrow> u64 \<Rightarrow> nat \<Rightarrow> u64" where
  "leaf h m a i = the (fst (lookup_address h m (page_at h a i)))"

definition mapped_4k :: "'h hdr_scheme \<Rightarrow> ptmem \<Rightarrow> u64 \<Rightarrow> nat \<Rightarrow> bool" where
  "mapped_4k h m a n \<longleftrightarrow>
     list_all (\<lambda>i. lookup_address h m (page_at h a i) = (Some (leaf h m a i), PG_LEVEL_4K)
                 \<and> \<not> pte_none h (m (leaf h m a i)) \<and> test (pte_pgprot h (m (leaf h m a i))) (PAGE_PRESENT h)) [0..<n]
     \<and> distinct (map (leaf h m a) [0..<n])
     \<and> list_all (\<lambda>i. list_all (\<lambda>j. leaf h m a i \<notin> set (walk_words h m (page_at h a j))) [0..<n]) [0..<n]"

definition offsets_local :: "'h hdr_scheme \<Rightarrow> bool" where
  "offsets_local h \<longleftrightarrow> (\<forall>l m m' p a. m p = m' p \<longrightarrow> ent_offset h l m p a = ent_offset h l m' p a)"

text \<open>
  The same frame and the same bits but for NX, and, where the frame belongs to the read-only data of
  the kernel, RW, which \<open>static_protections\<close> takes away.
\<close>

definition nx_cleared :: "'h hdr_scheme \<Rightarrow> u64 \<Rightarrow> u64 \<Rightarrow> bool" where
  "nx_cleared h e e' \<longleftrightarrow> pte_pfn h e' = pte_pfn h e
     \<and> pte_pgprot h e' = (pte_pgprot h e AND NOT (PAGE_NX h)) AND NOT (protect_rodata h (pte_pfn h e) (pte_pfn h e))"

text \<open>The bits P, RW and NX of an entry are different ones.\<close>

definition bits_differ :: "'h hdr_scheme \<Rightarrow> bool" where
  "bits_differ h \<longleftrightarrow> PAGE_NX h AND PAGE_PRESENT h = 0 \<and> PAGE_RW h AND PAGE_PRESENT h = 0"

definition ptm0 :: ptmem where
  "ptm0 = (\<lambda>_. 0)(0x1000 := 0x2063, 0x2000 := 0x3063, 0x3018 := 0x4063,
     0x4000 := 0x8000000000600163, 0x4008 := 0x8000000000601163)"

definition pt_st0 :: pt_st where
  "pt_st0 = \<lparr>ptm = ptm0, page_calls = 0, direct_pages_count = (\<lambda>_. 0), pt_log = []\<rparr>"

section \<open>One page, then the loop\<close>

lemma lookup_local:
  assumes "offsets_local h" and "\<forall>w \<in> set (walk_words h m a). m' w = m w"
  shows "lookup_address h m' a = lookup_address h m a"
    and "walk_words h m' a = walk_words h m a"
proof -
  let ?pgd = "pgd_offset_k h a"
  let ?p4d = "p4d_offset h m ?pgd a"
  let ?pud = "pud_offset h m ?p4d a"
  let ?pmd = "pmd_offset h m ?pud a"
  have w: "m' ?pgd = m ?pgd" "m' ?p4d = m ?p4d" "m' ?pud = m ?pud" "m' ?pmd = m ?pmd"
    using assms(2) by (simp_all add: walk_words_def Let_def)
  have loc: "\<And>l p. m' p = m p \<Longrightarrow> ent_offset h l m' p a = ent_offset h l m p a"
    using assms(1) unfolding offsets_local_def by blast
  have o: "p4d_offset h m' ?pgd a = ?p4d" "pud_offset h m' ?p4d a = ?pud" "pmd_offset h m' ?pud a = ?pmd"
      "pte_offset_kernel h m' ?pmd a = pte_offset_kernel h m ?pmd a"
    by (rule loc, rule w)+
  show "lookup_address h m' a = lookup_address h m a"
    by (simp add: lookup_address_def lookup_address_in_pgd_def Let_def w o)
  show "walk_words h m' a = walk_words h m a"
    by (simp add: walk_words_def Let_def w o)
qed

lemma static_protections_nx:
  assumes "lookup_address h m a = (Some p, PG_LEVEL_4K)" and "test prot (PAGE_PRESENT h)" and "prot AND PAGE_NX h = 0"
  shows "fst (static_protections h m prot a pf' 1 0 w) = prot AND NOT (protect_rodata h pf' pf')"
proof -
  have k: "prot AND NOT ((n OR 0 OR 0) OR r) = prot AND NOT r" if "n = 0 \<or> n = PAGE_NX h" for n r
  proof -
    have "prot AND n = 0" using that assms(3) by auto
    then have "\<not> (bit prot i \<and> bit n i)" for i using bit_and_iff [of prot n i] by simp
    then show ?thesis by (intro bit_word_eqI) (auto simp: bit_simps)
  qed
  have r: "protect_kernel_text_ro h m a end' = 0" for end'
    using assms(1) by (simp add: protect_kernel_text_ro_def)
  have "fst (static_protections h m prot a pf' 1 0 w)
      = prot AND NOT ((protect_kernel_text h a (a + 1 * PAGE_SIZE h - 1) OR 0 OR 0) OR protect_rodata h pf' pf')"
    using assms(2) by (simp add: static_protections_def Let_def r protect_pci_bios_def)
  also have "\<dots> = prot AND NOT (protect_rodata h pf' pf')"
    by (rule k) (simp add: protect_kernel_text_def Let_def)
  finally show ?thesis .
qed

lemma rodata_present: "bits_differ h \<Longrightarrow> protect_rodata h a b AND PAGE_PRESENT h = 0"
  by (simp add: protect_rodata_def bits_differ_def Let_def)

lemma test_and_not: "b AND k = 0 \<Longrightarrow> test (x AND NOT b) k = test x (k :: u64)"
proof -
  assume "b AND k = 0"
  then have "\<not> (bit b i \<and> bit k i)" for i using bit_and_iff [of b k i] by simp
  then have "(x AND NOT b) AND k = x AND k" by (intro bit_word_eqI) (auto simp: bit_simps)
  then show ?thesis by (simp add: test_def)
qed

lemma pte_formatD:
  assumes "pte_format h okpfn okprot"
  shows "pte_pfn h (pfn_pte h (pte_pfn h e) (pte_pgprot h e AND q)) = pte_pfn h e"
    and "pte_pgprot h (pfn_pte h (pte_pfn h e) (pte_pgprot h e AND q)) = pte_pgprot h e AND q"
proof -
  have "okpfn (pte_pfn h e)" and "okprot (pte_pgprot h e AND q)"
    using assms unfolding pte_format_def by blast+
  then show "pte_pfn h (pfn_pte h (pte_pfn h e) (pte_pgprot h e AND q)) = pte_pfn h e"
    and "pte_pgprot h (pfn_pte h (pte_pfn h e) (pte_pgprot h e AND q)) = pte_pgprot h e AND q"
    using assms unfolding pte_format_def by blast+
qed

lemma change_4k_nx:
  assumes "pte_format h okpfn okprot" and "bits_differ h" and "mask_clr cpa = PAGE_NX h" and "mask_set cpa = 0"
    and "lookup_address h (ptm s) a = (Some p', PG_LEVEL_4K)" and "test (pte_pgprot h (ptm s p)) (PAGE_PRESENT h)"
    and "change_4k h p a cpa s = (cpa', s')"
  shows "nx_cleared h (ptm s p) (ptm s' p)" and "x \<noteq> p \<Longrightarrow> ptm s' x = ptm s x"
    and "\<exists>f. cpa' = cpa\<lparr>cpfn := pte_pfn h (ptm s p), cflags := f, numpages := 1\<rparr>
           \<and> (f = cflags cpa \<or> f = cflags cpa OR CPA_FLUSHTLB)"
proof -
  let ?e = "ptm s p"
  let ?f = "pte_pfn h ?e"
  let ?p1 = "pte_pgprot h ?e AND NOT (PAGE_NX h)"
  let ?p2 = "?p1 AND NOT (protect_rodata h ?f ?f)"
  let ?new = "pfn_pte h ?f ?p2"
  define w where "w = snd (static_protections h (ptm s) ?p1 a ?f 1 0 CPA_PROTECT)"
  have t1: "test ?p1 (PAGE_PRESENT h)" using assms(2,6) by (simp add: test_and_not bits_differ_def)
  have "?p1 AND PAGE_NX h = 0" by (rule bit_word_eqI) (auto simp: bit_simps)
  note f1 = static_protections_nx [OF assms(5) t1 this, of ?f CPA_PROTECT]
  have "test ?p2 (PAGE_PRESENT h)" using t1 rodata_present [OF assms(2)] by (simp add: test_and_not)
  then have c: "pgprot_clear_protnone_bits h ?p2 = ?p2" by (simp add: pgprot_clear_protnone_bits_def)
  have eq: "(cpa', s') =
      (if ?e \<noteq> ?new then (cpa\<lparr>cpfn := ?f, cflags := cflags cpa OR CPA_FLUSHTLB, numpages := 1\<rparr>,
          set_pte p ?new (pt_event w s))
       else (cpa\<lparr>cpfn := ?f, numpages := 1\<rparr>, pt_event w s))"
    unfolding assms(7) [symmetric] change_4k_def Let_def split_beta assms(3,4) w_def using f1 c by simp
  have g: "ptm s' = (ptm s)(p := ?new)"
    using eq by (cases "?e = ?new") (simp_all add: set_pte_def pt_event_def fun_upd_idem)
  have "?p2 = pte_pgprot h ?e AND (NOT (PAGE_NX h) AND NOT (protect_rodata h ?f ?f))" by (simp add: and.assoc)
  then show "nx_cleared h (ptm s p) (ptm s' p)"
    using pte_formatD [OF assms(1), of ?e "NOT (PAGE_NX h) AND NOT (protect_rodata h ?f ?f)"]
    by (simp add: g nx_cleared_def)
  show "x \<noteq> p \<Longrightarrow> ptm s' x = ptm s x" by (simp add: g)
  have "cpa' = cpa\<lparr>cpfn := ?f, cflags := cflags cpa, numpages := 1\<rparr>
      \<or> cpa' = cpa\<lparr>cpfn := ?f, cflags := cflags cpa OR CPA_FLUSHTLB, numpages := 1\<rparr>"
    using eq by (auto split: if_splits)
  then show "\<exists>f. cpa' = cpa\<lparr>cpfn := ?f, cflags := f, numpages := 1\<rparr>
           \<and> (f = cflags cpa \<or> f = cflags cpa OR CPA_FLUSHTLB)" by blast
qed

lemma leaf_keep:
  assumes "mapped_4k h m a n" and "offsets_local h" and "i < n"
    and "\<forall>x. x \<notin> leaf h m a ` {..<n} \<longrightarrow> m' x = m x"
  shows "lookup_address h m' (page_at h a i) = (Some (leaf h m a i), PG_LEVEL_4K)"
proof -
  have "w \<notin> leaf h m a ` {..<n}" if "w \<in> set (walk_words h m (page_at h a i))" for w
    using assms(1,3) that by (auto simp: mapped_4k_def list_all_nth_upt)
  then have "lookup_address h m' (page_at h a i) = lookup_address h m (page_at h a i)"
    using assms(4) by (intro lookup_local(1) [OF assms(2)]) blast
  with assms(1,3) show ?thesis by (simp add: mapped_4k_def list_all_nth_upt)
qed

lemma one_page_nx:
  assumes "pte_format h okpfn okprot" and "bits_differ h" and "mask_clr cpa = PAGE_NX h" and "mask_set cpa = 0"
    and "cpgd cpa = None" and "lookup_address h (ptm s) (cpa_addr h cpa (curpage cpa)) = (Some p, PG_LEVEL_4K)"
    and "\<not> pte_none h (ptm s p)" and "test (pte_pgprot h (ptm s p)) (PAGE_PRESENT h)"
  obtains f s' where "raw_change_page_attr h cpa pr s =
        Ret (0, cpa\<lparr>cpfn := pte_pfn h (ptm s p), cflags := f, numpages := 1\<rparr>, s')"
    and "f = cflags cpa \<or> f = cflags cpa OR CPA_FLUSHTLB"
    and "nx_cleared h (ptm s p) (ptm s' p)" and "\<And>x. x \<noteq> p \<Longrightarrow> ptm s' x = ptm s x"
proof -
  obtain c' s' where c: "change_4k h p (cpa_addr h cpa (curpage cpa)) cpa s = (c', s')" by fastforce
  note n = change_4k_nx [OF assms(1-4,6,8) c]
  obtain f where f: "c' = cpa\<lparr>cpfn := pte_pfn h (ptm s p), cflags := f, numpages := 1\<rparr>"
      "f = cflags cpa \<or> f = cflags cpa OR CPA_FLUSHTLB"
    using n(3) by blast
  have "raw_change_page_attr h cpa pr s = Ret (0, c', s')"
    using assms(5-7) c
    by (simp add: raw_change_page_attr_def repeat_fuel_def numeral_3_eq_3 lookup_address_cpa_def)
  then show thesis
    using that [of f s'] f n(1,2) by blast
qed

lemma nx_pages:
  assumes fmt: "pte_format h okpfn okprot" and bits: "bits_differ h" and loc: "offsets_local h" and m4: "mapped_4k h m a n"
    and small: "n < 2 ^ 32"
  shows "k \<le> n \<Longrightarrow> mask_clr cpa = PAGE_NX h \<Longrightarrow> mask_set cpa = 0 \<Longrightarrow> cpgd cpa = None \<Longrightarrow> cvaddr cpa = [a]
    \<Longrightarrow> cflags cpa = 0 \<or> cflags cpa = CPA_FLUSHTLB \<Longrightarrow> curpage cpa = of_nat k
    \<Longrightarrow> (\<forall>i<k. nx_cleared h (m (leaf h m a i)) (ptm s (leaf h m a i)))
    \<Longrightarrow> (\<forall>x. x \<notin> leaf h m a ` {..<k} \<longrightarrow> ptm s x = m x)
    \<Longrightarrow> \<exists>cpa' s'. cpa_pages h None (of_nat (n - k)) cpa s = Ret (0, cpa', s')
      \<and> (\<forall>i<n. nx_cleared h (m (leaf h m a i)) (ptm s' (leaf h m a i)))
      \<and> (\<forall>x. x \<notin> leaf h m a ` {..<n} \<longrightarrow> ptm s' x = m x)"
proof (induction "n - k" arbitrary: k cpa s)
  case 0
  then have "k = n" by simp
  with 0 show ?case by (simp add: cpa_pages.simps)
next
  case (Suc r)
  then have kn: "k < n" by simp
  let ?p = "leaf h m a k"
  have inj: "leaf h m a i \<noteq> ?p" if "i < k" for i
  proof -
    have "inj_on (leaf h m a) {0..<n}" using m4 by (simp add: mapped_4k_def distinct_map)
    with that kn show ?thesis by (auto dest: inj_onD)
  qed
  have notyet: "?p \<notin> leaf h m a ` {..<k}" using inj by fastforce
  have rem: "unat (of_nat (n - k) :: u64) = n - k" using small by (simp add: unat_of_nat_small)
  have rem0: "(of_nat (n - k) :: u64) \<noteq> 0" 
  proof
    assume "(of_nat (n - k) :: u64) = 0"
    then have "unat (of_nat (n - k) :: u64) = 0" by (simp only: unat_0)
    with rem kn show False by simp
  qed
  let ?c0 = "cpa\<lparr>numpages := of_nat (n - k)\<rparr>"
  have fl: "\<not> test (cflags cpa) (CPA_ARRAY OR CPA_PAGES_ARRAY)" "\<not> test (cflags cpa) CPA_ARRAY"
      "\<not> test (cflags cpa) CPA_PAGES_ARRAY"
    using Suc.prems(6) by (auto simp: test_def CPA_ARRAY_def CPA_PAGES_ARRAY_def CPA_FLUSHTLB_def)
  have addr: "cpa_addr h ?c0 (curpage ?c0) = page_at h a k"
    using Suc.prems(5,7) fl by (simp add: cpa_addr_def page_at_def)
  have lk: "lookup_address h (ptm s) (page_at h a k) = (Some ?p, PG_LEVEL_4K)"
  proof (rule leaf_keep [OF m4 loc kn])
    have "leaf h m a ` {..<k} \<subseteq> leaf h m a ` {..<n}" using kn by auto
    with Suc.prems(9) show "\<forall>x. x \<notin> leaf h m a ` {..<n} \<longrightarrow> ptm s x = m x" by blast
  qed
  have mp: "ptm s ?p = m ?p" using Suc.prems(9) notyet by blast
  have nn: "\<not> pte_none h (ptm s ?p)" "test (pte_pgprot h (ptm s ?p)) (PAGE_PRESENT h)"
    using m4 kn mp by (simp_all add: mapped_4k_def list_all_nth_upt)
  obtain f s1 where st: "raw_change_page_attr h ?c0 False s =
        Ret (0, ?c0\<lparr>cpfn := pte_pfn h (ptm s ?p), cflags := f, numpages := 1\<rparr>, s1)"
    and f: "f = cflags ?c0 \<or> f = cflags ?c0 OR CPA_FLUSHTLB"
    and nx: "nx_cleared h (ptm s ?p) (ptm s1 ?p)" and fr: "\<And>x. x \<noteq> ?p \<Longrightarrow> ptm s1 x = ptm s x"
    by (rule one_page_nx [OF fmt bits, of ?c0 s ?p False])
      (use Suc.prems(2-4) addr lk nn in simp_all)
  let ?c1 = "?c0\<lparr>cpfn := pte_pfn h (ptm s ?p), cflags := f, numpages := 1, curpage := of_nat (Suc k)\<rparr>"
  have dec: "(of_nat (n - k) :: u64) - 1 = of_nat (n - Suc k)"
    using kn by (simp add: of_nat_diff)
  have one: "\<not> (1 > (of_nat (n - k) :: u64))"
    using rem kn by (simp add: word_less_nat_alt)
  have step: "cpa_pages h None (of_nat (n - k)) cpa s = cpa_pages h None (of_nat (n - Suc k)) ?c1 s1"
    using rem0 fl(1) st one dec Suc.prems(7) by (subst cpa_pages.simps) (simp add: add.commute)
  have f1: "f = 0 \<or> f = CPA_FLUSHTLB"
    using f Suc.prems(6) by auto
  have "\<exists>cpa' s'. cpa_pages h None (of_nat (n - Suc k)) ?c1 s1 = Ret (0, cpa', s')
      \<and> (\<forall>i<n. nx_cleared h (m (leaf h m a i)) (ptm s' (leaf h m a i)))
      \<and> (\<forall>x. x \<notin> leaf h m a ` {..<n} \<longrightarrow> ptm s' x = m x)"
  proof (rule Suc.hyps(1))
    show "r = n - Suc k" using Suc.hyps(2) by simp
    show "\<forall>i<Suc k. nx_cleared h (m (leaf h m a i)) (ptm s1 (leaf h m a i))"
      using Suc.prems(8) nx fr inj mp by (auto simp: less_Suc_eq)
    show "\<forall>x. x \<notin> leaf h m a ` {..<Suc k} \<longrightarrow> ptm s1 x = m x"
      using Suc.prems(9) fr by (auto simp: lessThan_Suc)
  qed (use Suc.prems(2-5) kn f1 in simp_all)
  with step show ?case by simp
qed

section \<open>The call\<close>

lemma cpa_flush_ptm: "cpa_flush h cpa c s = Some s' \<Longrightarrow> ptm s' = ptm s"
  by (auto simp: cpa_flush_def cpa_flush_all_def Let_def pt_event_def split: if_splits)

lemma cpa_flush_total: "\<not> irqs_disabled h \<Longrightarrow> \<exists>s'. cpa_flush h cpa c s = Some s'"
  by (auto simp: cpa_flush_def cpa_flush_all_def Let_def)

lemma cpa_finish_ok:
  assumes "\<not> irqs_disabled h"
  shows "\<exists>s'. cpa_finish h ms 0 cpa s = Ret (0, s') \<and> ptm s' = ptm s"
proof -
  obtain s' where s': "cpa_flush h cpa (pgprot2cachemode h ms \<noteq> MODE_WB) s = Some s'"
    using cpa_flush_total [OF assms] by blast
  from cpa_flush_ptm [OF s'] s' show ?thesis by (simp add: cpa_finish_def Let_def res_of_option_def)
qed

lemma scast_small:
  assumes "unat (n :: cint) < 2 ^ 31"
  shows "(scast n :: u64) = of_nat (unat n)"
  using sint_small [OF assms] by (metis of_int_of_nat_eq of_int_sint)

lemma frame_mask_eq: "frame_mask = push_bit 12 (mask 40)"
  by (simp add: frame_mask_def mask_eq_exp_minus_1 push_bit_eq_mult)

lemma hdr0_pte_simps [simp]:
  "pte_pfn hdr0 e = take_bit 40 (drop_bit 12 e)" "pte_pgprot hdr0 e = e AND NOT frame_mask"
  "pfn_pte hdr0 p q = push_bit 12 (take_bit 40 p) OR q"
  by (simp_all add: hdr0_def)
    (rule bit_word_eqI, auto simp: frame_mask_eq bit_simps)+

lemma hdr0_format: "pte_format hdr0 (\<lambda>p. take_bit 40 p = p) (\<lambda>q. q AND NOT frame_mask = q)"
  unfolding pte_format_def hdr0_pte_simps
proof (intro conjI allI impI)
  fix pfn prot :: u64 assume a: "take_bit 40 pfn = pfn" and b: "prot AND NOT frame_mask = prot"
  have b': "bit prot n \<Longrightarrow> n < 12 \<or> 52 \<le> n" for n
    using arg_cong [OF b, of "\<lambda>w. bit w n"] by (auto simp: frame_mask_eq bit_simps)
  have a': "bit pfn n \<Longrightarrow> n < 40" for n
    using arg_cong [OF a, of "\<lambda>w. bit w n"] by (auto simp: bit_simps)
  show "take_bit 40 (drop_bit 12 (push_bit 12 (take_bit 40 pfn) OR prot)) = pfn"
    by (rule bit_word_eqI) (auto simp: bit_simps dest: a' b')
  show "(push_bit 12 (take_bit 40 pfn) OR prot) AND NOT frame_mask = prot"
    by (rule bit_word_eqI) (auto simp: frame_mask_eq bit_simps dest: b')
next
  fix e :: u64
  show "push_bit 12 (take_bit 40 (take_bit 40 (drop_bit 12 e))) OR e AND NOT frame_mask = e"
    by (rule bit_word_eqI) (auto simp: frame_mask_eq bit_simps)
next
  fix p q :: u64 assume "p AND NOT frame_mask = p"
  then show "(p AND q) AND NOT frame_mask = p AND q"
    by (metis and.assoc and.commute)
qed simp_all

lemma hdr0_local: "offsets_local hdr0"
  by (auto simp: offsets_local_def hdr0_def split: lvl.splits)

lemma pt_st0_mapped: "mapped_4k hdr0 (ptm pt_st0) 0x600000 2"
  apply code_simp
  done

text \<open>
  C7: On a range whose pages are all mapped by present 4K entries, set_memory_x returns 0, whatever
  the rest of the page tables holds: afterwards the leaf entry of every page of the range maps the
  same frame and has the same bits with NX off (and RW off too, if the frame is one of the kernel's read-only
  data), no other word of the page tables has changed, and neither has the rest of the module's
  state.
\<close>

theorem set_memory_x_4k:
  assumes "pte_format h okpfn okprot" and "offsets_local h" and "canon_pgprot h 0 = 0"
    and "test (supported_pte_mask h) (PAGE_NX h)" and "PAGE_NX h \<noteq> 0" and "\<not> irqs_disabled h"
    and "a AND PAGE_MASK h = a" and "unat n < 2 ^ 31" and "mapped_4k h (ptm s) a (unat n)" and "bits_differ h"
  shows "\<exists>s'. set_memory_x h a n s = Ret (0, s')
    \<and> (\<forall>i<unat n. nx_cleared h (ptm s (leaf h (ptm s) a i)) (ptm s' (leaf h (ptm s) a i)))
    \<and> (\<forall>x. x \<notin> leaf h (ptm s) a ` {..<unat n} \<longrightarrow> ptm s' x = ptm s x)
    \<and> pt_st.more s' = pt_st.more s"
proof -
  let ?m = "ptm s" and ?n = "unat n"
  define w where "w = snd (cpa_align h [a] 0)"
  have al: "cpa_align h [a] 0 = ([a], w)"
    using assms(7) by (simp add: cpa_align_def w_def)
  let ?s1 = "pt_event (w @ [KmapFlushUnused, VmUnmapAliases]) s"
  let ?c = "cpa_zero\<lparr>cvaddr := [a], cpages := [], numpages := scast n, mask_set := 0,
       mask_clr := PAGE_NX h, force_split := False, cflags := 0\<rparr>"
  have "ptm ?s1 = ?m" by (simp add: pt_event_def)
  then obtain c1 s2 where lp: "cpa_pages h None (of_nat ?n) ?c ?s1 = Ret (0, c1, s2)"
    and nx: "\<forall>i<?n. nx_cleared h (?m (leaf h ?m a i)) (ptm s2 (leaf h ?m a i))"
    and fr: "\<forall>x. x \<notin> leaf h ?m a ` {..<?n} \<longrightarrow> ptm s2 x = ?m x"
    using nx_pages [OF assms(1,10,2,9), of 0 ?c ?s1] assms(8) by (auto simp: cpa_zero_def)
  have np: "numpages ?c = of_nat ?n" using scast_small [OF assms(8)] by simp
  obtain s3 where fin: "cpa_finish h 0 0 (c1\<lparr>numpages := of_nat ?n\<rparr>) s2 = Ret (0, s3)" and p3: "ptm s3 = ptm s2"
    using cpa_finish_ok [OF assms(6)] by blast
  have st: "raw_change_page_attr_set_clr h ?c False ?s1 = Ret (0, c1\<lparr>numpages := of_nat ?n\<rparr>, s2)"
    using lp np by (simp add: raw_change_page_attr_set_clr_def cpa_set_clr_def)
  have r: "set_memory_x h a n s = Ret (0, s3)"
    using assms(3-5) al st fin
    by (simp add: set_memory_x_def change_page_attr_clear_def change_page_attr_set_clr_def Let_def)
  with set_memory_x_more [OF r] nx fr p3 show ?thesis by auto
qed

theorem set_memory_x_4k_witness:
  "\<exists>s'. set_memory_x hdr0 0x600000 2 pt_st0 = Ret (0, s')
     \<and> nx_cleared hdr0 (ptm0 (leaf hdr0 ptm0 0x600000 1)) (ptm s' (leaf hdr0 ptm0 0x600000 1))"
proof -
  have "\<exists>s'. set_memory_x hdr0 0x600000 2 pt_st0 = Ret (0, s')
    \<and> (\<forall>i<unat (2 :: cint). nx_cleared hdr0 (ptm pt_st0 (leaf hdr0 (ptm pt_st0) 0x600000 i)) (ptm s' (leaf hdr0 (ptm pt_st0) 0x600000 i)))
    \<and> (\<forall>x. x \<notin> leaf hdr0 (ptm pt_st0) 0x600000 ` {..<unat (2 :: cint)} \<longrightarrow> ptm s' x = ptm pt_st0 x)
    \<and> pt_st.more s' = pt_st.more pt_st0"
    using pt_st0_mapped
    by (intro set_memory_x_4k [OF hdr0_format hdr0_local]) (simp_all add: hdr0_def test_def bits_differ_def)
  then obtain s' where r: "set_memory_x hdr0 0x600000 2 pt_st0 = Ret (0, s')" and
    nx: "\<forall>i<unat (2 :: cint). nx_cleared hdr0 (ptm pt_st0 (leaf hdr0 (ptm pt_st0) 0x600000 i)) (ptm s' (leaf hdr0 (ptm pt_st0) 0x600000 i))"
    by blast
  have "ptm pt_st0 = ptm0" by (simp add: pt_st0_def)
  with nx have "nx_cleared hdr0 (ptm0 (leaf hdr0 ptm0 0x600000 1)) (ptm s' (leaf hdr0 ptm0 0x600000 1))"
    by simp
  with r show ?thesis by blast
qed

end
