(* ===== verification/Assist.thy ===== *)
theory Assist
  imports UB_Prelude
begin

text \<open>
  The helpers of the translator (\<open>zz_disassem/assist.py\<close>). The disassembler miasm is not part
  of the repository: its expressions and decoded instructions are the data the translator gets,
  with the constructors and attributes the scripts use. How miasm prints an expression that is
  not a register is a parameter (\<open>estr\<close>) of the text that is written; the text of a register is
  its name.
\<close>

section \<open>What miasm delivers\<close>

text \<open>\<open>ExprLoc\<close> carries the text \<open>arg2str\<close> gives for it; a segmented address is the operation \<open>segm\<close>.\<close>

datatype expr = ExprId string nat | ExprInt int nat | ExprMem expr nat | ExprOp string "expr list"
  | ExprLoc string

primrec expr_size :: "expr \<Rightarrow> nat" where
  "expr_size (ExprId n s) = s"
| "expr_size (ExprInt i s) = s"
| "expr_size (ExprMem p s) = s"
| "expr_size (ExprOp f as) = 64"
| "expr_size (ExprLoc l) = 64"

record asm_line =
  l_name :: string
  l_g1 :: u32
  l_prefix :: "u8 list"
  l_args :: "expr list"
  l_len :: int
  l_bytes :: "u8 list"

section \<open>Operands and instructions that are written\<close>

record mem_dict =
  md_sz :: nat
  md_regs :: "expr list"
  md_im :: "expr option"
  md_mul :: "expr list"

datatype targ = Ex expr | Dict mem_dict | Str string

text \<open>
  A line of the output: \<open>Inst\<close> is \<open>make_inst(name, args)\<close> and \<open>Line\<close> a literal line. The moves
  between a physical register \<open>R<p>\<close> and the slot \<open>Stack_R<v>\<close> of a virtual one, and the load of
  a constant, which the register allocator writes, have constructors of their own.
\<close>

datatype tinst = StoreSlot string string | LoadSlot string string | Movabs string int
  | Inst string "targ list" | Line string

section \<open>Strings\<close>

definition hex_digit :: "nat \<Rightarrow> char" where
  "hex_digit d = ''0123456789abcdef'' ! d"

fun hex_digits :: "nat \<Rightarrow> string" where
  "hex_digits n = (if n < 16 then [hex_digit n] else hex_digits (n div 16) @ [hex_digit (n mod 16)])"

declare hex_digits.simps [simp del]

text \<open>Python's \<open>hex\<close>.\<close>

definition py_hex :: "int \<Rightarrow> string" where
  "py_hex i = (if i < 0 then ''-0x'' @ hex_digits (nat (- i)) else ''0x'' @ hex_digits (nat i))"

definition py_slice :: "nat \<Rightarrow> nat \<Rightarrow> 'a list \<Rightarrow> 'a list" where
  "py_slice a b xs = take (b - a) (drop a xs)"

text \<open>\<open>name.find(i) != -1\<close>\<close>

fun contains :: "string \<Rightarrow> string \<Rightarrow> bool" where
  "contains [] t = (t = [])"
| "contains (c # s) t = (take (length t) (c # s) = t \<or> contains s t)"

definition pad15 :: "string \<Rightarrow> string" where
  "pad15 s = s @ replicate (15 - length s) (CHR '' '')"

fun join :: "string \<Rightarrow> string list \<Rightarrow> string" where
  "join sep [] = ''''"
| "join sep [x] = x"
| "join sep (x # y # ys) = x @ sep @ join sep (y # ys)"

section \<open>Instruction classes\<close>

definition conditional_branch :: "string list" where
  "conditional_branch = [''JO'', ''JNO'', ''JB'', ''JAE'', ''JZ'', ''JNZ'', ''JBE'', ''JA'', ''JS'', ''JNS'',
     ''JPE'', ''JNP'', ''JL'', ''JGE'', ''JLE'', ''JG'', ''JCXZ'', ''JECXZ'', ''JRCXZ'']"

definition unconditional_branch :: "string list" where
  "unconditional_branch = [''JMP'', ''JMPF'']"

definition ops_def_flags :: "string list" where
  "ops_def_flags = [''CMP'', ''TEST'', ''ADD'', ''SUB'', ''NEG'', ''INC'', ''MUL'', ''DIV'', ''AND'', ''OR'',
     ''XOR'', ''NOT'', ''SHL'', ''SAL'', ''SHR'', ''SAR'', ''ROL'', ''ROR'', ''RCL'', ''RCR'', ''CLC'', ''CLD'',
     ''STC'', ''STD'']"

definition ops_use_flags :: "string list" where
  "ops_use_flags = conditional_branch @ [''LAHF'', ''SET'', ''CMOV'']"

definition sz2pfx :: "nat \<Rightarrow> string option" where
  "sz2pfx s = map_of [(128, ''XMMWORD PTR''), (64, ''QWORD PTR''), (32, ''DWORD PTR''), (16, ''WORD PTR''),
     (8, ''BYTE PTR'')] s"

definition check_in_list :: "string \<Rightarrow> string list \<Rightarrow> bool" where
  "check_in_list name l = list_ex (contains name) l"

text \<open>The name with its prefixes.\<close>

definition get_inst_name :: "asm_line \<Rightarrow> string" where
  "get_inst_name i =
     (let o1 = (if test (l_g1 i) 1 then ''LOCK '' @ l_name i else l_name i);
          o2 = (if test (l_g1 i) 2 \<and> l_prefix i \<noteq> [0xF2] then ''REPNE '' @ o1 else o1)
      in if test (l_g1 i) 8 then (if l_prefix i \<noteq> [0xF3] then ''REP '' @ o2 else o2)
         else if test (l_g1 i) 4 \<and> l_prefix i \<noteq> [0xF3] then ''REPE '' @ o2 else o2)"

text \<open>The loop over the reversed lines: the answers come last line first.\<close>

fun flag_scan :: "bool \<Rightarrow> string list \<Rightarrow> bool list" where
  "flag_scan can_check [] = []"
| "flag_scan can_check (name # names) =
     (let c = (if check_in_list name ops_def_flags then True
               else if check_in_list name ops_use_flags then False else can_check)
      in c # flag_scan c names)"

definition check_flag_def_use :: "asm_line list \<Rightarrow> bool list" where
  "check_flag_def_use lines = flag_scan False (map get_inst_name (rev lines))"

section \<open>Building operands and lines\<close>

definition make_mem_dict :: "nat \<Rightarrow> string list \<Rightarrow> int \<Rightarrow> mem_dict" where
  "make_mem_dict sz rs i =
     \<lparr>md_sz = sz, md_regs = map (\<lambda>r. ExprId r 64) rs, md_im = (if i \<noteq> 0 then Some (ExprInt i 64) else None),
      md_mul = []\<rparr>"

definition im64_abs :: "expr \<Rightarrow> string" where
  "im64_abs arg = (case arg of ExprInt i s \<Rightarrow> if s = 64 then ''ABS'' else '''' | _ \<Rightarrow> '''')"

text \<open>\<open>None\<close>: the size has no prefix, and the lookup in \<open>sz2pfx\<close> raises.\<close>

definition arg_text :: "(expr \<Rightarrow> string) \<Rightarrow> targ \<Rightarrow> string option" where
  "arg_text estr a = (case a of
       Str s \<Rightarrow> Some s
     | Ex e \<Rightarrow> Some (estr e)
     | Dict d \<Rightarrow> map_option (\<lambda>pfx. pfx @ '' ['' @ join '' + '' (map estr (md_regs d)
           @ (case md_im d of None \<Rightarrow> [] | Some i \<Rightarrow> [estr i])
           @ (case md_mul d of m0 # m1 # _ \<Rightarrow> [estr m0 @ '' * '' @ estr m1] | _ \<Rightarrow> [])) @ '']'')
         (sz2pfx (md_sz d)))"

definition make_inst :: "(expr \<Rightarrow> string) \<Rightarrow> string \<Rightarrow> targ list \<Rightarrow> string option" where
  "make_inst estr name args =
     map_option (\<lambda>ts. pad15 name @ '' '' @ join '', '' ts @ ''\<newline>'') (those (map (arg_text estr) args))"

definition tinst_text :: "(expr \<Rightarrow> string) \<Rightarrow> tinst \<Rightarrow> string option" where
  "tinst_text estr t = (case t of
       StoreSlot v p \<Rightarrow> make_inst estr ''MOV'' [Str (''Stack_R'' @ v), Str (''R'' @ p)]
     | LoadSlot p v \<Rightarrow> make_inst estr ''MOV'' [Str (''R'' @ p), Str (''Stack_R'' @ v)]
     | Movabs p i \<Rightarrow> make_inst estr ''MOVABS'' [Str (''R'' @ p), Str (py_hex i)]
     | Inst n as \<Rightarrow> make_inst estr n as
     | Line s \<Rightarrow> Some (s @ ''\<newline>''))"

section \<open>Flags, read forward\<close>

text \<open>Reading forward from a line: the flags are dead there if an instruction that sets them comes before any that uses them.\<close>

primrec flags_dead :: "string list \<Rightarrow> bool" where
  "flags_dead [] = False"
| "flags_dead (n # ns) =
     (if check_in_list n ops_def_flags then True
      else if check_in_list n ops_use_flags then False else flags_dead ns)"

definition line0 :: "string \<Rightarrow> expr list \<Rightarrow> asm_line" where
  "line0 n as = \<lparr>l_name = n, l_g1 = 0, l_prefix = [], l_args = as, l_len = 2, l_bytes = []\<rparr>"

section \<open>The backward pass\<close>

lemma flag_scan_snoc:
  "flag_scan c (xs @ [n]) = flag_scan c xs
     @ [if check_in_list n ops_def_flags then True
        else if check_in_list n ops_use_flags then False else last (c # flag_scan c xs)]"
  by (induction xs arbitrary: c) (simp_all add: Let_def)

lemma flag_scan_rev:
  "last (False # flag_scan False (rev ns)) = flags_dead ns
   \<and> flag_scan False (rev ns) = rev (map (\<lambda>k. flags_dead (drop k ns)) [0..<length ns])"
proof (induction ns)
  case (Cons n ns)
  have m: "map (\<lambda>k. flags_dead (drop k (n # ns))) [0..<length (n # ns)]
      = flags_dead (n # ns) # map (\<lambda>k. flags_dead (drop k ns)) [0..<length ns]"
    by (simp only: length_Cons upt_conv_Cons [OF zero_less_Suc] map_Suc_upt [symmetric]) simp
  have s: "flag_scan False (rev (n # ns)) = flag_scan False (rev ns) @ [flags_dead (n # ns)]"
    using Cons [THEN conjunct1] by (simp only: rev.simps flag_scan_snoc flags_dead.simps)
  show ?case unfolding s m using Cons [THEN conjunct2] by simp
qed simp

text \<open>
  The one backward pass over a block answers, for every line, the forward question whether
  the flags are dead there: whether an instruction of the list that sets them comes before any of
  the list that uses them. The answers come last line first, which is the order in which they are
  taken.
\<close>

lemma check_flag_def_use_spec:
  "rev (check_flag_def_use lines) = map (\<lambda>k. flags_dead (map get_inst_name (drop k lines))) [0..<length lines]"
  using flag_scan_rev [of "map get_inst_name lines"]
  by (simp add: check_flag_def_use_def rev_map drop_map)

lemma adc_clobbered:
  "check_flag_def_use [line0 ''MOV'' [], line0 ''ADC'' [], line0 ''CMP'' []] = [True, True, True]"
  by code_simp

text \<open>
  Names are matched by substring: PADDD counts as ADD, and the zero flag the branch reads is
  taken to be dead before it.
\<close>

lemma sse_clobbered:
  "check_flag_def_use [line0 ''MOV'' [], line0 ''PADDD'' [], line0 ''JZ'' []] = [False, True, True]"
  by code_simp

end
