(* ===== verification/Conflict.thy ===== *)
theory Conflict
  imports Assist
begin

text \<open>
  The register allocator of the translator (\<open>zz_disassem/conflict.py\<close>). Translated code may use
  R12 to R15 as it likes: \<open>reg_map\<close> says which virtual register (the user's R12 to R15, RSP, RBP,
  the segment bases, RIP, or a temporary \<open>T1\<close>, \<open>T2\<close>) each of them holds; a virtual register that is
  in none of them is in its slot of the frame. The dictionary is an association list, the empty
  string stands for an idle register. Python's sets are lists without repetition, and the order in
  which a set is walked or popped is a parameter, \<open>order\<close>. \<open>None\<close> is a \<open>KeyError\<close>.
\<close>

type_synonym reg_map = "(string \<times> string) list"

definition special_regs :: "string list" where
  "special_regs = [''IP'', ''SP'', ''BP'', ''15'', ''14'', ''13'', ''12'', ''FS'', ''GS'', ''T1'', ''T2'']"

definition stable_regs :: "string list" where
  "stable_regs = [''T1'', ''T2'', ''SP'', ''BP'']"

definition orig_stable_map :: "string \<Rightarrow> string" where
  "orig_stable_map v = (if v = ''SP'' then ''13'' else ''12'')"

definition sz2sfx :: "nat \<Rightarrow> string option" where
  "sz2sfx s = map_of [(64, ''''), (32, ''d''), (16, ''w''), (8, ''b'')] s"

definition block_init :: reg_map where
  "block_init = [(''15'', ''''), (''14'', ''''), (''13'', ''SP''), (''12'', ''BP'')]"

definition rm_get :: "reg_map \<Rightarrow> string \<Rightarrow> string" where
  "rm_get m p = (case map_of m p of None \<Rightarrow> '''' | Some v \<Rightarrow> v)"

definition rm_set :: "string \<Rightarrow> string \<Rightarrow> reg_map \<Rightarrow> reg_map" where
  "rm_set p v m = map (\<lambda>(k, w). (k, if k = p then v else w)) m"

text \<open>\<open>{v: k for k, v in reg_map.items()}\<close>: the last entry wins.\<close>

definition inv_map :: "reg_map \<Rightarrow> string \<Rightarrow> string option" where
  "inv_map m = map_of (rev (map (\<lambda>(k, v). (v, k)) m))"

definition is_temp :: "string \<Rightarrow> bool" where
  "is_temp v \<longleftrightarrow> v \<noteq> '''' \<and> hd v = CHR ''T''"

definition release_IP :: "reg_map \<Rightarrow> reg_map" where
  "release_IP m = (case inv_map m ''IP'' of None \<Rightarrow> m | Some p \<Rightarrow> rm_set p '''' m)"

definition release_conflict :: "reg_map \<Rightarrow> bool \<Rightarrow> tinst list" where
  "release_conflict m block_end =
     (if \<not> block_end then []
      else concat (map (\<lambda>(k, v). if v = '''' \<or> v \<in> set stable_regs then []
                                 else if v \<noteq> ''FS'' \<and> v \<noteq> ''GS'' then [StoreSlot v k] else []) m))"

definition release_tmp_conflict :: "reg_map \<Rightarrow> reg_map" where
  "release_tmp_conflict m = map (\<lambda>(k, v). (k, if is_temp v then '''' else v)) m"

text \<open>The registers named by the first two, or the second and third, characters.\<close>

definition extract_conflict_regs :: "string \<Rightarrow> string list" where
  "extract_conflict_regs key =
     filter (\<lambda>k. k \<in> set special_regs)
       (py_slice 0 2 key # (if length key > 2 then [py_slice 1 3 key] else []))"

text \<open>One round of the loop per register: an idle register, else a victim, else a stable one.\<close>

fun resolve_loop ::
  "int \<Rightarrow> string list \<Rightarrow> string list \<Rightarrow> string list \<Rightarrow> string list \<Rightarrow> reg_map \<Rightarrow> (tinst list \<times> reg_map) option" where
  "resolve_loop offset idle vict stab [] m = Some ([], m)"
| "resolve_loop offset idle vict stab (v # vs) m =
     (case (case idle of
              p # ps \<Rightarrow> Some (p, [], ps, vict, stab)
            | [] \<Rightarrow> (case vict of
                p # ps \<Rightarrow> Some (p, [StoreSlot (rm_get m p) p], [], ps, stab)
              | [] \<Rightarrow> (case stab of
                  p # ps \<Rightarrow> Some (p, [StoreSlot (rm_get m p) p], [], [], ps)
                | [] \<Rightarrow> None))) of
        None \<Rightarrow> None
      | Some (p, save, idle1, vict1, stab1) \<Rightarrow>
          let load = (if v = ''IP'' then [Movabs p offset]
                      else if v \<notin> set stable_regs then [LoadSlot p v] else [])
          in map_option (\<lambda>(code, m1). (save @ load @ code, m1))
               (resolve_loop offset idle1 vict1 stab1 vs (rm_set p v m)))"

definition conflict_resolve ::
  "(string list \<Rightarrow> string list) \<Rightarrow> reg_map \<Rightarrow> string list \<Rightarrow> int \<Rightarrow> (tinst list \<times> reg_map) option" where
  "conflict_resolve order m conflict_regs offset =
     (let resolved = filter (\<lambda>v. v \<noteq> '''') (map snd m);
          idle = map fst (filter (\<lambda>(k, v). v = '''') m);
          vict = map fst (filter (\<lambda>(k, v). v \<notin> set conflict_regs \<and> v \<noteq> '''' \<and> v \<notin> set stable_regs) m);
          stab = map fst (filter (\<lambda>(p, v). p \<notin> set conflict_regs \<and> v \<in> set stable_regs \<and> \<not> is_temp v) m);
          todo = filter (\<lambda>v. v \<notin> set resolved) conflict_regs
      in resolve_loop offset (order idle) (order vict) (order stab) (order todo) m)"

text \<open>The inverse map is taken once, before the loop over the stable registers.\<close>

definition recover_one :: "(string \<Rightarrow> string option) \<Rightarrow> string \<Rightarrow> tinst list \<times> reg_map \<Rightarrow> tinst list \<times> reg_map" where
  "recover_one iv v cm =
     (if is_temp v \<or> iv v \<noteq> None then cm
      else let p = orig_stable_map v
        in (fst cm @ [StoreSlot (rm_get (snd cm) p) p, LoadSlot p v], rm_set p v (snd cm)))"

definition recover_stable :: "reg_map \<Rightarrow> tinst list \<times> reg_map" where
  "recover_stable m = fold (recover_one (inv_map m)) stable_regs ([], m)"

text \<open>A register operand: its name, with the physical register that holds it put in.\<close>

definition apply_reg :: "reg_map \<Rightarrow> expr \<Rightarrow> expr option" where
  "apply_reg m e = (case e of
       ExprId key sz \<Rightarrow>
         let k1 = (if length key > 2 then py_slice 1 3 key else ''''); k2 = py_slice 0 2 key;
             look = (\<lambda>k. case inv_map m k of None \<Rightarrow> None
                | Some p \<Rightarrow> map_option (\<lambda>sfx. ExprId (''R'' @ p @ sfx) sz) (sz2sfx sz))
         in if k1 \<in> set special_regs then look k1
            else if k2 \<in> set special_regs then look k2 else Some e
     | _ \<Rightarrow> Some e)"

definition apply_regs :: "reg_map \<Rightarrow> expr list \<Rightarrow> expr list option" where
  "apply_regs m es = those (map (apply_reg m) es)"

definition apply_arg :: "reg_map \<Rightarrow> targ \<Rightarrow> targ option" where
  "apply_arg m a = (case a of
       Dict d \<Rightarrow> (case apply_regs m (md_regs d) of None \<Rightarrow> None
         | Some rs \<Rightarrow> map_option (\<lambda>ml. Dict (d\<lparr>md_regs := rs, md_mul := ml\<rparr>)) (apply_regs m (md_mul d)))
     | Ex e \<Rightarrow> map_option Ex (apply_reg m e)
     | Str s \<Rightarrow> Some a)"

definition apply_map :: "targ list \<Rightarrow> reg_map \<Rightarrow> targ list option" where
  "apply_map args m = those (map (apply_arg m) args)"

definition reverse_reg :: "reg_map \<Rightarrow> string \<Rightarrow> string option" where
  "reverse_reg m name =
     (let k = py_slice 1 3 name in if k \<in> set special_regs then inv_map m k else Some k)"

section \<open>What the written moves do\<close>

text \<open>The physical registers and the frame slots, by the names used above.\<close>

record frame =
  ph :: "string \<Rightarrow> u64"
  sl :: "string \<Rightarrow> u64"

definition exec1 :: "tinst \<Rightarrow> frame \<Rightarrow> frame" where
  "exec1 t s = (case t of
       StoreSlot v p \<Rightarrow> s\<lparr>sl := (sl s)(v := ph s p)\<rparr>
     | LoadSlot p v \<Rightarrow> s\<lparr>ph := (ph s)(p := sl s v)\<rparr>
     | Movabs p i \<Rightarrow> s\<lparr>ph := (ph s)(p := of_int i)\<rparr>
     | Inst n as \<Rightarrow> s
     | Line l \<Rightarrow> s)"

definition exec :: "tinst list \<Rightarrow> frame \<Rightarrow> frame" where
  "exec code s = fold exec1 code s"

text \<open>The value of a virtual register: in the register that holds it, else in its slot.\<close>

definition vget :: "reg_map \<Rightarrow> frame \<Rightarrow> string \<Rightarrow> u64" where
  "vget m s v = (case inv_map m v of Some p \<Rightarrow> ph s p | None \<Rightarrow> sl s v)"

definition rm_ok :: "reg_map \<Rightarrow> bool" where
  "rm_ok m \<longleftrightarrow> map fst m = [''15'', ''14'', ''13'', ''12''] \<and> distinct (filter (\<lambda>v. v \<noteq> '''') (map snd m))"

section \<open>What is said of the allocator\<close>

text \<open>What the three pools of physical registers satisfy, and the registers that are to be resolved.\<close>

definition pools_ok :: "reg_map \<Rightarrow> string list \<Rightarrow> string list \<Rightarrow> string list \<Rightarrow> string list \<Rightarrow> bool" where
  "pools_ok m idle vict stab todo \<longleftrightarrow> distinct (idle @ vict @ stab) \<and> set (idle @ vict @ stab) \<subseteq> fst ` set m
     \<and> (\<forall>p \<in> set idle. rm_get m p = '''') \<and> (\<forall>p \<in> set (vict @ stab). rm_get m p \<noteq> '''')
     \<and> distinct todo \<and> '''' \<notin> set todo \<and> set todo \<inter> snd ` set m = {}"

definition walks_sets :: "(string list \<Rightarrow> string list) \<Rightarrow> bool" where
  "walks_sets order \<longleftrightarrow> (\<forall>xs. distinct xs \<longrightarrow> distinct (order xs) \<and> set (order xs) = set xs)"

text \<open>The state at the start of an instruction: RSP in R13, RBP in R12, RIP nowhere.\<close>

definition rm_ready :: "reg_map \<Rightarrow> bool" where
  "rm_ready m \<longleftrightarrow> rm_ok m \<and> rm_get m ''13'' = ''SP'' \<and> rm_get m ''12'' = ''BP'' \<and> ''IP'' \<notin> snd ` set m"

text \<open>The four lists \<open>conflict_resolve\<close> works with.\<close>

definition idle_of :: "reg_map \<Rightarrow> string list" where
  "idle_of m = map fst (filter (\<lambda>(k, v). v = '''') m)"

definition vict_of :: "reg_map \<Rightarrow> string list \<Rightarrow> string list" where
  "vict_of m rs = map fst (filter (\<lambda>(k, v). v \<notin> set rs \<and> v \<noteq> '''' \<and> v \<notin> set stable_regs) m)"

definition stab_of :: "reg_map \<Rightarrow> string list \<Rightarrow> string list" where
  "stab_of m rs = map fst (filter (\<lambda>(p, v). p \<notin> set rs \<and> v \<in> set stable_regs \<and> \<not> is_temp v) m)"

definition todo_of :: "reg_map \<Rightarrow> string list \<Rightarrow> string list" where
  "todo_of m rs = filter (\<lambda>v. v \<notin> set (filter (\<lambda>v. v \<noteq> '''') (map snd m))) rs"

text \<open>Where a stable register is before it is put back: at home, or swapped out by another register.\<close>

definition home_ok :: "reg_map \<Rightarrow> string \<Rightarrow> bool" where
  "home_ok m v \<longleftrightarrow> inv_map m v = Some (orig_stable_map v)
     \<or> inv_map m v = None \<and> rm_get m (orig_stable_map v) \<noteq> ''''"

text \<open>
  An instruction as the user sees it: \<open>F\<close> gives the new values of the registers it names from the
  old values of all of them. The machine runs it on the registers that hold them.
\<close>

definition run_virtual :: "((string \<Rightarrow> u64) \<Rightarrow> string \<Rightarrow> u64) \<Rightarrow> string list \<Rightarrow> reg_map \<Rightarrow> frame \<Rightarrow> frame" where
  "run_virtual F rs m s = s\<lparr>ph := (\<lambda>p. if p \<in> fst ` set m \<and> rm_get m p \<in> set rs then F (vget m s) (rm_get m p) else ph s p)\<rparr>"

text \<open>The registers of the user that the allocator moves about.\<close>

definition tracked :: "string \<Rightarrow> bool" where
  "tracked v \<longleftrightarrow> v \<noteq> '''' \<and> v \<noteq> ''IP'' \<and> \<not> is_temp v"

text \<open>What an instruction may name: without borrowing, anything; with borrowing, only user registers.\<close>

definition resolvable :: "reg_map \<Rightarrow> string list \<Rightarrow> bool" where
  "resolvable m rs \<longleftrightarrow> length (todo_of m rs) \<le> length (idle_of m) + length (vict_of m rs)
     \<or> list_all (\<lambda>v. v \<in> {''15'', ''14'', ''13'', ''12'', ''FS'', ''GS''}) rs"

definition frame0 :: frame where
  "frame0 = \<lparr>ph = (\<lambda>p. 1), sl = (\<lambda>v. if v = ''15'' then 5 else 9)\<rparr>"

section \<open>The map and its inverse\<close>

lemma distinct_values:
  assumes "distinct (map fst m)"
  shows "distinct (filter (\<lambda>v. v \<noteq> '''') (map snd m)) \<longleftrightarrow>
    (\<forall>p q v. (p, v) \<in> set m \<longrightarrow> (q, v) \<in> set m \<longrightarrow> v \<noteq> '''' \<longrightarrow> p = q)"
proof -
  have "distinct m" using assms by (simp add: distinct_map)
  then have "distinct (filter (\<lambda>v. v \<noteq> '''') (map snd m)) \<longleftrightarrow> inj_on snd {x \<in> set m. snd x \<noteq> ''''}"
    by (simp add: filter_map distinct_map o_def)
  also have "\<dots> \<longleftrightarrow> (\<forall>p q v. (p, v) \<in> set m \<longrightarrow> (q, v) \<in> set m \<longrightarrow> v \<noteq> '''' \<longrightarrow> p = q)"
    unfolding inj_on_def by fastforce
  finally show ?thesis .
qed

lemma rm_okD:
  assumes "rm_ok m"
  shows "distinct (map fst m)" and "map fst m = [''15'', ''14'', ''13'', ''12'']"
    and "(p, v) \<in> set m \<Longrightarrow> (q, v) \<in> set m \<Longrightarrow> v \<noteq> '''' \<Longrightarrow> p = q"
proof -
  show d: "distinct (map fst m)" and "map fst m = [''15'', ''14'', ''13'', ''12'']"
    using assms by (simp_all add: rm_ok_def)
  show "(p, v) \<in> set m \<Longrightarrow> (q, v) \<in> set m \<Longrightarrow> v \<noteq> '''' \<Longrightarrow> p = q"
    using assms distinct_values [OF d] unfolding rm_ok_def by blast
qed

lemma inv_map_iff:
  assumes "rm_ok m" and "v \<noteq> ''''"
  shows "inv_map m v = Some p \<longleftrightarrow> (p, v) \<in> set m"
proof
  show "inv_map m v = Some p \<Longrightarrow> (p, v) \<in> set m" by (auto simp: inv_map_def dest!: map_of_SomeD)
  assume p: "(p, v) \<in> set m"
  then have "v \<in> fst ` set (rev (map (\<lambda>(k, v). (v, k)) m))" by force
  then obtain q where q: "inv_map m v = Some q" unfolding inv_map_def by (metis map_of_eq_None_iff option.exhaust)
  then have "(q, v) \<in> set m" by (auto simp: inv_map_def dest!: map_of_SomeD)
  with rm_okD(3) [OF assms(1) p _ assms(2)] q show "inv_map m v = Some p" by simp
qed

lemma inv_map_None: "inv_map m v = None \<longleftrightarrow> v \<notin> snd ` set m"
  by (force simp: inv_map_def map_of_eq_None_iff)

lemma rm_get_iff:
  assumes "rm_ok m" and "p \<in> fst ` set m"
  shows "rm_get m p = v \<longleftrightarrow> (p, v) \<in> set m"
proof -
  from assms(2) obtain w where w: "(p, w) \<in> set m" by auto
  with rm_okD(1) [OF assms(1)] have g: "rm_get m p = w" by (simp add: rm_get_def)
  have "(p, v) \<in> set m \<Longrightarrow> v = w"
    using eq_key_imp_eq_value [OF rm_okD(1) [OF assms(1)] _ w] .
  with w g show ?thesis by blast
qed

lemma keys_rm_set [simp]: "map fst (rm_set p v m) = map fst m" "fst ` set (rm_set p v m) = fst ` set m"
  by (induction m) (auto simp: rm_set_def)

lemma in_rm_set: "(q, w) \<in> set (rm_set p v m) \<longleftrightarrow> (\<exists>u. (q, u) \<in> set m \<and> w = (if q = p then v else u))"
  by (induction m) (auto simp: rm_set_def)

lemma rm_set_ok:
  assumes "rm_ok m" and "v = '''' \<or> v \<notin> snd ` set m"
  shows "rm_ok (rm_set p v m)"
proof -
  have d: "distinct (map fst (rm_set p v m))" using rm_okD(1) [OF assms(1)] by simp
  have n: "w = v \<Longrightarrow> w \<noteq> '''' \<Longrightarrow> (r, w) \<notin> set m" for r w using assms(2) by force
  have "q = r" if "(q, w) \<in> set (rm_set p v m)" "(r, w) \<in> set (rm_set p v m)" "w \<noteq> ''''" for q r w
  proof -
    from that obtain u1 u2 where u: "(q, u1) \<in> set m" "w = (if q = p then v else u1)"
      "(r, u2) \<in> set m" "w = (if r = p then v else u2)"
      unfolding in_rm_set by blast
    show ?thesis
    proof (cases "q = p \<or> r = p")
      case True
      with u n [of w] that(3) show ?thesis by metis
    next
      case False
      with u rm_okD(3) [OF assms(1)] that(3) show ?thesis by metis
    qed
  qed
  with distinct_values [OF d] rm_okD(2) [OF assms(1)] show ?thesis by (simp add: rm_ok_def)
qed

lemma inv_rm_set:
  assumes "rm_ok m" and "p \<in> fst ` set m" and "v = '''' \<or> v \<notin> snd ` set m" and "u \<noteq> ''''"
  shows "inv_map (rm_set p v m) u = (if u = v then Some p else if u = rm_get m p then None else inv_map m u)"
proof -
  have ok: "rm_ok (rm_set p v m)" using rm_set_ok [OF assms(1,3)] .
  have i: "inv_map (rm_set p v m) u = Some q \<longleftrightarrow> (\<exists>w. (q, w) \<in> set m \<and> u = (if q = p then v else w))" for q
    by (simp add: inv_map_iff [OF ok assms(4)] in_rm_set)
  have g: "(p, rm_get m p) \<in> set m" using rm_get_iff [OF assms(1,2)] by blast
  consider "u = v" | "u \<noteq> v" "u = rm_get m p" | "u \<noteq> v" "u \<noteq> rm_get m p" by blast
  then show ?thesis
  proof cases
    case 1
    with i [of p] g show ?thesis by auto
  next
    case 2
    then have "inv_map (rm_set p v m) u \<noteq> Some q" for q
      using i [of q] g rm_okD(3) [OF assms(1) _ g] assms(4) by (auto split: if_splits)
    with 2 show ?thesis by auto
  next
    case 3
    have "(p, u) \<notin> set m" using 3(2) rm_get_iff [OF assms(1,2), of u] by simp
    with 3(1) have "inv_map (rm_set p v m) u = Some q \<longleftrightarrow> inv_map m u = Some q" for q
      using i [of q] inv_map_iff [OF assms(1,4), of q] by (cases "q = p") simp_all
    then have "inv_map (rm_set p v m) u = inv_map m u"
      by (cases "inv_map m u"; cases "inv_map (rm_set p v m) u") auto
    with 3 show ?thesis by simp
  qed
qed

lemma map_of_rm_set: "map_of (rm_set p v m) q = map_option (\<lambda>w. if q = p then v else w) (map_of m q)"
  by (induction m) (auto simp: rm_set_def)

lemma rm_get_set:
  assumes "q \<in> fst ` set m"
  shows "rm_get (rm_set p v m) q = (if q = p then v else rm_get m q)"
proof -
  obtain w where "map_of m q = Some w" using assms by (metis map_of_eq_None_iff not_None_eq)
  then show ?thesis by (simp add: rm_get_def map_of_rm_set)
qed

section \<open>Resolving\<close>

lemma exec_simps [simp]:
  "exec [] s = s" "exec (t # ts) s = exec ts (exec1 t s)" "exec (as @ bs) s = exec bs (exec as s)"
  "exec1 (StoreSlot v p) s = s\<lparr>sl := (sl s)(v := ph s p)\<rparr>" "exec1 (LoadSlot p v) s = s\<lparr>ph := (ph s)(p := sl s v)\<rparr>"
  "exec1 (Movabs p i) s = s\<lparr>ph := (ph s)(p := of_int i)\<rparr>"
  by (simp_all add: exec_def exec1_def)

text \<open>One round: the register \<open>v\<close>, so far in its slot, goes to \<open>p\<close>, whose content is saved unless it is idle.\<close>

lemma resolve_step:
  assumes ok: "rm_ok m" and p: "p \<in> fst ` set m" and v: "v \<noteq> ''''" "v \<notin> snd ` set m"
    and save: "save = (if rm_get m p = '''' then [] else [StoreSlot (rm_get m p) p])"
    and load: "load = [] \<or> load = [LoadSlot p v] \<or> load = [Movabs p offset]"
    and u: "u \<noteq> ''''" "u = v \<Longrightarrow> load = [LoadSlot p v]"
  shows "vget (rm_set p v m) (exec (save @ load) s) u = vget m s u"
proof -
  let ?w = "rm_get m p"
  have g: "(p, ?w) \<in> set m" using rm_get_iff [OF ok p] by blast
  have vw: "v \<noteq> ?w" using g v(2) by force
  note inv = inv_rm_set [OF ok p _ u(1), of v] 
  have nv: "inv_map m v = None" using v(2) by (simp add: inv_map_None)
  have iw: "?w \<noteq> '''' \<Longrightarrow> inv_map m ?w = Some p" using inv_map_iff [OF ok] g by blast
  consider "u = v" | "u \<noteq> v" "u = ?w" | "u \<noteq> v" "u \<noteq> ?w" by blast
  then show ?thesis
  proof cases
    case 1
    with inv v u nv vw show ?thesis by (auto simp: vget_def save)
  next
    case 2
    with inv v u iw load show ?thesis by (auto simp: vget_def save)
  next
    case 3
    then have i: "inv_map (rm_set p v m) u = inv_map m u" using inv v by simp
    have "inv_map m u \<noteq> Some p" using 3(2) inv_map_iff [OF ok u(1), of p] rm_get_iff [OF ok p, of u] by simp
    with 3 i load show ?thesis by (auto simp: vget_def save split: option.split)
  qed
qed

lemma values_rm_set: "snd ` set (rm_set p v m) \<subseteq> insert v (snd ` set m)"
  by (auto simp: rm_set_def split: if_splits)

lemma resolve_loop_Cons:
  assumes "resolve_loop offset idle vict stab (v # vs) m = Some (code, m')"
    and "pools_ok m idle vict stab (v # vs)"
  obtains p save idle1 vict1 stab1 code1 where
    "idle @ vict @ stab = p # idle1 @ vict1 @ stab1"
    "save = (if rm_get m p = '''' then [] else [StoreSlot (rm_get m p) p])"
    "code = save @ (if v = ''IP'' then [Movabs p offset] else if v \<notin> set stable_regs then [LoadSlot p v] else []) @ code1"
    "resolve_loop offset idle1 vict1 stab1 vs (rm_set p v m) = Some (code1, m')"
    "pools_ok (rm_set p v m) idle1 vict1 stab1 vs"
proof -
  have pool: "pools_ok (rm_set p v m) idle1 vict1 stab1 vs"
    if e: "idle @ vict @ stab = p # idle1 @ vict1 @ stab1" and i: "set idle1 \<subseteq> set idle"
      and vs: "set (vict1 @ stab1) \<subseteq> set (vict @ stab)" for p idle1 vict1 stab1
  proof -
    have d: "distinct (p # idle1 @ vict1 @ stab1)" "set (p # idle1 @ vict1 @ stab1) \<subseteq> fst ` set m"
      using assms(2) unfolding pools_ok_def e [symmetric] by blast+
    have g: "rm_get (rm_set p v m) q = rm_get m q" if "q \<in> set (idle1 @ vict1 @ stab1)" for q
    proof -
      have "q \<noteq> p" "q \<in> fst ` set m" using d that by (metis distinct.simps(2), metis subset_iff list.set_intros(2))
      then show ?thesis by (simp add: rm_get_set)
    qed
    have "set vs \<inter> insert v (snd ` set m) = {}" using assms(2) unfolding pools_ok_def by simp
    then have "set vs \<inter> snd ` set (rm_set p v m) = {}" using values_rm_set [of p v m] by blast
    with assms(2) d g i vs show ?thesis unfolding pools_ok_def keys_rm_set by auto
  qed
  show ?thesis
  proof (cases idle)
    case (Cons p ps)
    then have "rm_get m p = ''''" using assms(2) by (simp add: pools_ok_def)
    with assms(1) Cons that [of p ps vict stab "[]"] pool [of p ps vict stab] show ?thesis by (auto simp: Let_def)
  next
    case Nil
    show ?thesis
    proof (cases vict)
      case (Cons p ps)
      then have "rm_get m p \<noteq> ''''" using assms(2) by (simp add: pools_ok_def)
      with assms(1) Nil Cons that [of p "[]" ps stab] pool [of p "[]" ps stab] show ?thesis
        by (auto simp: Let_def)
    next
      case vict: Nil
      show ?thesis
      proof (cases stab)
        case (Cons p ps)
        then have "rm_get m p \<noteq> ''''" using assms(2) by (simp add: pools_ok_def)
        with assms(1) Nil vict Cons that [of p "[]" "[]" ps] pool [of p "[]" "[]" ps] show ?thesis
          by (auto simp: Let_def)
      next
        case stab: Nil
        with assms(1) Nil vict show ?thesis by simp
      qed
    qed
  qed
qed

lemma resolve_loop_ok:
  assumes "resolve_loop offset idle vict stab todo m = Some (code, m')"
    and "rm_ok m" and "pools_ok m idle vict stab todo"
  shows "rm_ok m' \<and> set todo \<subseteq> snd ` set m'
    \<and> (\<forall>q \<in> fst ` set m - set (idle @ vict @ stab). rm_get m' q = rm_get m q)
    \<and> (\<forall>u. u \<noteq> '''' \<longrightarrow> (u \<in> set todo \<longrightarrow> u \<noteq> ''IP'' \<and> u \<notin> set stable_regs)
         \<longrightarrow> vget m' (exec code s) u = vget m s u)
    \<and> (''IP'' \<in> set todo \<longrightarrow> vget m' (exec code s) ''IP'' = of_int offset)
    \<and> (\<forall>q \<in> fst ` set m. rm_get m' q = rm_get m q \<or> rm_get m' q \<in> set todo)"
  using assms
proof (induction todo arbitrary: idle vict stab m code s)
  case Nil
  then show ?case by simp
next
  case (Cons v vs)
  obtain p save idle1 vict1 stab1 code1 where
    e: "idle @ vict @ stab = p # idle1 @ vict1 @ stab1"
    and save: "save = (if rm_get m p = '''' then [] else [StoreSlot (rm_get m p) p])"
    and code: "code = save @ (if v = ''IP'' then [Movabs p offset] else if v \<notin> set stable_regs then [LoadSlot p v] else []) @ code1"
    and r: "resolve_loop offset idle1 vict1 stab1 vs (rm_set p v m) = Some (code1, m')"
    and pk: "pools_ok (rm_set p v m) idle1 vict1 stab1 vs"
    by (rule resolve_loop_Cons [OF Cons(2,4)])
  define load where "load = (if v = ''IP'' then [Movabs p offset] else if v \<notin> set stable_regs then [LoadSlot p v] else [])"
  have pm: "p \<in> fst ` set m" and v: "v \<noteq> ''''" "v \<notin> snd ` set m" "v \<notin> set vs" and d: "p \<notin> set (idle1 @ vict1 @ stab1)"
    using Cons(4) unfolding pools_ok_def e by auto
  let ?m1 = "rm_set p v m" and ?s1 = "exec (save @ load) s"
  have ok1: "rm_ok ?m1" using rm_set_ok [OF Cons(3)] v(2) by blast
  have ex: "exec code s = exec code1 ?s1" by (simp add: code load_def)
  note IH = Cons(1) [OF r ok1 pk, of ?s1]
  note ok' = IH [THEN conjunct1] and sub = IH [THEN conjunct2, THEN conjunct1]
    and keep = IH [THEN conjunct2, THEN conjunct2, THEN conjunct1, rule_format]
    and val = IH [THEN conjunct2, THEN conjunct2, THEN conjunct2, THEN conjunct1, rule_format]
    and ip = IH [THEN conjunct2, THEN conjunct2, THEN conjunct2, THEN conjunct2, THEN conjunct1, rule_format]
    and new = IH [THEN conjunct2, THEN conjunct2, THEN conjunct2, THEN conjunct2, THEN conjunct2, rule_format]
  have keys: "fst ` set m' = fst ` set m"
    using rm_okD(2) [OF ok'] rm_okD(2) [OF Cons(3)] by (metis set_map)
  have "rm_get m' p = v" using keep [of p] d pm rm_get_set [OF pm] by simp
  then have "(p, v) \<in> set m'" using rm_get_iff [OF ok', of p v] pm keys by simp
  then have pv: "v \<in> snd ` set m'" by (rule image_eqI [rotated]) simp
  have 1: "vget m' (exec code s) u = vget m s u"
    if u: "u \<noteq> ''''" "u \<in> set (v # vs) \<longrightarrow> u \<noteq> ''IP'' \<and> u \<notin> set stable_regs" for u
  proof -
    have "vget m' (exec code s) u = vget ?m1 ?s1 u" using val [of u] u unfolding ex by simp
    also have "\<dots> = vget m s u"
      using u by (intro resolve_step [OF Cons(3) pm v(1,2) save]) (auto simp: load_def)
    finally show ?thesis .
  qed
  have 2: "vget m' (exec code s) ''IP'' = of_int offset" if "''IP'' \<in> set (v # vs)"
  proof (cases "v = ''IP''")
    case True
    then have "vget m' (exec code s) ''IP'' = vget ?m1 ?s1 ''IP''" using val [of "''IP''"] v(3) unfolding ex by simp
    also have "\<dots> = of_int offset"
      using inv_rm_set [OF Cons(3) pm, of v v] v True by (simp add: vget_def load_def)
    finally show ?thesis .
  next
    case False
    with ip that show ?thesis unfolding ex by simp
  qed
  have 3: "rm_get m' q = rm_get m q" if "q \<in> fst ` set m - set (idle @ vict @ stab)" for q
    using keep [of q] that rm_get_set [of q m p v] unfolding e by simp
  have 4: "rm_get m' q = rm_get m q \<or> rm_get m' q \<in> set (v # vs)" if "q \<in> fst ` set m" for q
    using new [of q] rm_get_set [OF that, of p v] that by (auto split: if_splits)
  show ?case using ok' sub pv 1 2 3 4 by simp
qed

section \<open>The three steps of the allocator\<close>

lemma pools_ok_resolve:
  assumes "walks_sets order" and "rm_ok m" and "distinct rs" and "'''' \<notin> set rs"
  shows "pools_ok m (order (map fst (filter (\<lambda>(k, v). v = '''') m)))
     (order (map fst (filter (\<lambda>(k, v). v \<notin> set rs \<and> v \<noteq> '''' \<and> v \<notin> set stable_regs) m)))
     (order (map fst (filter (\<lambda>(p, v). p \<notin> set rs \<and> v \<in> set stable_regs \<and> \<not> is_temp v) m)))
     (order (filter (\<lambda>v. v \<notin> set (filter (\<lambda>v. v \<noteq> '''') (map snd m))) rs))"
proof -
  define A B C where "A = map fst (filter (\<lambda>(k, v). v = '''') m)"
    and "B = map fst (filter (\<lambda>(k, v). v \<notin> set rs \<and> v \<noteq> '''' \<and> v \<notin> set stable_regs) m)"
    and "C = map fst (filter (\<lambda>(p, v). p \<notin> set rs \<and> v \<in> set stable_regs \<and> \<not> is_temp v) m)"
  define D where "D = filter (\<lambda>v. v \<notin> set (filter (\<lambda>v. v \<noteq> '''') (map snd m))) rs"
  have d: "distinct (map fst m)" by (rule rm_okD(1) [OF assms(2)])
  have dA: "distinct A" "distinct B" "distinct C" "distinct D"
    using d assms(3) by (simp_all add: A_def B_def C_def D_def distinct_map_filter)
  have o: "distinct xs \<Longrightarrow> distinct (order xs) \<and> set (order xs) = set xs" for xs
    using assms(1) by (simp add: walks_sets_def)
  note o = dA [THEN o, THEN conjunct1] dA [THEN o, THEN conjunct2]
  have g: "rm_get m p = v" if "(p, v) \<in> set m" for p v
  proof -
    from that have "p \<in> fst ` set m" by (rule image_eqI [rotated]) simp
    with that rm_get_iff [OF assms(2)] show ?thesis by blast
  qed
  have st: "v \<in> set stable_regs \<Longrightarrow> v \<noteq> ''''" for v by (auto simp: stable_regs_def)
  have A: "p \<in> set A \<Longrightarrow> p \<in> fst ` set m \<and> rm_get m p = ''''" for p by (auto simp: A_def g)
  have B: "p \<in> set B \<Longrightarrow> p \<in> fst ` set m \<and> rm_get m p \<noteq> '''' \<and> rm_get m p \<notin> set stable_regs" for p
    by (auto simp: B_def g)
  have C: "p \<in> set C \<Longrightarrow> p \<in> fst ` set m \<and> rm_get m p \<noteq> '''' \<and> rm_get m p \<in> set stable_regs" for p
    using st by (auto simp: C_def g)
  have D: "set D \<inter> snd ` set m = {}" "'''' \<notin> set D" using assms(4) by (auto simp: D_def)
  have dis: "set A \<inter> set B = {}" "set A \<inter> set C = {}" "set B \<inter> set C = {}"
    using A B C by (blast, blast, blast)
  have sub: "set A \<union> set B \<union> set C \<subseteq> fst ` set m" using A B C by blast
  have "pools_ok m (order A) (order B) (order C) (order D)"
    unfolding pools_ok_def set_append distinct_append o ball_Un
  proof (intro conjI ballI)
    show "set B \<inter> set C = {}" "set D \<inter> snd ` set m = {}" "'''' \<notin> set D" using dis D by simp_all
    show "set A \<inter> (set B \<union> set C) = {}" using dis by blast
    show "set A \<union> (set B \<union> set C) \<subseteq> fst ` set m" using sub by blast
  qed (use A B C o in simp_all)
  then show ?thesis by (simp only: A_def B_def C_def D_def)
qed

lemma rm_ok_mem: "rm_ok m \<Longrightarrow> p \<in> {''15'', ''14'', ''13'', ''12''} \<Longrightarrow> (p, rm_get m p) \<in> set m"
proof -
  assume ok: "rm_ok m" and p: "p \<in> {''15'', ''14'', ''13'', ''12''}"
  have "fst ` set m = {''15'', ''14'', ''13'', ''12''}" using rm_okD(2) [OF ok] by (metis list.simps(15) set_empty2 set_map)
  with p have "p \<in> fst ` set m" by simp
  with rm_get_iff [OF ok] show ?thesis by blast
qed

lemma rm_ready_vals: "rm_ready m \<Longrightarrow> ''SP'' \<in> snd ` set m \<and> ''BP'' \<in> snd ` set m"
proof -
  assume m: "rm_ready m"
  then have "(''13'', ''SP'') \<in> set m" "(''12'', ''BP'') \<in> set m"
    using rm_ok_mem [of m "''13''"] rm_ok_mem [of m "''12''"] by (simp_all add: rm_ready_def)
  then show ?thesis by (metis image_eqI snd_conv)
qed

lemma resolve_loop_None:
  "resolve_loop offset idle vict stab todo m = None \<longleftrightarrow> length todo > length (idle @ vict @ stab)"
  by (induction todo arbitrary: idle vict stab m) (auto simp: Let_def split: list.splits option.splits)

lemma resolve_loop_stab:
  "length todo \<le> length (idle @ vict) \<Longrightarrow>
   resolve_loop offset idle vict stab todo m = resolve_loop offset idle vict [] todo m"
  by (induction todo arbitrary: idle vict m) (auto simp: Let_def split: list.splits)

lemma pools_ok_stab: "pools_ok m idle vict stab todo \<Longrightarrow> pools_ok m idle vict [] todo"
  by (auto simp: pools_ok_def)

lemma conflict_resolve_eq:
  "conflict_resolve order m rs offset =
     resolve_loop offset (order (idle_of m)) (order (vict_of m rs)) (order (stab_of m rs)) (order (todo_of m rs)) m"
  by (simp add: conflict_resolve_def idle_of_def vict_of_def stab_of_def todo_of_def Let_def)

lemma of_distinct:
  assumes "rm_ok m" and "distinct rs"
  shows "distinct (idle_of m)" "distinct (vict_of m rs)" "distinct (stab_of m rs)" "distinct (todo_of m rs)"
  using rm_okD(1) [OF assms(1)] assms(2)
  by (simp_all add: idle_of_def vict_of_def stab_of_def todo_of_def distinct_map_filter)

lemma walks_simps:
  assumes "walks_sets order" and "distinct xs"
  shows "set (order xs) = set xs" "length (order xs) = length xs"
  using assms by (auto simp: walks_sets_def dest: distinct_card)
     (metis assms(2) distinct_card)

lemma resolve_ok:
  assumes "conflict_resolve order m rs offset = Some (code, m')" and "walks_sets order" and "rm_ready m"
    and "distinct rs" and "'''' \<notin> set rs"
  shows "rm_ok m'" and "v \<in> set rs \<Longrightarrow> v \<noteq> ''SP'' \<Longrightarrow> v \<noteq> ''BP'' \<Longrightarrow> v \<in> snd ` set m'"
    and "u \<noteq> '''' \<Longrightarrow> u \<noteq> ''IP'' \<Longrightarrow> \<not> is_temp u \<Longrightarrow> vget m' (exec code s) u = vget m s u"
    and "''IP'' \<in> set rs \<Longrightarrow> vget m' (exec code s) ''IP'' = of_int offset"
    and "length (todo_of m rs) \<le> length (idle_of m) + length (vict_of m rs)
      \<Longrightarrow> rm_get m' ''13'' = ''SP'' \<and> rm_get m' ''12'' = ''BP''"
    and "q \<in> fst ` set m \<Longrightarrow> rm_get m' q = rm_get m q \<or> rm_get m' q \<in> set (todo_of m rs)"
proof -
  have ok: "rm_ok m" using assms(3) by (simp add: rm_ready_def)
  note w = walks_simps [OF assms(2)] and d = of_distinct [OF ok assms(4)]
  let ?i = "order (idle_of m)" and ?v = "order (vict_of m rs)" and ?s = "order (stab_of m rs)" and ?t = "order (todo_of m rs)"
  have pk: "pools_ok m ?i ?v ?s ?t"
    using pools_ok_resolve [OF assms(2) ok assms(4,5)] unfolding idle_of_def vict_of_def stab_of_def todo_of_def .
  have r: "resolve_loop offset ?i ?v ?s ?t m = Some (code, m')" using assms(1) unfolding conflict_resolve_eq .
  note L = resolve_loop_ok [OF r ok pk]
  note Lsub = L [THEN conjunct2, THEN conjunct1]
    and Lkeep = L [THEN conjunct2, THEN conjunct2, THEN conjunct1, rule_format]
    and Lval = L [THEN conjunct2, THEN conjunct2, THEN conjunct2, THEN conjunct1, rule_format]
    and Lip = L [THEN conjunct2, THEN conjunct2, THEN conjunct2, THEN conjunct2, THEN conjunct1, rule_format]
    and Lnew = L [THEN conjunct2, THEN conjunct2, THEN conjunct2, THEN conjunct2, THEN conjunct2, rule_format]
  show ok': "rm_ok m'" by (rule L [THEN conjunct1])
  have t: "set ?t = {v \<in> set rs. v \<notin> snd ` set m}" using assms(5) w(1) [OF d(4)] by (auto simp: todo_of_def)
  have keep: "rm_get m' q = rm_get m q" if "q \<in> fst ` set m" "q \<notin> set ?i" "q \<notin> set ?v" "q \<notin> set ?s" for q
    using Lkeep [of q] that by simp
  have mem: "q \<in> set (idle_of m) \<Longrightarrow> rm_get m q = ''''"
    "q \<in> set (vict_of m rs) \<Longrightarrow> rm_get m q \<notin> set rs \<and> rm_get m q \<notin> set stable_regs"
    "q \<in> set (stab_of m rs) \<Longrightarrow> rm_get m q \<in> {''SP'', ''BP''}" for q
  proof -
    have g: "(p, v) \<in> set m \<Longrightarrow> rm_get m p = v" for p v
      using rm_okD(1) [OF ok] by (simp add: rm_get_def)
    have st: "v \<in> set stable_regs \<Longrightarrow> \<not> is_temp v \<Longrightarrow> v \<in> {''SP'', ''BP''}" for v
      by (auto simp: stable_regs_def is_temp_def)
    show "q \<in> set (idle_of m) \<Longrightarrow> rm_get m q = ''''"
      "q \<in> set (vict_of m rs) \<Longrightarrow> rm_get m q \<notin> set rs \<and> rm_get m q \<notin> set stable_regs"
      by (auto simp: idle_of_def vict_of_def g)
    show "q \<in> set (stab_of m rs) \<Longrightarrow> rm_get m q \<in> {''SP'', ''BP''}"
      by (auto simp: stab_of_def g dest: st)
  qed
  note sets = w(1) [OF d(1)] w(1) [OF d(2)] w(1) [OF d(3)]
  have keys: "fst ` set m' = fst ` set m"
    using rm_okD(2) [OF ok'] rm_okD(2) [OF ok] by (metis set_map)
  have val: "v \<in> snd ` set m'" if "q \<in> fst ` set m" "rm_get m' q = v" for q v
  proof -
    have "(q, v) \<in> set m'" using rm_get_iff [OF ok', of q v] that keys by simp
    then show ?thesis by (rule image_eqI [rotated]) simp
  qed
  show "v \<in> snd ` set m'" if v: "v \<in> set rs" "v \<noteq> ''SP''" "v \<noteq> ''BP''"
  proof (cases "v \<in> snd ` set m")
    case True
    then obtain q where q: "(q, v) \<in> set m" by auto
    then have k: "q \<in> fst ` set m" by (rule image_eqI [rotated]) simp
    have gq: "rm_get m q = v" using rm_get_iff [OF ok k] q by blast
    have "v \<noteq> ''''" using v(1) assms(5) by blast
    then have "q \<notin> set ?i" "q \<notin> set ?v" "q \<notin> set ?s"
      unfolding sets using mem(1) [of q] mem(2) [of q] mem(3) [of q] gq v by auto
    with keep [OF k] gq have "rm_get m' q = v" by simp
    then show ?thesis by (rule val [OF k])
  next
    case False
    with v(1) t have "v \<in> set ?t" by simp
    with Lsub show ?thesis by blast
  qed
  show "vget m' (exec code s) u = vget m s u" if u: "u \<noteq> ''''" "u \<noteq> ''IP''" "\<not> is_temp u"
  proof -
    have "u \<in> set ?t \<longrightarrow> u \<noteq> ''IP'' \<and> u \<notin> set stable_regs"
      using u(2,3) t rm_ready_vals [OF assms(3)] by (auto simp: stable_regs_def is_temp_def)
    with Lval [OF u(1)] show ?thesis by blast
  qed
  show "vget m' (exec code s) ''IP'' = of_int offset" if "''IP'' \<in> set rs"
    using Lip t that assms(3) by (simp add: rm_ready_def)
  show "rm_get m' ''13'' = ''SP'' \<and> rm_get m' ''12'' = ''BP''"
    if le: "length (todo_of m rs) \<le> length (idle_of m) + length (vict_of m rs)"
  proof -
    have r1: "resolve_loop offset ?i ?v [] ?t m = Some (code, m')"
      using r resolve_loop_stab [of ?t ?i ?v offset ?s m] le w(2) d by simp
    have kp: "rm_get m' q = rm_get m q" if "q \<in> fst ` set m" "q \<notin> set ?i" "q \<notin> set ?v" for q
      using resolve_loop_ok [OF r1 ok pools_ok_stab [OF pk]] that by simp
    have k: "''13'' \<in> fst ` set m" "''12'' \<in> fst ` set m"
      using rm_okD(2) [OF ok] by (metis list.set_intros set_map)+
    have "q \<notin> set ?i" "q \<notin> set ?v" if "rm_get m q \<in> {''SP'', ''BP''}" for q
      unfolding sets using mem(1) [of q] mem(2) [of q] that by (auto simp: stable_regs_def)
    then show ?thesis using kp [OF k(1)] kp [OF k(2)] assms(3) by (simp add: rm_ready_def)
  qed
  show "rm_get m' q = rm_get m q \<or> rm_get m' q \<in> set (todo_of m rs)" if "q \<in> fst ` set m"
    using Lnew [OF that] w(1) [OF d(4)] by simp
qed

section \<open>Putting the stable registers back\<close>

lemma rm_ready_iff:
  assumes "rm_ok m"
  shows "rm_ready m \<longleftrightarrow> inv_map m ''SP'' = Some ''13'' \<and> inv_map m ''BP'' = Some ''12'' \<and> inv_map m ''IP'' = None"
proof -
  have k: "''13'' \<in> fst ` set m" "''12'' \<in> fst ` set m"
    using rm_okD(2) [OF assms] by (metis list.set_intros set_map)+
  show ?thesis
    using assms inv_map_iff [OF assms, of "''SP''" "''13''"] inv_map_iff [OF assms, of "''BP''" "''12''"]
      rm_get_iff [OF assms k(1), of "''SP''"] rm_get_iff [OF assms k(2), of "''BP''"]
    by (simp add: rm_ready_def inv_map_None)
qed

lemma recover_one_ok:
  assumes "rm_ok m" and "iv v = inv_map m v" and "home_ok m v" and "v \<in> {''SP'', ''BP''}"
    and "recover_one iv v ([], m) = (code, m')"
  shows "rm_ok m'" and "inv_map m' v = Some (orig_stable_map v)"
    and "u \<noteq> '''' \<Longrightarrow> vget m' (exec code s) u = vget m s u"
    and "q \<noteq> orig_stable_map v \<Longrightarrow> q \<in> fst ` set m \<Longrightarrow> rm_get m' q = rm_get m q"
    and "inv_map m w \<noteq> Some (orig_stable_map v) \<Longrightarrow> w \<noteq> v \<Longrightarrow> w \<noteq> '''' \<Longrightarrow> inv_map m' w = inv_map m w"
proof -
  let ?p = "orig_stable_map v"
  have v: "v \<noteq> ''''" "\<not> is_temp v" using assms(4) by (auto simp: is_temp_def)
  have "?p = ''13'' \<or> ?p = ''12''" by (simp add: orig_stable_map_def)
  then have k: "?p \<in> fst ` set m" using rm_okD(2) [OF assms(1)] by (metis list.set_intros set_map)
  consider "inv_map m v = Some ?p" "code = []" "m' = m"
    | "inv_map m v = None" "rm_get m ?p \<noteq> ''''" "code = [StoreSlot (rm_get m ?p) ?p] @ [LoadSlot ?p v]"
      "m' = rm_set ?p v m"
    using assms(2,3,5) v(2) by (auto simp: home_ok_def recover_one_def Let_def)
  note two = this
  have nv: "inv_map m v = None \<Longrightarrow> v \<notin> snd ` set m" by (simp add: inv_map_None)
  have iw: "rm_get m ?p \<noteq> '''' \<Longrightarrow> inv_map m (rm_get m ?p) = Some ?p"
    using inv_map_iff [OF assms(1)] rm_get_iff [OF assms(1) k] by blast
  show "rm_ok m'" using two rm_set_ok [OF assms(1)] nv assms(1) by cases auto
  show "inv_map m' v = Some ?p" using two inv_rm_set [OF assms(1) k _ v(1), of v] nv by cases auto
  show "vget m' (exec code s) u = vget m s u" if u: "u \<noteq> ''''"
    using two
  proof cases
    case 2
    have "vget (rm_set ?p v m) (exec ([StoreSlot (rm_get m ?p) ?p] @ [LoadSlot ?p v]) s) u = vget m s u"
      by (rule resolve_step [OF assms(1) k v(1) nv [OF 2(1)] _ _ u]) (simp_all add: 2(2))
    then show ?thesis using 2 by simp
  qed simp
  show "rm_get m' q = rm_get m q" if "q \<noteq> ?p" "q \<in> fst ` set m"
    using two rm_get_set [OF that(2)] that(1) by cases auto
  show "inv_map m' w = inv_map m w" if "inv_map m w \<noteq> Some ?p" "w \<noteq> v" "w \<noteq> ''''"
    using two
  proof cases
    case 2
    have "w \<noteq> rm_get m ?p" using iw [OF 2(2)] that(1) by auto
    with 2 inv_rm_set [OF assms(1) k _ that(3), of v] nv that(2) show ?thesis by simp
  qed simp
qed

lemma recover_ok:
  assumes "rm_ok m" and "home_ok m ''SP''" and "home_ok m ''BP''" and "inv_map m ''IP'' = None"
    and "recover_stable m = (code, m')"
  shows "rm_ready m'" and "u \<noteq> '''' \<Longrightarrow> vget m' (exec code s) u = vget m s u"
proof -
  let ?iv = "inv_map m"
  obtain c1 m1 where 1: "recover_one ?iv ''SP'' ([], m) = (c1, m1)" by fastforce
  obtain c2 m2 where 2: "recover_one ?iv ''BP'' ([], m1) = (c2, m2)" by fastforce
  have app: "recover_one ?iv v (c, n) = (c @ fst (recover_one ?iv v ([], n)), snd (recover_one ?iv v ([], n)))" for v c n
    by (simp add: recover_one_def Let_def)
  have "recover_stable m = recover_one ?iv ''BP'' (c1, m1)"
    unfolding recover_stable_def stable_regs_def by (simp add: 1 [symmetric] recover_one_def is_temp_def)
  then have e: "code = c1 @ c2" "m' = m2" using assms(5) app [of "''BP''" c1 m1] 2 by simp_all
  have om: "orig_stable_map ''SP'' = ''13''" "orig_stable_map ''BP'' = ''12''" by (simp_all add: orig_stable_map_def)
  note r1 = recover_one_ok [OF assms(1) refl assms(2) _ 1, simplified om, simplified]
  have k: "''12'' \<in> fst ` set m" using rm_okD(2) [OF assms(1)] by (metis list.set_intros set_map)
  have b: "inv_map m ''BP'' = None \<or> inv_map m ''BP'' = Some ''12''" using assms(3) by (auto simp: home_ok_def om)
  then have bp: "inv_map m ''BP'' = inv_map m1 ''BP''" using r1(5) [of "''BP''"] by auto
  have home: "home_ok m1 ''BP''"
    using assms(3) bp r1(4) [of "''12''"] k by (simp add: home_ok_def om)
  note r2 = recover_one_ok [OF r1(1) bp home _ 2, simplified om, simplified]
  have sp: "inv_map m2 ''SP'' = Some ''13''" using r2(5) [of "''SP''"] r1(2) by simp
  have ip: "inv_map m2 ''IP'' = None" using r2(5) [of "''IP''"] r1(5) [of "''IP''"] assms(4) by simp
  show "rm_ready m'" using rm_ready_iff [OF r2(1)] sp ip r2(2) e by simp
  show "vget m' (exec code s) u = vget m s u" if "u \<noteq> ''''"
    using r1(3) [OF that, of s] r2(3) [OF that, of "exec c1 s"] e by simp
qed

section \<open>A whole instruction\<close>

lemma vget_run:
  assumes "rm_ok m" and "v \<noteq> ''''" and "v \<in> set rs \<Longrightarrow> v \<in> snd ` set m"
  shows "vget m (run_virtual F rs m s) v = (if v \<in> set rs then F (vget m s) v else vget m s v)"
proof (cases "inv_map m v")
  case None
  then have "v \<notin> set rs" using assms(3) inv_map_None [of m v] by blast
  with None show ?thesis by (simp add: vget_def run_virtual_def)
next
  case (Some p)
  then have p: "(p, v) \<in> set m" using inv_map_iff [OF assms(1,2)] by simp
  then have k: "p \<in> fst ` set m" by (rule image_eqI [rotated]) simp
  with p rm_get_iff [OF assms(1)] have "rm_get m p = v" by blast
  with Some k show ?thesis by (simp add: vget_def run_virtual_def)
qed

lemma release_IP_ok:
  assumes "rm_ok m"
  shows "rm_ok (release_IP m)" and "u \<noteq> '''' \<Longrightarrow> u \<noteq> ''IP'' \<Longrightarrow> inv_map (release_IP m) u = inv_map m u"
    and "inv_map (release_IP m) ''IP'' = None"
    and "q \<in> fst ` set m \<Longrightarrow> rm_get m q \<noteq> ''IP'' \<Longrightarrow> rm_get (release_IP m) q = rm_get m q"
proof -
  have "rm_ok (release_IP m) \<and> (u \<noteq> '''' \<longrightarrow> u \<noteq> ''IP'' \<longrightarrow> inv_map (release_IP m) u = inv_map m u)
    \<and> inv_map (release_IP m) ''IP'' = None
    \<and> (q \<in> fst ` set m \<longrightarrow> rm_get m q \<noteq> ''IP'' \<longrightarrow> rm_get (release_IP m) q = rm_get m q)" for u q
  proof (cases "inv_map m ''IP''")
    case None
    then show ?thesis using assms by (simp add: release_IP_def)
  next
    case (Some p)
    then have p: "(p, ''IP'') \<in> set m" using inv_map_iff [OF assms] by simp
    then have k: "p \<in> fst ` set m" by (rule image_eqI [rotated]) simp
    with p have g: "rm_get m p = ''IP''" using rm_get_iff [OF assms] by blast
    have r: "release_IP m = rm_set p '''' m" using Some by (simp add: release_IP_def)
    show ?thesis
      using rm_set_ok [OF assms, of "''''" p] inv_rm_set [OF assms k, of "''''"] g rm_get_set [of q m p "''''"]
      unfolding r by auto
  qed
  then show "rm_ok (release_IP m)" "inv_map (release_IP m) ''IP'' = None"
    "u \<noteq> '''' \<Longrightarrow> u \<noteq> ''IP'' \<Longrightarrow> inv_map (release_IP m) u = inv_map m u"
    "q \<in> fst ` set m \<Longrightarrow> rm_get m q \<noteq> ''IP'' \<Longrightarrow> rm_get (release_IP m) q = rm_get m q"
    by blast+
qed

lemma vget_release_IP: "rm_ok m \<Longrightarrow> u \<noteq> '''' \<Longrightarrow> u \<noteq> ''IP'' \<Longrightarrow> vget (release_IP m) s u = vget m s u"
  by (simp add: vget_def release_IP_ok(2))

lemma home_after:
  assumes r: "conflict_resolve order m rs offset = Some (pre, m1)" "walks_sets order" "rm_ready m" "distinct rs" "'''' \<notin> set rs"
    and "resolvable m rs" and v: "v = ''SP'' \<or> v = ''BP''"
  shows "home_ok (release_IP m1) v"
proof -
  let ?p = "orig_stable_map v"
  note ok = resolve_ok(1) [OF r]
  have kv: "v \<noteq> ''''" "v \<noteq> ''IP''" using v by auto
  have om: "?p = (if v = ''SP'' then ''13'' else ''12'')" by (simp add: orig_stable_map_def)
  have m: "rm_ok m" "rm_get m ?p = v" using r(3) v by (auto simp: rm_ready_def om)
  have "?p \<in> set (map fst m)" unfolding rm_okD(2) [OF m(1)] by (simp add: om)
  then have k: "?p \<in> fst ` set m" by simp
  have k1: "fst ` set m1 = fst ` set m" using rm_okD(2) [OF ok] rm_okD(2) [OF m(1)] by (metis set_map)
  have i: "inv_map m1 v = Some ?p" if "rm_get m1 ?p = v"
    using that inv_map_iff [OF ok kv(1), of ?p] rm_get_iff [OF ok, of ?p v] k k1 by simp
  show ?thesis
  proof (cases "rm_get m1 ?p = v")
    case True
    then show ?thesis using i release_IP_ok(2) [OF ok kv] by (simp add: home_ok_def)
  next
    case False
    with resolve_ok(5) [OF r] v have "\<not> length (todo_of m rs) \<le> length (idle_of m) + length (vict_of m rs)"
      by (auto simp: om)
    with assms(6) have rs: "\<And>w. w \<in> set rs \<Longrightarrow> w \<in> {''15'', ''14'', ''13'', ''12'', ''FS'', ''GS''}"
      by (auto simp: resolvable_def list_all_iff)
    have "rm_get m1 ?p \<in> set (todo_of m rs)" using resolve_ok(6) [OF r k] False m(2) by simp
    then have w: "rm_get m1 ?p \<in> {''15'', ''14'', ''13'', ''12'', ''FS'', ''GS''}" using rs by (simp add: todo_of_def)
    have "v \<notin> snd ` set m1"
    proof
      assume "v \<in> snd ` set m1"
      then obtain q where q: "(q, v) \<in> set m1" by auto
      then have kq: "q \<in> fst ` set m1" by (rule image_eqI [rotated]) simp
      then have gq: "rm_get m1 q = v" using rm_get_iff [OF ok] q by blast
      have "v \<notin> set (todo_of m rs)" using rs v by (auto simp: todo_of_def)
      then have "rm_get m q = v" using resolve_ok(6) [OF r, of q] gq kq k1 by auto
      then have "q = ?p"
        using rm_okD(3) [OF m(1), of q v ?p] rm_get_iff [OF m(1), of q v] rm_get_iff [OF m(1) k, of v] m(2) kq k1 kv(1) by simp
      with gq False show False by simp
    qed
    then have "inv_map (release_IP m1) v = None" using release_IP_ok(2) [OF ok kv] by (simp add: inv_map_None)
    moreover have "rm_get (release_IP m1) ?p = rm_get m1 ?p" using w k k1 by (intro release_IP_ok(4) [OF ok]) auto
    ultimately show ?thesis using w by (auto simp: home_ok_def)
  qed
qed

lemma resolved_all:
  assumes r: "conflict_resolve order m rs offset = Some (pre, m1)" "walks_sets order" "rm_ready m" "distinct rs" "'''' \<notin> set rs"
    and "resolvable m rs" and "v \<in> set rs"
  shows "v \<in> snd ` set m1"
proof (cases "v = ''SP'' \<or> v = ''BP''")
  case True
  have "\<not> list_all (\<lambda>v. v \<in> {''15'', ''14'', ''13'', ''12'', ''FS'', ''GS''}) rs"
  proof
    assume "list_all (\<lambda>v. v \<in> {''15'', ''14'', ''13'', ''12'', ''FS'', ''GS''}) rs"
    then have "v \<in> {''15'', ''14'', ''13'', ''12'', ''FS'', ''GS''}"
      using assms(7) unfolding list_all_iff by (rule bspec)
    with True show False by auto
  qed
  then have g: "rm_get m1 ''13'' = ''SP''" "rm_get m1 ''12'' = ''BP''"
    using assms(6) resolve_ok(5) [OF r] by (auto simp: resolvable_def)
  have "(''13'', ''SP'') \<in> set m1" "(''12'', ''BP'') \<in> set m1"
    using rm_ok_mem [OF resolve_ok(1) [OF r], of "''13''"] rm_ok_mem [OF resolve_ok(1) [OF r], of "''12''"] g by simp_all
  from this [THEN imageI, of snd] have "''SP'' \<in> snd ` set m1" "''BP'' \<in> snd ` set m1" by simp_all
  with True show ?thesis by blast
next
  case False
  with resolve_ok(2) [OF r assms(7)] show ?thesis by simp
qed

text \<open>
  C3: The register allocator is invisible to the translated program. Take an instruction that
  names the registers rs, written after the moves of conflict_resolve and before those of
  recover_stable. It finds every register it names in a physical register, with the value it has
  for the user (and RIP with the address of the next instruction); after it, each register it
  names has the value it computed, each other register of the user its old value, and RSP and RBP
  are back in R13 and R12. The order in which Python walks its sets does not matter. Asked of the
  instruction: there are registers enough, or it names only user registers and segment bases, so
  that RSP and RBP may be borrowed.
\<close>

theorem instruction_transparent:
  assumes r: "conflict_resolve order m rs offset = Some (pre, m1)" "walks_sets order" "rm_ready m" "distinct rs" "'''' \<notin> set rs"
    and "resolvable m rs" and "recover_stable (release_IP m1) = (post, m3)"
    and "s1 = exec pre s" and "s3 = exec post (run_virtual F rs m1 s1)"
  shows "rm_ready m3 \<and> (''IP'' \<in> set rs \<longrightarrow> vget m1 s1 ''IP'' = of_int offset)
    \<and> (\<forall>v. tracked v \<longrightarrow> vget m1 s1 v = vget m s v
         \<and> vget m3 s3 v = (if v \<in> set rs then F (vget m1 s1) v else vget m s v))"
proof -
  note ok = resolve_ok(1) [OF r]
  note rel = release_IP_ok [OF ok]
  note rec = recover_ok [OF rel(1) home_after [OF r assms(6)] home_after [OF r assms(6)] rel(3) assms(7)]
  have 1: "vget m1 s1 v = vget m s v" if "tracked v" for v
    using resolve_ok(3) [OF r, of v s] that by (simp add: tracked_def assms(8))
  have "vget m3 s3 v = (if v \<in> set rs then F (vget m1 s1) v else vget m s v)" if "tracked v" for v
  proof -
    have v: "v \<noteq> ''''" "v \<noteq> ''IP''" using that by (auto simp: tracked_def)
    have "vget m3 s3 v = vget m1 (run_virtual F rs m1 s1) v"
      using rec(2) [of v] vget_release_IP [OF ok v] v(1) by (simp add: assms(9))
    also have "\<dots> = (if v \<in> set rs then F (vget m1 s1) v else vget m1 s1 v)"
      by (rule vget_run [OF ok v(1) resolved_all [OF r assms(6)]])
    finally show ?thesis using 1 [OF that] by simp
  qed
  with 1 rec(1) resolve_ok(4) [OF r] show ?thesis by (simp add: assms(8))
qed

text \<open>
  C32: The allocator raises a KeyError exactly when the registers to be loaded outnumber the idle
  ones, those it may evict, and the stable ones it may borrow.
\<close>

theorem conflict_resolve_succeeds:
  assumes "walks_sets order" and "rm_ready m" and "distinct rs"
  shows "conflict_resolve order m rs offset = None \<longleftrightarrow>
    length (todo_of m rs) > length (idle_of m) + length (vict_of m rs) + length (stab_of m rs)"
proof -
  have ok: "rm_ok m" using assms(2) by (simp add: rm_ready_def)
  show ?thesis
    unfolding conflict_resolve_eq resolve_loop_None
    by (simp add: walks_simps(2) [OF assms(1)] of_distinct [OF ok assms(3)] add.assoc)
qed

text \<open>Three user registers, one of them R13 and one R12: the stable registers are not offered.\<close>

lemma id_walks: "walks_sets (\<lambda>xs. xs)"
  by (simp add: walks_sets_def)

lemma block_init_ready: "rm_ready block_init"
  by (simp add: rm_ready_def rm_ok_def block_init_def rm_get_def)

text \<open>
  An instruction that names the user's R12, R13 and R14 (such as ADD R13, [R12 + R14]) cannot
  be translated at the start of a block: the stable registers R13 and R12 are not offered for
  borrowing, because their names are mistaken for those of the user's registers, and the
  translator stops with a KeyError.
\<close>

lemma conflict_resolve_crash:
  assumes "walks_sets order"
  shows "conflict_resolve order block_init [''12'', ''13'', ''14''] offset = None"
proof -
  have ok: "rm_ok block_init" using block_init_ready by (simp add: rm_ready_def)
  have "distinct [''12'', ''13'', ''14'']" by simp
  note w = walks_simps(2) [OF assms] and d = of_distinct [OF ok this]
  show ?thesis
    unfolding conflict_resolve_eq resolve_loop_None
    by (simp add: w [OF d(1)] w [OF d(2)] w [OF d(3)] w [OF d(4)])
      (simp add: idle_of_def vict_of_def stab_of_def todo_of_def block_init_def stable_regs_def is_temp_def)
qed

theorem instruction_transparent_witness:
  "\<exists>pre m1 post m3. conflict_resolve (\<lambda>xs. xs) block_init [''15'', ''IP''] 0x1000 = Some (pre, m1)
     \<and> recover_stable (release_IP m1) = (post, m3) \<and> rm_ready m3
     \<and> vget m3 (exec post (run_virtual (\<lambda>g v. if v = ''15'' then g ''15'' + g ''IP'' else g v) [''15'', ''IP''] m1
          (exec pre frame0))) ''15'' = 0x1005"
proof -
  have n: "conflict_resolve (\<lambda>xs. xs) block_init [''15'', ''IP''] 0x1000 \<noteq> None"
    using id_walks block_init_ready
    unfolding conflict_resolve_eq resolve_loop_None
    by (simp add: idle_of_def vict_of_def stab_of_def todo_of_def block_init_def)
  then obtain pre m1 where r: "conflict_resolve (\<lambda>xs. xs) block_init [''15'', ''IP''] 0x1000 = Some (pre, m1)"
    by auto
  obtain post m3 where p: "recover_stable (release_IP m1) = (post, m3)" by fastforce
  have rs: "resolvable block_init [''15'', ''IP'']" by (simp add: resolvable_def idle_of_def vict_of_def todo_of_def block_init_def)
  have v: "vget block_init frame0 ''15'' = 5" by (simp add: vget_def frame0_def inv_map_def block_init_def)
  from instruction_transparent [OF r id_walks block_init_ready _ _ rs p refl refl, of frame0
      "\<lambda>g v. if v = ''15'' then g ''15'' + g ''IP'' else g v"] r p v
  show ?thesis by (auto simp: tracked_def is_temp_def)
qed

theorem conflict_resolve_succeeds_witness:
  "conflict_resolve (\<lambda>xs. xs) block_init [''15'', ''IP''] 0x1000 \<noteq> None"
  using conflict_resolve_succeeds [OF id_walks block_init_ready, of "[''15'', ''IP'']" "0x1000"]
  by (simp add: idle_of_def vict_of_def stab_of_def todo_of_def block_init_def)

lemma conflict_resolve_crash_example:
  "conflict_resolve (\<lambda>xs. xs) block_init [''12'', ''13'', ''14''] 0x1000 = None"
  by (rule conflict_resolve_crash [OF id_walks])

end
