(* ===== verification/Translation.thy ===== *)
theory Translation
  imports Conflict
begin

text \<open>
  The translation of one instruction (\<open>normal.py\<close>, \<open>special_inst.py\<close> and \<open>translation.py\<close> of
  \<open>zz_disassem\<close>). The state is the register map of the block and the global \<open>checked_regs\<close>, the
  base registers whose top bit has been cleared. \<open>None\<close> is a \<open>KeyError\<close>; warnings that are only
  printed are left out.
\<close>

type_synonym tstate = "reg_map \<times> expr list"

type_synonym tresult = "(tinst list \<times> tstate) option"

text \<open>One step after another: the lines are appended, the state is passed on.\<close>

definition then_do :: "tresult \<Rightarrow> (tstate \<Rightarrow> tresult) \<Rightarrow> tresult" where
  "then_do r f = (case r of None \<Rightarrow> None
     | Some (c1, st) \<Rightarrow> map_option (\<lambda>(c2, st2). (c1 @ c2, st2)) (f st))"

section \<open>Ordinary instructions\<close>

definition expr_name :: "expr \<Rightarrow> string" where
  "expr_name e = (case e of ExprId n s \<Rightarrow> n | _ \<Rightarrow> '''')"

definition extract_reg :: "targ \<Rightarrow> expr list" where
  "extract_reg a = (case a of
       Dict d \<Rightarrow> md_regs d @ (case md_mul d of m0 # m1 # _ \<Rightarrow> [m1] | _ \<Rightarrow> [])
     | Ex (ExprId n s) \<Rightarrow> [ExprId n s]
     | _ \<Rightarrow> [])"

definition get_mem_base :: "string \<Rightarrow> targ list \<Rightarrow> expr list" where
  "get_mem_base name args =
     (if name = ''LEA'' then []
      else concat (map (\<lambda>a. case a of
             Dict d \<Rightarrow> if length (md_regs d) > 1 then []
                       else filter (\<lambda>r. last (expr_name r) \<noteq> CHR ''P'') (md_regs d)
           | _ \<Rightarrow> []) args))"

fun mem_addr :: "expr \<Rightarrow> mem_dict \<Rightarrow> mem_dict" where
  "mem_addr (ExprOp f as) res =
     (if f = ''+'' then fold mem_addr as res
      else if f = ''*''
      then if md_mul res \<noteq> [] then res
           else (case as of
                   ExprId n s # ExprInt i z # _ \<Rightarrow>
                     if i mod 2 = 1
                     then res\<lparr>md_mul := [ExprInt (i - 1) z, ExprId n s], md_regs := md_regs res @ [ExprId n s]\<rparr>
                     else res\<lparr>md_mul := [ExprInt i z, ExprId n s]\<rparr>
                 | _ \<Rightarrow> res)
      else res)"
| "mem_addr (ExprId n s) res = res\<lparr>md_regs := md_regs res @ [ExprId n s]\<rparr>"
| "mem_addr (ExprInt i z) res = res\<lparr>md_im := Some (ExprInt i z)\<rparr>"
| "mem_addr (ExprMem p z) res = res"
| "mem_addr (ExprLoc l) res = res"

definition arg_purify :: "targ \<Rightarrow> targ" where
  "arg_purify a = (case a of
       Ex (ExprOp f as) \<Rightarrow> Str ''''
     | Ex (ExprMem p z) \<Rightarrow>
         (case p of
            ExprOp f [sel, addr] \<Rightarrow>
              if f = ''segm''
              then Dict (mem_addr addr \<lparr>md_sz = z, md_regs = [ExprId (''R'' @ expr_name sel) 64], md_im = None, md_mul = []\<rparr>)
              else Dict (mem_addr p \<lparr>md_sz = z, md_regs = [], md_im = None, md_mul = []\<rparr>)
          | _ \<Rightarrow> Dict (mem_addr p \<lparr>md_sz = z, md_regs = [], md_im = None, md_mul = []\<rparr>))
     | Ex (ExprLoc l) \<Rightarrow> Str ''None''
     | _ \<Rightarrow> a)"

text \<open>The registers an instruction names, and the base registers it uses that are not checked yet.\<close>

definition conflict_regs_of :: "targ list \<Rightarrow> string list" where
  "conflict_regs_of args = remdups (concat (map (\<lambda>r. extract_conflict_regs (expr_name r)) (concat (map extract_reg args))))"

definition to_check_of :: "string \<Rightarrow> targ list \<Rightarrow> expr list \<Rightarrow> expr list" where
  "to_check_of name args checked = filter (\<lambda>r. r \<notin> set checked) (remdups (get_mem_base name args))"

definition checked_after :: "targ list \<Rightarrow> expr list \<Rightarrow> expr list \<Rightarrow> expr list" where
  "checked_after args to_check checked =
     (let kept = (case args of Ex (ExprId n s) # _ \<Rightarrow> removeAll (ExprId n s) checked | _ \<Rightarrow> checked)
      in kept @ filter (\<lambda>r. r \<notin> set kept) to_check)"

definition check_code :: "expr list \<Rightarrow> bool \<Rightarrow> tinst list" where
  "check_code to_check can_check =
     (let clob = (to_check \<noteq> [] \<and> \<not> can_check);
          code = (if clob then [Line ''PUSHF''] else [])
            @ concat (map (\<lambda>r. [Inst ''SHL'' [Ex r, Str ''1''], Inst ''SHR'' [Ex r, Str ''1'']]) to_check)
            @ (if clob then [Line ''POPF''] else [])
      in if length to_check > 1 \<or> \<not> can_check then [] else code)"

definition process_normal ::
  "(string list \<Rightarrow> string list) \<Rightarrow> string \<Rightarrow> targ list \<Rightarrow> int \<Rightarrow> bool \<Rightarrow> tstate \<Rightarrow> tresult" where
  "process_normal order name args offset can_check st =
     (let m = fst st; checked = snd st;
          pargs = map arg_purify args;
          rs = conflict_regs_of pargs;
          to_check = to_check_of name pargs checked;
          checked1 = checked_after pargs to_check checked
      in if rs = [] then Some (check_code to_check can_check @ [Inst name pargs], (m, checked1))
         else case conflict_resolve order m rs offset of
                None \<Rightarrow> None
              | Some (pre, m1) \<Rightarrow>
                  (case apply_map pargs m1 of
                     None \<Rightarrow> None
                   | Some args1 \<Rightarrow>
                       (case apply_regs m1 to_check of
                          None \<Rightarrow> None
                        | Some check1 \<Rightarrow>
                            let (post, m3) = recover_stable (release_IP m1)
                            in Some (pre @ check_code check1 can_check @ [Inst name args1] @ post, (m3, checked1)))))"

section \<open>Stack and control transfer\<close>

abbreviation RSP :: expr where "RSP \<equiv> ExprId ''RSP'' 64"

abbreviation RBP :: expr where "RBP \<equiv> ExprId ''RBP'' 64"

abbreviation RT1 :: expr where "RT1 \<equiv> ExprId ''RT1'' 64"

abbreviation RT2 :: expr where "RT2 \<equiv> ExprId ''RT2'' 64"

text \<open>\<open>conflict_resolve\<close> for a temporary; the offset is the default 0.\<close>

definition resolve_temp :: "(string list \<Rightarrow> string list) \<Rightarrow> string \<Rightarrow> tstate \<Rightarrow> tresult" where
  "resolve_temp order t st =
     map_option (\<lambda>(code, m). (code, (m, snd st))) (conflict_resolve order (fst st) [t] 0)"

definition emit :: "tinst list \<Rightarrow> tstate \<Rightarrow> tresult" where
  "emit code st = Some (code, st)"

definition drop_temps :: "tstate \<Rightarrow> tresult" where
  "drop_temps st = Some ([], (release_tmp_conflict (fst st), snd st))"

definition is_mem :: "expr \<Rightarrow> bool" where
  "is_mem e = (case e of ExprMem p z \<Rightarrow> True | _ \<Rightarrow> False)"

definition process_push :: "(string list \<Rightarrow> string list) \<Rightarrow> expr \<Rightarrow> int \<Rightarrow> tstate \<Rightarrow> tresult" where
  "process_push order arg offset st =
     then_do (process_normal order ''LEA''
        [Ex RSP, Dict (make_mem_dict 64 [''RSP''] (- int (expr_size arg div 8)))] offset False st) (\<lambda>st1.
     if \<not> is_mem arg
     then let arg1 = (case arg of ExprInt i z \<Rightarrow> ExprInt (i mod 2 ^ 32) 32 | _ \<Rightarrow> arg)
       in process_normal order (''MOV'' @ im64_abs arg1)
            [Dict (make_mem_dict (expr_size arg1) [''RSP''] 0), Ex arg1] offset False st1
     else then_do (resolve_temp order ''T1'' st1) (\<lambda>st2.
          then_do (process_normal order ''MOV'' [Ex RT1, Ex arg] offset False st2) (\<lambda>st3.
          then_do (process_normal order ''MOV'' [Dict (make_mem_dict 64 [''RSP''] 0), Ex RT1] offset False st3)
            drop_temps)))"

definition process_pop :: "(string list \<Rightarrow> string list) \<Rightarrow> expr \<Rightarrow> int \<Rightarrow> tstate \<Rightarrow> tresult" where
  "process_pop order arg offset st =
     then_do
       (if \<not> is_mem arg
        then process_normal order ''MOV'' [Ex arg, Dict (make_mem_dict 64 [''RSP''] 0)] offset False st
        else then_do (resolve_temp order ''T1'' st) (\<lambda>st1.
             then_do (process_normal order ''MOV'' [Ex RT1, Dict (make_mem_dict 64 [''RSP''] 0)] offset False st1) (\<lambda>st2.
             then_do (process_normal order ''MOV'' [Ex arg, Ex RT1] offset False st2) drop_temps)))
       (process_normal order ''LEA''
          [Ex RSP, Dict (make_mem_dict 64 [''RSP''] (int (expr_size arg div 8)))] offset False)"

definition jump_reg :: "string \<Rightarrow> string \<Rightarrow> int \<Rightarrow> tstate \<Rightarrow> tresult" where
  "jump_reg name reg offset st =
     (case reverse_reg (fst st) reg of
        None \<Rightarrow> None
      | Some k \<Rightarrow>
          emit (release_conflict (fst st) True
            @ (if ''R'' @ k \<noteq> ''R14'' then [Inst ''MOV'' [Str ''R14'', Str (''R'' @ k)]] else [])
            @ [Inst name [Str (''ij_'' @ drop 2 (py_hex offset))]]) st)"

definition process_jump :: "(string list \<Rightarrow> string list) \<Rightarrow> string \<Rightarrow> expr \<Rightarrow> int \<Rightarrow> tstate \<Rightarrow> tresult" where
  "process_jump order name arg offset st =
     (case arg of
        ExprLoc l \<Rightarrow> emit (release_conflict (fst st) True @ [Inst name [Str l]]) st
      | ExprMem p z \<Rightarrow>
          then_do (resolve_temp order ''T2'' st) (\<lambda>st1.
          then_do (process_normal order ''MOV'' [Ex RT2, Ex arg] offset False st1) (jump_reg name ''RT2'' offset))
      | ExprId r z \<Rightarrow> jump_reg name r offset st
      | _ \<Rightarrow> emit [] st)"

section \<open>Dispatch\<close>

definition special_instruction :: "string list" where
  "special_instruction = [''NOP'', ''CALL'', ''RET'', ''POP'', ''PUSH'', ''LEAVE'', ''PUSHF'', ''POPF'', ''ENDBR64'',
     ''SYSCALL'', ''INVLPG'']"

definition release_end :: "bool \<Rightarrow> tstate \<Rightarrow> tresult" where
  "release_end block_end st = emit (release_conflict (fst st) block_end) st"

definition special_inst_dispatch ::
  "(string list \<Rightarrow> string list) \<Rightarrow> asm_line \<Rightarrow> int \<Rightarrow> bool \<Rightarrow> tstate \<Rightarrow> tresult" where
  "special_inst_dispatch order line offset block_end st =
     (let name = get_inst_name line in
      if name = ''ENDBR64'' \<or> l_name line = ''NOP''
      then then_do (emit [Line ''NOP''] st) (release_end block_end)
      else if name = ''CALL''
      then then_do (resolve_temp order ''T2'' st) (\<lambda>st1.
           then_do (process_normal order ''MOVABS'' [Ex RT2, Ex (ExprInt offset 64)] offset False st1) (\<lambda>st2.
           then_do (process_push order RT2 offset st2) (process_jump order ''JMP'' (hd (l_args line)) offset)))
      else if name = ''PUSH''
      then then_do (process_push order (hd (l_args line)) offset st) (release_end block_end)
      else if name = ''POP''
      then then_do (process_pop order (hd (l_args line)) offset st) (release_end block_end)
      else if name = ''RET''
      then then_do (resolve_temp order ''T2'' st) (\<lambda>st1.
           then_do (process_pop order RT2 offset st1) (process_jump order ''JMP'' RT2 offset))
      else if name = ''LEAVE''
      then then_do (process_normal order ''MOV'' [Ex RSP, Ex RBP] offset False st) (\<lambda>st1.
           then_do (process_pop order RBP offset st1) (release_end block_end))
      else if name = ''SYSCALL''
      then emit [Movabs ''14'' (offset - 2), Inst ''JMP'' [Str ''comp_syscall'']] st
      else if name = ''INVLPG''
      then emit [Movabs ''14'' (offset - 2), Inst ''JMP'' [Str ''ill_inst'']] st
      else emit [] st)"

definition translate ::
  "(string list \<Rightarrow> string list) \<Rightarrow> asm_line \<Rightarrow> int \<Rightarrow> bool \<Rightarrow> bool \<Rightarrow> tstate \<Rightarrow> tresult" where
  "translate order line offset block_end can_check st =
     (if l_name line \<in> set special_instruction then special_inst_dispatch order line offset block_end st
      else if l_name line \<in> set conditional_branch \<or> l_name line \<in> set unconditional_branch
      then process_jump order (l_name line) (hd (l_args line)) offset st
      else then_do (process_normal order (get_inst_name line) (map Ex (l_args line)) offset can_check st)
             (release_end block_end))"

section \<open>Block boundaries\<close>

definition user_regs :: "string list" where
  "user_regs = [''15'', ''14'', ''13'', ''12'', ''SP'', ''BP'']"

section \<open>What is said of the translation\<close>

text \<open>Registers the allocator does not touch, and that do not end in the letter P.\<close>

definition plain_reg :: "string \<Rightarrow> bool" where
  "plain_reg n \<longleftrightarrow> n \<noteq> '''' \<and> extract_conflict_regs n = [] \<and> last n \<noteq> CHR ''P''"

definition mask_code :: "string \<Rightarrow> tinst list" where
  "mask_code r = [Inst ''SHL'' [Ex (ExprId r 64), Str ''1''], Inst ''SHR'' [Ex (ExprId r 64), Str ''1'']]"

definition load_code :: "string \<Rightarrow> string \<Rightarrow> nat \<Rightarrow> string \<Rightarrow> nat \<Rightarrow> tinst" where
  "load_code name d dz r z =
     Inst name [Ex (ExprId d dz), Dict \<lparr>md_sz = z, md_regs = [ExprId r 64], md_im = None, md_mul = []\<rparr>]"

lemma exec_snoc: "exec (as @ bs) s = exec bs (exec as s)"
  by (rule exec_simps)

lemma release_snoc:
  "release_conflict (m @ [(k, v)]) True = release_conflict m True
     @ (if v = '''' \<or> v \<in> set stable_regs then [] else if v \<noteq> ''FS'' \<and> v \<noteq> ''GS'' then [StoreSlot v k] else [])"
  by (simp add: release_conflict_def)

lemma release_exec:
  assumes "v \<in> {''15'', ''14'', ''13'', ''12''}"
  shows "sl (exec (release_conflict m True) s) v = vget m s v"
    and "ph (exec (release_conflict m True) s) = ph s"
proof -
  have "sl (exec (release_conflict m True) s) v = vget m s v \<and> ph (exec (release_conflict m True) s) = ph s"
  proof (induction m rule: rev_induct)
    case Nil
    then show ?case by (simp add: release_conflict_def vget_def inv_map_def)
  next
    case (snoc x m)
    obtain k w where x: "x = (k, w)" by fastforce
    have v: "v \<noteq> ''''" "v \<notin> set stable_regs" "v \<noteq> ''FS''" "v \<noteq> ''GS''" using assms by (auto simp: stable_regs_def)
    have i: "inv_map (m @ [x]) u = (if u = w then Some k else inv_map m u)" for u by (simp add: inv_map_def x)
    show ?case
      unfolding x release_snoc exec_snoc using snoc v i [unfolded x] by (auto simp: vget_def)
  qed
  then show "sl (exec (release_conflict m True) s) v = vget m s v" "ph (exec (release_conflict m True) s) = ph s"
    by blast+
qed

text \<open>
  C33: A block may be left at its end: after the stores of release_conflict, the next block, which
  starts with the initial register map, finds RSP, RBP and the user's R12 to R15 with the values
  they have.
\<close>

theorem block_boundary:
  assumes "rm_ready m" and "v \<in> set user_regs"
  shows "vget block_init (exec (release_conflict m True) s) v = vget m s v"
proof -
  have h: "inv_map m ''SP'' = Some ''13''" "inv_map m ''BP'' = Some ''12''"
    using assms(1) rm_ready_iff [of m] by (auto simp: rm_ready_def)
  consider "v = ''SP''" | "v = ''BP''" | "v \<in> {''15'', ''14'', ''13'', ''12''}"
    using assms(2) by (auto simp: user_regs_def)
  then show ?thesis
  proof cases
    case 3
    then have "inv_map block_init v = None" by (auto simp: inv_map_def block_init_def)
    with release_exec(1) [OF 3] show ?thesis by (simp add: vget_def)
  qed (use h release_exec(2) [of "''15''" m s] in \<open>simp_all add: vget_def inv_map_def block_init_def\<close>)
qed

text \<open>
  A system call instruction is translated without release_conflict: the jump to comp_syscall
  leaves the slots of the frame as they are, whatever the register map is. A register of the user
  that was written in the same block, and is still in R14 or R15, is handed back to the process
  with its old value.
\<close>

lemma syscall_stale:
  assumes "l_name line = ''SYSCALL''" and "get_inst_name line = ''SYSCALL''"
  shows "\<exists>code. translate order line offset block_end can_check st = Some (code, st)
    \<and> (\<forall>s. sl (exec code s) = sl s)"
  using assms
  by (simp add: translate_def special_instruction_def special_inst_dispatch_def emit_def exec_def exec1_def)

section \<open>The check of a base register\<close>

lemma shl_shr_mod: "drop_bit 1 (push_bit 1 (x :: u64)) = x mod 2 ^ 63"
proof -
  have "drop_bit 1 (push_bit 1 x) = take_bit 63 x"
  proof (rule bit_word_eqI)
    fix n assume "n < LENGTH(64)"
    show "bit (drop_bit 1 (push_bit 1 x)) n \<longleftrightarrow> bit (take_bit 63 x) n"
      unfolding bit_drop_bit_eq o_def bit_push_bit_iff bit_take_bit_iff by (auto dest: bit_imp_le_length)
  qed
  then show ?thesis by (simp only: take_bit_eq_mod)
qed

lemma shl_shr: "drop_bit 1 (push_bit 1 (x :: u64)) < 2 ^ 63" "x < 2 ^ 63 \<Longrightarrow> drop_bit 1 (push_bit 1 x) = x"
proof -
  show "drop_bit 1 (push_bit 1 x) < 2 ^ 63"
    unfolding shl_shr_mod by (rule word_mod_less_divisor) simp
  show "x < 2 ^ 63 \<Longrightarrow> drop_bit 1 (push_bit 1 x) = x"
    unfolding shl_shr_mod by (simp add: mod_word_less)
qed

lemma load_normal:
  assumes "name \<noteq> ''LEA''" and "plain_reg r" and "extract_conflict_regs d = []"
  shows "process_normal order name [Ex (ExprId d dz), Ex (ExprMem (ExprId r 64) z)] offset can_check (m, checked) =
    Some ((if can_check \<and> ExprId r 64 \<notin> set checked then mask_code r else []) @ [load_code name d dz r z],
      (m, (let kept = removeAll (ExprId d dz) checked
           in kept @ (if ExprId r 64 \<in> set checked \<or> ExprId r 64 \<in> set kept then [] else [ExprId r 64]))))"
  using assms
  by (auto simp: process_normal_def arg_purify_def conflict_regs_of_def extract_reg_def expr_name_def plain_reg_def
      to_check_of_def get_mem_base_def checked_after_def check_code_def mask_code_def load_code_def Let_def)


text \<open>
  A register loaded through itself (MOV RAX, [RAX]) stays remembered as checked, although it
  now holds a value from memory: a following access through it is not checked.
\<close>

lemma checked_stale:
  assumes "plain_reg r" and "extract_conflict_regs d = []" and "ExprId r 64 \<notin> set checked"
  shows "\<exists>st. process_normal order ''MOV'' [Ex (ExprId r 64), Ex (ExprMem (ExprId r 64) 64)] o1 True (m, checked)
        = Some (mask_code r @ [load_code ''MOV'' r 64 r 64], st)
      \<and> (\<exists>st'. process_normal order ''MOV'' [Ex (ExprId d 64), Ex (ExprMem (ExprId r 64) 64)] o2 True st
        = Some ([load_code ''MOV'' d 64 r 64], st'))"
proof -
  have r: "extract_conflict_regs r = []" using assms(1) by (simp add: plain_reg_def)
  have "process_normal order ''MOV'' [Ex (ExprId r 64), Ex (ExprMem (ExprId r 64) 64)] o1 True (m, checked)
      = Some (mask_code r @ [load_code ''MOV'' r 64 r 64], (m, removeAll (ExprId r 64) checked @ [ExprId r 64]))"
    using load_normal [of "''MOV''" r r order 64 64 o1 True m checked] assms(1,3) r by (simp add: Let_def)
  moreover have "\<exists>st'. process_normal order ''MOV'' [Ex (ExprId d 64), Ex (ExprMem (ExprId r 64) 64)] o2 True
       (m, removeAll (ExprId r 64) checked @ [ExprId r 64]) = Some ([load_code ''MOV'' d 64 r 64], st')"
    using load_normal [of "''MOV''" r d order 64 64 o2 True m "removeAll (ExprId r 64) checked @ [ExprId r 64]"] assms(1,2)
    by simp
  ultimately show ?thesis by blast
qed

section \<open>Pushing a constant\<close>

lemma resolve_SP: "conflict_resolve (\<lambda>xs. xs) block_init [''SP''] offset = Some ([], block_init)"
  by (simp add: conflict_resolve_def block_init_def)

lemma recover_init: "recover_stable (release_IP block_init) = ([], block_init)"
  by (simp add: recover_stable_def release_IP_def recover_one_def inv_map_def block_init_def stable_regs_def is_temp_def)

lemma apply_SP:
  "apply_reg block_init (ExprId ''RSP'' 64) = Some (ExprId ''R13'' 64)" "apply_reg block_init (ExprInt i z) = Some (ExprInt i z)"
  by (simp_all add: apply_reg_def py_slice_def special_regs_def inv_map_def block_init_def sz2sfx_def)

text \<open>
  Pushing a constant moves the stack pointer by 8 bytes and stores the low 4 bytes of the
  constant only: the upper half of the pushed quad word is whatever memory held.
\<close>

lemma push_imm_half:
  "\<exists>st. process_push (\<lambda>xs. xs) (ExprInt i 64) offset (block_init, checked) =
    Some ([Inst ''LEA'' [Ex (ExprId ''R13'' 64), Dict \<lparr>md_sz = 64, md_regs = [ExprId ''R13'' 64],
              md_im = Some (ExprInt (- 8) 64), md_mul = []\<rparr>],
           Inst ''MOV'' [Dict \<lparr>md_sz = 32, md_regs = [ExprId ''R13'' 64], md_im = None, md_mul = []\<rparr>,
              Ex (ExprInt (i mod 2 ^ 32) 32)]], st)"
proof -
  define j where "j = i mod 2 ^ 32"
  let ?ea = "[Ex RSP, Dict (make_mem_dict 64 [''RSP''] (- 8))]"
  let ?mo = "[Dict (make_mem_dict 32 [''RSP''] 0), Ex (ExprInt j 32)]"
  have p: "map arg_purify ?ea = ?ea" "map arg_purify ?mo = ?mo" by (simp_all add: arg_purify_def)
  have c: "conflict_regs_of ?ea = [''SP'']" "conflict_regs_of ?mo = [''SP'']"
    by (simp_all add: conflict_regs_of_def extract_reg_def make_mem_dict_def expr_name_def extract_conflict_regs_def
        py_slice_def special_regs_def)
  have k: "to_check_of n ?ea ch = []" "to_check_of n ?mo ch = []" for n ch
    by (simp_all add: to_check_of_def get_mem_base_def make_mem_dict_def expr_name_def)
  have a: "apply_map ?ea block_init = Some [Ex (ExprId ''R13'' 64), Dict \<lparr>md_sz = 64, md_regs = [ExprId ''R13'' 64],
       md_im = Some (ExprInt (- 8) 64), md_mul = []\<rparr>]"
    "apply_map ?mo block_init = Some [Dict \<lparr>md_sz = 32, md_regs = [ExprId ''R13'' 64], md_im = None, md_mul = []\<rparr>,
       Ex (ExprInt j 32)]"
    by (simp_all add: apply_map_def apply_arg_def apply_regs_def make_mem_dict_def apply_SP)
  have e: "apply_regs block_init [] = Some []" by (simp add: apply_regs_def)
  have ea: "\<exists>ch'. process_normal (\<lambda>xs. xs) ''LEA'' ?ea offset False (block_init, ch)
      = Some ([Inst ''LEA'' (the (apply_map ?ea block_init))], (block_init, ch'))" for ch
    unfolding process_normal_def Let_def fst_conv snd_conv p c k resolve_SP a e recover_init
    by (simp add: a e check_code_def recover_init)
  have mo: "\<exists>ch'. process_normal (\<lambda>xs. xs) ''MOV'' ?mo offset False (block_init, ch)
      = Some ([Inst ''MOV'' (the (apply_map ?mo block_init))], (block_init, ch'))" for ch
    unfolding process_normal_def Let_def fst_conv snd_conv p c k resolve_SP a e recover_init
    by (simp add: a e check_code_def recover_init)
  obtain ch1 where 1: "process_normal (\<lambda>xs. xs) ''LEA'' ?ea offset False (block_init, checked)
      = Some ([Inst ''LEA'' (the (apply_map ?ea block_init))], (block_init, ch1))" using ea by blast
  obtain ch2 where 2: "process_normal (\<lambda>xs. xs) ''MOV'' ?mo offset False (block_init, ch1)
      = Some ([Inst ''MOV'' (the (apply_map ?mo block_init))], (block_init, ch2))" using mo by blast
  have x: "- int (expr_size (ExprInt i 64) div 8) = - 8" "expr_size (ExprInt j 32) = 32"
    "im64_abs (ExprInt j 32) = ''''" "is_mem (ExprInt i 64) = False"
    by (simp_all add: im64_abs_def is_mem_def)
  show ?thesis
    unfolding j_def [symmetric]
    by (intro exI [of _ "(block_init, ch2)"])
      (simp only: process_push_def x j_def [symmetric] expr.case Let_def then_do_def 1 2 a option.sel option.case prod.case if_True not_False_eq_True
        option.map append.simps)
qed

lemma prefixed_dropped:
  assumes "l_name line \<in> set special_instruction" and "l_name line \<noteq> ''NOP''"
    and "get_inst_name line = ''REPNE '' @ l_name line"
  shows "translate order line offset block_end can_check st = Some ([], st)"
  using assms
  by (auto simp: translate_def special_inst_dispatch_def emit_def special_instruction_def)

lemma jump_user_reg_crash:
  assumes "inv_map (fst st) ''12'' = None"
  shows "process_jump order name (ExprId ''R12'' 64) offset st = None"
  using assms by (simp add: process_jump_def jump_reg_def reverse_reg_def py_slice_def special_regs_def Let_def)

theorem block_boundary_witness:
  "vget block_init (exec (release_conflict [(''15'', ''14''), (''14'', ''''), (''13'', ''SP''), (''12'', ''BP'')] True) frame0) ''14'' = 1"
proof -
  let ?m = "[(''15'', ''14''), (''14'', ''''), (''13'', ''SP''), (''12'', ''BP'')]"
  have "rm_ready ?m" by (simp add: rm_ready_def rm_ok_def rm_get_def)
  moreover have "''14'' \<in> set user_regs" by (simp add: user_regs_def)
  moreover have "vget ?m frame0 ''14'' = 1" by (simp add: vget_def inv_map_def frame0_def)
  ultimately show ?thesis using block_boundary [of ?m "''14''" frame0] by simp
qed

text \<open>\<open>MOV R15, RAX; SYSCALL\<close>: the new value is in a register when the slots are handed back.\<close>

lemma plain_regs: "plain_reg ''RAX''" "extract_conflict_regs ''RCX'' = []" "plain_reg ''RCX''"
  by (simp_all add: plain_reg_def extract_conflict_regs_def py_slice_def special_regs_def)


lemma syscall_stale_example:
  "\<exists>c1 m ch c2. translate (\<lambda>xs. xs) (line0 ''MOV'' [ExprId ''R15'' 64, ExprId ''RAX'' 64]) 0x1003 False True (block_init, [])
       = Some (c1, (m, ch)) \<and> inv_map m ''15'' = Some ''15''
     \<and> translate (\<lambda>xs. xs) (line0 ''SYSCALL'' []) 0x1005 True True (m, ch) = Some (c2, (m, ch))
     \<and> (\<forall>s. sl (exec c2 s) ''15'' = sl s ''15'')"
proof -
  let ?m = "[(''15'', ''15''), (''14'', ''''), (''13'', ''SP''), (''12'', ''BP'')]"
  have 1: "translate (\<lambda>xs. xs) (line0 ''MOV'' [ExprId ''R15'' 64, ExprId ''RAX'' 64]) 0x1003 False True (block_init, [])
     = Some ([LoadSlot ''15'' ''15'', Inst ''MOV'' [Ex (ExprId ''R15'' 64), Ex (ExprId ''RAX'' 64)]], (?m, []))"
    by code_simp
  have 2: "inv_map ?m ''15'' = Some ''15''" by (simp add: inv_map_def)
  have n: "l_name (line0 ''SYSCALL'' []) = ''SYSCALL''" "get_inst_name (line0 ''SYSCALL'' []) = ''SYSCALL''"
    by (simp_all add: line0_def get_inst_name_def)
  obtain c2 where c2: "translate (\<lambda>xs. xs) (line0 ''SYSCALL'' []) 0x1005 True True (?m, []) = Some (c2, (?m, []))"
    "\<forall>s. sl (exec c2 s) = sl s"
    using syscall_stale [OF n] by blast
  have "\<forall>s. sl (exec c2 s) ''15'' = sl s ''15''" using c2(2) by simp
  with 1 2 c2(1) show ?thesis by blast
qed

lemma checked_stale_example:
  "\<exists>st. process_normal (\<lambda>xs. xs) ''MOV'' [Ex (ExprId ''RAX'' 64), Ex (ExprMem (ExprId ''RAX'' 64) 64)] 0x1003 True (block_init, [])
       = Some (mask_code ''RAX'' @ [load_code ''MOV'' ''RAX'' 64 ''RAX'' 64], st)
     \<and> (\<exists>st'. process_normal (\<lambda>xs. xs) ''MOV'' [Ex (ExprId ''RCX'' 64), Ex (ExprMem (ExprId ''RAX'' 64) 64)] 0x1006 True st
       = Some ([load_code ''MOV'' ''RCX'' 64 ''RAX'' 64], st'))"
  by (rule checked_stale [OF plain_regs(1,2)]) simp

end
