(* ===== verification/Wrapper.thy ===== *)
theory Wrapper
  imports Translation Regs
begin

text \<open>
  The entry and exit of a code block (\<open>zz_disassem/asm/wrapper.S\<close>): \<open>main\<close> is called by
  \<open>exe_on_call\<close> with the saved registers in \<open>rdi\<close> and \<open>args\<close> in \<open>rsi\<close>, loads the user's registers,
  runs the translated code (\<open>jit.S\<close>, a parameter here: it is generated) and writes the
  registers back at \<open>exit\<close>. Operands are named as in \<open>asm_head.h\<close>. The machine has the general
  registers and memory as quad words at addresses divisible by 8; an access at another address
  is \<open>None\<close>, and what is proved excludes it.
\<close>

section \<open>Machine\<close>

datatype gpr = Rax | Rbx | Rcx | Rdx | Rsi | Rdi | Rbp | Rsp | R8 | R9 | R10 | R11 | R12 | R13 | R14 | R15

datatype opd = Rg gpr | Pt asm_pt | Stk asm_stack | Arg nat

datatype ins = Push opd | Pop opd | Mov opd opd | Movi opd u64 | AddRsp nat | SubRsp nat | Popf | Return

record cpu =
  gp :: "gpr \<Rightarrow> u64"
  qm :: "u64 \<Rightarrow> u64"
  fl :: u64
  pc :: u64

definition PT_REG :: gpr where "PT_REG = R14"

definition ARG_REG :: gpr where "ARG_REG = R15"

abbreviation "MEM_ARG \<equiv> Arg 0"

abbreviation "MEM_ARG2 \<equiv> Arg 1"

abbreviation "PT_FS \<equiv> Arg 0"

abbreviation "PT_GS \<equiv> Arg 1"

primrec opd_addr :: "opd \<Rightarrow> cpu \<Rightarrow> u64" where
  "opd_addr (Rg r) c = 0"
| "opd_addr (Pt x) c = gp c PT_REG + 8 * of_nat (pt_slot x)"
| "opd_addr (Stk x) c = gp c Rbp - 8 * of_nat (stack_slot x)"
| "opd_addr (Arg k) c = gp c ARG_REG + 8 * of_nat k"

definition ld :: "u64 \<Rightarrow> cpu \<Rightarrow> u64 option" where
  "ld a c = (if a mod 8 = 0 then Some (qm c a) else None)"

definition sd :: "u64 \<Rightarrow> u64 \<Rightarrow> cpu \<Rightarrow> cpu option" where
  "sd a v c = (if a mod 8 = 0 then Some (c\<lparr>qm := (qm c)(a := v)\<rparr>) else None)"

definition set_gp :: "gpr \<Rightarrow> u64 \<Rightarrow> cpu \<Rightarrow> cpu" where
  "set_gp r v c = c\<lparr>gp := (gp c)(r := v)\<rparr>"

definition get_opd :: "opd \<Rightarrow> cpu \<Rightarrow> u64 option" where
  "get_opd x c = (case x of Rg r \<Rightarrow> Some (gp c r) | _ \<Rightarrow> ld (opd_addr x c) c)"

definition put_opd :: "opd \<Rightarrow> u64 \<Rightarrow> cpu \<Rightarrow> cpu option" where
  "put_opd x v c = (case x of Rg r \<Rightarrow> Some (set_gp r v c) | _ \<Rightarrow> sd (opd_addr x c) v c)"

text \<open>\<open>push\<close> reads its operand before, \<open>pop\<close> writes it after the stack pointer has moved.\<close>

primrec step1 :: "ins \<Rightarrow> cpu \<Rightarrow> cpu option" where
  "step1 (Push x) c = Option.bind (get_opd x c) (\<lambda>v.
     sd (gp c Rsp - 8) v (set_gp Rsp (gp c Rsp - 8) c))"
| "step1 (Pop x) c = Option.bind (ld (gp c Rsp) c) (\<lambda>v. put_opd x v (set_gp Rsp (gp c Rsp + 8) c))"
| "step1 (Mov x y) c = Option.bind (get_opd y c) (\<lambda>v. put_opd x v c)"
| "step1 (Movi x v) c = put_opd x v c"
| "step1 (AddRsp n) c = Some (set_gp Rsp (gp c Rsp + of_nat n) c)"
| "step1 (SubRsp n) c = Some (set_gp Rsp (gp c Rsp - of_nat n) c)"
| "step1 Popf c = Option.bind (ld (gp c Rsp) c) (\<lambda>v. Some (set_gp Rsp (gp c Rsp + 8) c\<lparr>fl := v\<rparr>))"
| "step1 Return c = Option.bind (ld (gp c Rsp) c) (\<lambda>v. Some (set_gp Rsp (gp c Rsp + 8) c\<lparr>pc := v\<rparr>))"

primrec steps :: "ins list \<Rightarrow> cpu \<Rightarrow> cpu option" where
  "steps [] c = Some c"
| "steps (i # is) c = Option.bind (step1 i c) (steps is)"

section \<open>Code\<close>

definition main_code :: "ins list" where
  "main_code =
     [Push (Rg Rbp), Mov (Rg Rbp) (Rg Rsp),
      Push (Rg Rbx), Push (Rg R12), Push (Rg R13), Push (Rg R14), Push (Rg R15),
      Push (Rg Rdi), Push (Rg Rsi),
      Mov (Rg PT_REG) (Rg Rdi), Mov (Rg ARG_REG) (Rg Rsi),
      Mov (Rg Rbx) (Pt PT_RBX), Mov (Rg R11) (Pt PT_R11), Mov (Rg R10) (Pt PT_R10),
      Mov (Rg R9) (Pt PT_R9), Mov (Rg R8) (Pt PT_R8), Mov (Rg Rax) (Pt PT_RAX),
      Mov (Rg Rcx) (Pt PT_RCX), Mov (Rg Rdx) (Pt PT_RDX), Mov (Rg Rsi) (Pt PT_RSI),
      Mov (Rg Rdi) (Pt PT_RDI),
      Push (Pt PT_RBP), Push (Pt PT_RSP), Push (Pt PT_R15), Push (Pt PT_R14), Push (Pt PT_R13),
      Push (Pt PT_R12), Push PT_GS, Push PT_FS, SubRsp 24,
      Mov (Rg R13) (Stk Stack_RSP), Mov (Rg R12) (Stk Stack_RBP)]"

definition exit_code :: "ins list" where
  "exit_code =
     [Mov (Stk Stack_RIP) (Rg R14), Mov (Stk Stack_RSP) (Rg R13), Mov (Stk Stack_RBP) (Rg R12),
      Mov (Rg PT_REG) (Stk Stack_PT_REG), Mov (Rg ARG_REG) (Stk Stack_ARG_REG),
      Pop MEM_ARG2, Pop MEM_ARG, Pop (Pt PT_RIP), AddRsp 16,
      Pop (Pt PT_R12), Pop (Pt PT_R13), Pop (Pt PT_R14), Pop (Pt PT_R15), Pop (Pt PT_RSP), Pop (Pt PT_RBP),
      Mov (Pt PT_RBX) (Rg Rbx), Mov (Pt PT_R11) (Rg R11), Mov (Pt PT_R10) (Rg R10),
      Mov (Pt PT_R9) (Rg R9), Mov (Pt PT_R8) (Rg R8), Mov (Pt PT_RAX) (Rg Rax),
      Mov (Pt PT_RCX) (Rg Rcx), Mov (Pt PT_RDX) (Rg Rdx), Mov (Pt PT_RSI) (Rg Rsi),
      Mov (Pt PT_RDI) (Rg Rdi),
      AddRsp 16, Pop (Rg R15), Pop (Rg R14), Pop (Rg R13), Pop (Rg R12), Pop (Rg Rbx), Pop (Rg Rbp), Return]"

text \<open>The labels the translated code may jump to; \<open>None\<close>: the assembler rejects the file.\<close>

definition code_at :: "string \<Rightarrow> ins list option" where
  "code_at l =
     (if l = ''comp_syscall'' then Some (Movi (Stk Stack_IJ) 0 # exit_code)
      else if l = ''ij_failed'' then Some (Mov (Stk Stack_IJ) (Rg R15) # exit_code)
      else if l = ''seg_error'' \<or> l = ''inst_limit'' \<or> l = ''exit'' then Some exit_code
      else if l = ''seg_error2'' then Some (Popf # exit_code)
      else None)"

text \<open>The whole block; \<open>jit\<close> is the translated code, and gives the label at which it leaves.\<close>

definition code_block_run :: "(cpu \<Rightarrow> string \<times> cpu) \<Rightarrow> cpu \<Rightarrow> cpu option" where
  "code_block_run jit c = Option.bind (steps main_code c) (\<lambda>c1.
     let (l, c2) = jit c1 in Option.bind (code_at l) (\<lambda>code. steps code c2))"

section \<open>Frame and saved registers\<close>

text \<open>Quad words of the stack below the return address, of the saved registers and of \<open>args\<close>.\<close>

definition stk :: "cpu \<Rightarrow> nat \<Rightarrow> u64" where
  "stk c i = gp c Rsp - 8 * of_nat i"

definition ptq :: "cpu \<Rightarrow> nat \<Rightarrow> u64" where
  "ptq c i = gp c Rdi + 8 * of_nat i"

definition argq :: "cpu \<Rightarrow> nat \<Rightarrow> u64" where
  "argq c i = gp c Rsi + 8 * of_nat i"

text \<open>
  The call is made as the C compiler makes it: the pointers are aligned, and the frame (20 quad
  words with the return address), \<open>struct pt_regs\<close> and \<open>args\<close> do not overlap.
\<close>

definition called_ok :: "cpu \<Rightarrow> bool" where
  "called_ok c \<longleftrightarrow> gp c Rsp mod 8 = 0 \<and> gp c Rdi mod 8 = 0 \<and> gp c Rsi mod 8 = 0
     \<and> distinct (map (stk c) [0..<20] @ map (ptq c) [0..<21] @ map (argq c) [0..<2])"

text \<open>Where the translated code keeps a register of the user; \<open>R14\<close> holds the next address when it leaves.\<close>

primrec vreg :: "cpu \<Rightarrow> asm_pt \<Rightarrow> u64" where
  "vreg c PT_RAX = gp c Rax"
| "vreg c PT_RBX = gp c Rbx"
| "vreg c PT_RCX = gp c Rcx"
| "vreg c PT_RDX = gp c Rdx"
| "vreg c PT_RSI = gp c Rsi"
| "vreg c PT_RDI = gp c Rdi"
| "vreg c PT_R8 = gp c R8"
| "vreg c PT_R9 = gp c R9"
| "vreg c PT_R10 = gp c R10"
| "vreg c PT_R11 = gp c R11"
| "vreg c PT_RSP = gp c R13"
| "vreg c PT_RBP = gp c R12"
| "vreg c PT_R12 = qm c (opd_addr (Stk Stack_R12) c)"
| "vreg c PT_R13 = qm c (opd_addr (Stk Stack_R13) c)"
| "vreg c PT_R14 = qm c (opd_addr (Stk Stack_R14) c)"
| "vreg c PT_R15 = qm c (opd_addr (Stk Stack_R15) c)"
| "vreg c PT_RIP = gp c R14"
| "vreg c PT_EFLAGS = fl c"

section \<open>Contract of the translated code\<close>

definition frame_qm :: "cpu \<Rightarrow> u64 \<Rightarrow> u64" where
  "frame_qm c = (qm c)
     (stk c 1 := gp c Rbp, stk c 2 := gp c Rbx, stk c 3 := gp c R12, stk c 4 := gp c R13,
      stk c 5 := gp c R14, stk c 6 := gp c R15, stk c 7 := gp c Rdi, stk c 8 := gp c Rsi,
      stk c 9 := qm c (ptq c 4), stk c 10 := qm c (ptq c 19), stk c 11 := qm c (ptq c 0),
      stk c 12 := qm c (ptq c 1), stk c 13 := qm c (ptq c 2), stk c 14 := qm c (ptq c 3),
      stk c 15 := qm c (argq c 1), stk c 16 := qm c (argq c 0))"

definition keeps_frame :: "cpu \<Rightarrow> cpu \<Rightarrow> bool" where
  "keeps_frame c d \<longleftrightarrow> gp d Rbp = stk c 1 \<and> gp d Rsp = stk c 19
     \<and> list_all (\<lambda>i. qm d (stk c i) = frame_qm c (stk c i)) [0..<9]"

definition left_qm :: "cpu \<Rightarrow> cpu \<Rightarrow> u64 \<Rightarrow> u64" where
  "left_qm c d = (qm d)
     (stk c 17 := gp d R14, stk c 10 := gp d R13, stk c 9 := gp d R12,
      argq c 1 := qm d (stk c 19), argq c 0 := qm d (stk c 18), ptq c 16 := gp d R14,
      ptq c 3 := qm d (stk c 14), ptq c 2 := qm d (stk c 13), ptq c 1 := qm d (stk c 12),
      ptq c 0 := qm d (stk c 11), ptq c 19 := gp d R13, ptq c 4 := gp d R12, ptq c 5 := gp d Rbx,
      ptq c 6 := gp d R11, ptq c 7 := gp d R10, ptq c 8 := gp d R9, ptq c 9 := gp d R8,
      ptq c 10 := gp d Rax, ptq c 11 := gp d Rcx, ptq c 12 := gp d Rdx, ptq c 13 := gp d Rsi,
      ptq c 14 := gp d Rdi)"

definition user_word :: "cpu \<Rightarrow> asm_pt \<Rightarrow> u64" where
  "user_word c x = qm c (ptq c (pt_slot x))"

definition in_frame :: "cpu \<Rightarrow> u64 \<Rightarrow> bool" where
  "in_frame c a \<longleftrightarrow> a \<in> set (map (stk c) [0..<20])"

text \<open>
  The state in which the translated code starts: every register of the user is where the code
  expects it, the segment bases are in their slots, and memory outside the frame is as before.
\<close>

definition entered :: "cpu \<Rightarrow> cpu \<Rightarrow> bool" where
  "entered c d \<longleftrightarrow> keeps_frame c d \<and> (\<forall>x. x \<noteq> PT_RIP \<and> x \<noteq> PT_EFLAGS \<longrightarrow> vreg d x = user_word c x)
     \<and> qm d (opd_addr (Stk Stack_RFS) d) = qm c (argq c 0) \<and> qm d (opd_addr (Stk Stack_RGS) d) = qm c (argq c 1)
     \<and> (\<forall>a. \<not> in_frame c a \<longrightarrow> qm d a = qm c a)"

text \<open>What \<open>args[0]\<close> receives.\<close>

definition reason :: "string \<Rightarrow> cpu \<Rightarrow> u64" where
  "reason l d = (if l = ''comp_syscall'' then 0 else if l = ''ij_failed'' then gp d R15
     else qm d (opd_addr (Stk Stack_IJ) d))"

text \<open>
  The contract of the translated code: started as above it leaves at \<open>l\<close> with its frame intact, the
  user's registers \<open>F\<close>, the memory outside the frame \<open>M\<close> and the reason \<open>j\<close>.
\<close>

definition computes :: "cpu \<Rightarrow> (cpu \<Rightarrow> string \<times> cpu) \<Rightarrow> string \<Rightarrow> (asm_pt \<Rightarrow> u64) \<Rightarrow> (u64 \<Rightarrow> u64) \<Rightarrow> u64 \<Rightarrow> bool" where
  "computes c jit l F M j \<longleftrightarrow> (\<forall>d. entered c d \<longrightarrow>
     fst (jit d) = l \<and> keeps_frame c (snd (jit d)) \<and> (\<forall>x. x \<noteq> PT_EFLAGS \<longrightarrow> vreg (snd (jit d)) x = F x)
     \<and> (\<forall>a. \<not> in_frame c a \<longrightarrow> qm (snd (jit d)) a = M a) \<and> reason l (snd (jit d)) = j)"

definition callee_saved :: "gpr list" where
  "callee_saved = [Rbx, Rbp, R12, R13, R14, R15]"

text \<open>A block that is entered with 100 in \<open>rax\<close> and leaves at the system call after it, with 39 there.\<close>

definition cpu0 :: cpu where
  "cpu0 = \<lparr>gp = (\<lambda>r. 5)(Rsp := 0x8000, Rdi := 0x1000, Rsi := 0x2000), qm = (\<lambda>a. 100), fl = 0, pc = 0\<rparr>"

definition jit0 :: "cpu \<Rightarrow> string \<times> cpu" where
  "jit0 d = (''comp_syscall'', d\<lparr>gp := (gp d)(R14 := 0x400100, Rax := 39)\<rparr>)"

definition slot_of :: "string \<Rightarrow> asm_stack option" where
  "slot_of = map_of [(''15'', Stack_R15), (''14'', Stack_R14), (''13'', Stack_R13), (''12'', Stack_R12),
     (''SP'', Stack_RSP), (''BP'', Stack_RBP), (''GS'', Stack_RGS), (''FS'', Stack_RFS), (''IP'', Stack_RIP)]"

definition reg_of :: "string \<Rightarrow> gpr option" where
  "reg_of = map_of [(''15'', R15), (''14'', R14), (''13'', R13), (''12'', R12)]"

text \<open>The line \<open>make_inst\<close> writes for a move of the allocator; \<open>None\<close>: it names no slot or register.\<close>

definition asm_of :: "tinst \<Rightarrow> ins option" where
  "asm_of t = (case t of
       StoreSlot v p \<Rightarrow> (case (slot_of v, reg_of p) of (Some y, Some r) \<Rightarrow> Some (Mov (Stk y) (Rg r)) | _ \<Rightarrow> None)
     | LoadSlot p v \<Rightarrow> (case (slot_of v, reg_of p) of (Some y, Some r) \<Rightarrow> Some (Mov (Rg r) (Stk y)) | _ \<Rightarrow> None)
     | Movabs p i \<Rightarrow> map_option (\<lambda>r. Movi (Rg r) (of_int i)) (reg_of p)
     | _ \<Rightarrow> None)"

definition frame_of :: "cpu \<Rightarrow> frame" where
  "frame_of c = \<lparr>ph = (\<lambda>p. case reg_of p of Some r \<Rightarrow> gp c r | None \<Rightarrow> 0),
     sl = (\<lambda>v. case slot_of v of Some y \<Rightarrow> qm c (opd_addr (Stk y) c) | None \<Rightarrow> 0)\<rparr>"

definition scratch_regs :: "gpr list" where
  "scratch_regs = [R12, R13, R14, R15]"

lemma mod8_plus:
  assumes "(a :: u64) mod 8 = 0"
  shows "(a + 8 * x) mod 8 = 0"
proof -
  have a: "uint a mod 8 = 0" using assms by (simp add: word_uint_eq_iff uint_mod)
  have "uint (a + 8 * x) mod 8 = (uint a + 8 * uint x) mod 2 ^ 64 mod 8"
    by (simp add: uint_word_ariths mod_simps)
  also have "\<dots> = (uint a + 8 * uint x) mod 8" by (rule mod_mod_cancel) simp
  also have "\<dots> = 0" using a by presburger
  finally show ?thesis by (simp add: word_uint_eq_iff uint_mod)
qed

lemma aligned:
  assumes "called_ok c"
  shows "stk c i mod 8 = 0" "ptq c i mod 8 = 0" "argq c i mod 8 = 0"
proof -
  have "gp c Rsp mod 8 = 0" "gp c Rdi mod 8 = 0" "gp c Rsi mod 8 = 0"
    using assms unfolding called_ok_def by blast+
  then show "stk c i mod 8 = 0" "ptq c i mod 8 = 0" "argq c i mod 8 = 0"
    using mod8_plus [of "gp c Rsp" "- of_nat i"] mod8_plus [of _ "of_nat i"]
    unfolding stk_def ptq_def argq_def by simp_all
qed

lemma apart:
  assumes "called_ok c"
  shows "i < 20 \<Longrightarrow> j < 20 \<Longrightarrow> stk c i = stk c j \<longleftrightarrow> i = j"
    and "i < 21 \<Longrightarrow> j < 21 \<Longrightarrow> ptq c i = ptq c j \<longleftrightarrow> i = j"
    and "i < 2 \<Longrightarrow> j < 2 \<Longrightarrow> argq c i = argq c j \<longleftrightarrow> i = j"
    and "i < 20 \<Longrightarrow> j < 21 \<Longrightarrow> stk c i \<noteq> ptq c j"
    and "i < 20 \<Longrightarrow> j < 2 \<Longrightarrow> stk c i \<noteq> argq c j"
    and "i < 21 \<Longrightarrow> j < 2 \<Longrightarrow> ptq c i \<noteq> argq c j"
proof -
  have d: "distinct (map (stk c) [0..<20])" "distinct (map (ptq c) [0..<21])" "distinct (map (argq c) [0..<2])"
    "set (map (stk c) [0..<20]) \<inter> set (map (ptq c) [0..<21]) = {}"
    "set (map (stk c) [0..<20]) \<inter> set (map (argq c) [0..<2]) = {}"
    "set (map (ptq c) [0..<21]) \<inter> set (map (argq c) [0..<2]) = {}"
    using assms unfolding called_ok_def distinct_append set_append by blast+
  have m: "k < n \<Longrightarrow> f k \<in> set (map f [0..<n])" for k n and f :: "nat \<Rightarrow> u64" by simp
  have i: "distinct (map f [0..<n]) \<Longrightarrow> i < n \<Longrightarrow> j < n \<Longrightarrow> f i = f j \<longleftrightarrow> i = j" for f :: "nat \<Rightarrow> u64" and n
    by (auto simp: distinct_map inj_on_def)
  show "i < 20 \<Longrightarrow> j < 20 \<Longrightarrow> stk c i = stk c j \<longleftrightarrow> i = j"
    "i < 21 \<Longrightarrow> j < 21 \<Longrightarrow> ptq c i = ptq c j \<longleftrightarrow> i = j"
    "i < 2 \<Longrightarrow> j < 2 \<Longrightarrow> argq c i = argq c j \<longleftrightarrow> i = j"
    using i [OF d(1)] i [OF d(2)] i [OF d(3)] by blast+
  show "i < 20 \<Longrightarrow> j < 21 \<Longrightarrow> stk c i \<noteq> ptq c j" "i < 20 \<Longrightarrow> j < 2 \<Longrightarrow> stk c i \<noteq> argq c j"
    "i < 21 \<Longrightarrow> j < 2 \<Longrightarrow> ptq c i \<noteq> argq c j"
    using d(4-6) m [of _ 20 "stk c"] m [of _ 21 "ptq c"] m [of _ 2 "argq c"] by (metis disjoint_iff)+
qed

lemma stk_walk: "stk c i - 8 = stk c (Suc i)" "0 < i \<Longrightarrow> stk c i + 8 = stk c (i - 1)"
  "stk c i - 24 = stk c (i + 3)" "1 < i \<Longrightarrow> stk c i + 16 = stk c (i - 2)"
  by (simp_all add: stk_def algebra_simps)

lemma stk_0: "gp c Rsp = stk c 0"
  by (simp add: stk_def)

lemma stk_2: "stk c (Suc (Suc 0)) = stk c 2"
  by (simp add: numeral_2_eq_2)

lemma fold_addr:
  "gp d R14 = gp c Rdi \<Longrightarrow> opd_addr (Pt x) d = ptq c (pt_slot x)"
  "gp d Rbp = stk c 1 \<Longrightarrow> opd_addr (Stk y) d = stk c (Suc (stack_slot y))"
  "gp d R15 = gp c Rsi \<Longrightarrow> opd_addr (Arg k) d = argq c k"
  by (simp_all add: ptq_def argq_def stk_def PT_REG_def ARG_REG_def algebra_simps)

lemmas mach = get_opd_def put_opd_def ld_def sd_def set_gp_def PT_REG_def ARG_REG_def

lemma main_runs:
  assumes "called_ok c"
  shows "steps main_code c = Some (c\<lparr>qm := frame_qm c, gp := (gp c)(Rbp := stk c 1, R14 := gp c Rdi,
       R15 := gp c Rsi, Rbx := qm c (ptq c 5), R11 := qm c (ptq c 6), R10 := qm c (ptq c 7),
       R9 := qm c (ptq c 8), R8 := qm c (ptq c 9), Rax := qm c (ptq c 10), Rcx := qm c (ptq c 11),
       Rdx := qm c (ptq c 12), Rsi := qm c (ptq c 13), Rdi := qm c (ptq c 14), Rsp := stk c 19,
       R13 := qm c (ptq c 19), R12 := qm c (ptq c 4))\<rparr>)"
  unfolding main_code_def frame_qm_def
  by (simp add: mach aligned [OF assms] apart [OF assms] apart(4-6) [OF assms, symmetric] stk_walk stk_2 stk_0 [of c] fold_addr [of _ c] del: opd_addr.simps)

lemma keeps_frameD:
  assumes "called_ok c" and "keeps_frame c d"
  shows "gp d Rbp = stk c 1" "gp d Rsp = stk c 19" "qm d (stk c 0) = qm c (stk c 0)"
    "qm d (stk c (Suc 0)) = gp c Rbp" "qm d (stk c 2) = gp c Rbx" "qm d (stk c 3) = gp c R12"
    "qm d (stk c 4) = gp c R13" "qm d (stk c 5) = gp c R14" "qm d (stk c 6) = gp c R15"
    "qm d (stk c 7) = gp c Rdi" "qm d (stk c 8) = gp c Rsi"
proof -
  have k: "i < 9 \<Longrightarrow> qm d (stk c i) = frame_qm c (stk c i)" for i
    using assms(2) by (simp add: keeps_frame_def list_all_nth_upt)
  show "gp d Rbp = stk c 1" "gp d Rsp = stk c 19" using assms(2) by (simp_all add: keeps_frame_def)
  show "qm d (stk c 0) = qm c (stk c 0)"
    "qm d (stk c (Suc 0)) = gp c Rbp" "qm d (stk c 2) = gp c Rbx" "qm d (stk c 3) = gp c R12"
    "qm d (stk c 4) = gp c R13" "qm d (stk c 5) = gp c R14" "qm d (stk c 6) = gp c R15"
    "qm d (stk c 7) = gp c Rdi" "qm d (stk c 8) = gp c Rsi"
    using k [of 0] k [of 1] k [of 2] k [of 3] k [of 4] k [of 5] k [of 6] k [of 7] k [of 8]
    by (simp_all add: frame_qm_def apart [OF assms(1)])
qed

lemma exit_runs:
  assumes "called_ok c" and "keeps_frame c d"
  shows "steps exit_code d = Some (d\<lparr>qm := left_qm c d, gp := (gp d)(R15 := gp c R15, R14 := gp c R14,
      R13 := gp c R13, R12 := gp c R12, Rbx := gp c Rbx, Rbp := gp c Rbp, Rsp := gp c Rsp + 8),
      pc := qm c (stk c 0)\<rparr>)"
  unfolding exit_code_def left_qm_def
  by (simp add: mach aligned [OF assms(1)] apart [OF assms(1)] apart(4-6) [OF assms(1), symmetric]
      stk_walk stk_2 stk_0 [of c] fold_addr [of _ c] keeps_frameD [OF assms] del: opd_addr.simps)

lemma not_in_frame: "\<not> in_frame c a \<Longrightarrow> i < 20 \<Longrightarrow> a \<noteq> stk c i"
  by (auto simp: in_frame_def)

lemma main_enters:
  assumes "called_ok c"
  shows "\<exists>d. steps main_code c = Some d \<and> entered c d"
proof (intro exI conjI)
  let ?d = "c\<lparr>qm := frame_qm c, gp := (gp c)(Rbp := stk c 1, R14 := gp c Rdi,
       R15 := gp c Rsi, Rbx := qm c (ptq c 5), R11 := qm c (ptq c 6), R10 := qm c (ptq c 7),
       R9 := qm c (ptq c 8), R8 := qm c (ptq c 9), Rax := qm c (ptq c 10), Rcx := qm c (ptq c 11),
       Rdx := qm c (ptq c 12), Rsi := qm c (ptq c 13), Rdi := qm c (ptq c 14), Rsp := stk c 19,
       R13 := qm c (ptq c 19), R12 := qm c (ptq c 4))\<rparr>"
  show "steps main_code c = Some ?d" by (rule main_runs [OF assms])
  note ap = apart [OF assms]
  have k: "keeps_frame c ?d" by (simp add: keeps_frame_def list_all_nth_upt)
  have v: "vreg ?d x = user_word c x" if "x \<noteq> PT_RIP" "x \<noteq> PT_EFLAGS" for x
    using that by (cases x) (simp_all add: user_word_def fold_addr(2) [of _ c] frame_qm_def ap del: opd_addr.simps)
  have f: "frame_qm c a = qm c a" if "\<not> in_frame c a" for a
    using not_in_frame [OF that] by (simp add: frame_qm_def)
  show "entered c ?d"
    unfolding entered_def using k v f by (simp add: fold_addr(2) [of _ c] frame_qm_def ap del: opd_addr.simps)
qed

lemma left_words:
  assumes "called_ok c" and "keeps_frame c d"
  shows "x \<noteq> PT_EFLAGS \<Longrightarrow> left_qm c d (ptq c (pt_slot x)) = vreg d x"
    and "left_qm c d (argq c 0) = qm d (opd_addr (Stk Stack_IJ) d)"
    and "\<not> in_frame c a \<Longrightarrow> a \<notin> range (\<lambda>x. ptq c (pt_slot x)) \<union> {argq c 0, argq c 1} \<Longrightarrow> left_qm c d a = qm d a"
proof -
  note ap = apart [OF assms(1)] apart(4-6) [OF assms(1), symmetric]
  have s: "opd_addr (Stk y) d = stk c (Suc (stack_slot y))" for y
    using keeps_frameD(1) [OF assms] by (intro fold_addr(2)) simp
  show "x \<noteq> PT_EFLAGS \<Longrightarrow> left_qm c d (ptq c (pt_slot x)) = vreg d x"
    by (cases x) (simp_all add: left_qm_def s ap del: opd_addr.simps)
  show "left_qm c d (argq c 0) = qm d (opd_addr (Stk Stack_IJ) d)"
    by (simp add: left_qm_def s ap del: opd_addr.simps)
  assume n: "\<not> in_frame c a" and m: "a \<notin> range (\<lambda>x. ptq c (pt_slot x)) \<union> {argq c 0, argq c 1}"
  have "a \<noteq> ptq c (pt_slot x)" for x using m by blast
  note p = this [of PT_R15] this [of PT_R14] this [of PT_R13] this [of PT_R12] this [of PT_RBP] this [of PT_RBX]
    this [of PT_R11] this [of PT_R10] this [of PT_R9] this [of PT_R8] this [of PT_RAX] this [of PT_RCX]
    this [of PT_RDX] this [of PT_RSI] this [of PT_RDI] this [of PT_RIP] this [of PT_RSP]
  show "left_qm c d a = qm d a"
    using m by (simp add: left_qm_def not_in_frame [OF n] p [simplified])
qed

lemma keeps_frame_ij:
  assumes "called_ok c" and "keeps_frame c d"
  shows "keeps_frame c (d\<lparr>qm := (qm d)(opd_addr (Stk Stack_IJ) d := v)\<rparr>)"
proof -
  have s: "opd_addr (Stk Stack_IJ) d = stk c 18"
    by (subst fold_addr(2) [OF keeps_frameD(1) [OF assms]]) simp
  show ?thesis
    using assms(2) by (simp add: keeps_frame_def s list_all_nth_upt apart [OF assms(1)] del: opd_addr.simps)
qed

lemma reason_code:
  assumes "called_ok c" and "keeps_frame c d" and "l \<in> {''comp_syscall'', ''ij_failed'', ''exit''}"
  shows "\<exists>e code. code_at l = Some code \<and> steps code d = steps exit_code e \<and> keeps_frame c e
    \<and> qm e (opd_addr (Stk Stack_IJ) e) = reason l d \<and> (\<forall>x. vreg e x = vreg d x)
    \<and> (\<forall>a. \<not> in_frame c a \<longrightarrow> qm e a = qm d a)"
proof -
  have r: "gp d Rbp = stk c 1" by (rule keeps_frameD(1) [OF assms(1,2)])
  have a: "opd_addr (Stk Stack_IJ) d mod 8 = 0"
    by (simp only: fold_addr(2) [OF r] aligned(1) [OF assms(1)])
  let ?e = "\<lambda>v. d\<lparr>qm := (qm d)(opd_addr (Stk Stack_IJ) d := v)\<rparr>"
  note s = fold_addr(2) [of _ c] r
  have x: "vreg (?e v) x = vreg d x" for v x
    by (cases x) (simp_all add: s apart [OF assms(1)] del: opd_addr.simps)
  have i: "in_frame c (stk c 18)" by (simp add: in_frame_def)
  from assms(3) consider "l = ''comp_syscall''" | "l = ''ij_failed''" | "l = ''exit''" by auto
  then show ?thesis
  proof cases
    case 1
    then show ?thesis using keeps_frame_ij [OF assms(1,2), of 0] x [of 0] i a
      by (intro exI [of _ "?e 0"] exI [of _ "Movi (Stk Stack_IJ) 0 # exit_code"])
        (simp add: code_at_def mach reason_def s del: opd_addr.simps)
  next
    case 2
    then show ?thesis using keeps_frame_ij [OF assms(1,2), of "gp d R15"] x [of "gp d R15"] i a
      by (intro exI [of _ "?e (gp d R15)"] exI [of _ "Mov (Stk Stack_IJ) (Rg R15) # exit_code"])
        (simp add: code_at_def mach reason_def s del: opd_addr.simps)
  next
    case 3
    then show ?thesis using assms(2)
      by (intro exI [of _ d] exI [of _ exit_code]) (simp add: code_at_def reason_def del: opd_addr.simps)
  qed
qed

text \<open>
  C4: The code around a block is transparent. Called as the module calls it, with pointers aligned
  and frame, saved registers and args apart, the entry hands the translated code the user's
  registers from struct pt_regs. If the translated code turns them into \<open>F\<close>, keeps its frame and
  leaves at comp_syscall, ij_failed or exit, then the whole block returns to its caller with the
  callee-saved registers and the stack pointer as they were, every saved register it names is
  \<open>F\<close>, args[0] tells why it stopped, and no other memory than the frame, the named words of
  pt_regs and args is changed beyond what the translated code did.
\<close>

theorem block_transparent:
  assumes "called_ok c" and "l \<in> {''comp_syscall'', ''ij_failed'', ''exit''}" and "computes c jit l F M j"
  shows "\<exists>e. code_block_run jit c = Some e \<and> pc e = qm c (gp c Rsp) \<and> gp e Rsp = gp c Rsp + 8
    \<and> (\<forall>r \<in> set callee_saved. gp e r = gp c r)
    \<and> (\<forall>x. x \<noteq> PT_EFLAGS \<longrightarrow> qm e (ptq c (pt_slot x)) = F x) \<and> qm e (argq c 0) = j
    \<and> (\<forall>a. \<not> in_frame c a \<and> a \<notin> range (\<lambda>x. ptq c (pt_slot x)) \<union> {argq c 0, argq c 1} \<longrightarrow> qm e a = M a)"
proof -
  obtain d where d: "steps main_code c = Some d" "entered c d" using main_enters [OF assms(1)] by blast
  obtain d2 where j: "jit d = (l, d2)" and k: "keeps_frame c d2" and v: "\<And>x. x \<noteq> PT_EFLAGS \<Longrightarrow> vreg d2 x = F x"
    and m: "\<And>a. \<not> in_frame c a \<Longrightarrow> qm d2 a = M a" and r: "reason l d2 = j"
    using assms(3) d(2) unfolding computes_def by (metis prod.collapse)
  obtain e code where e: "code_at l = Some code" "steps code d2 = steps exit_code e" "keeps_frame c e"
    "qm e (opd_addr (Stk Stack_IJ) e) = j" "\<And>x. vreg e x = vreg d2 x" "\<And>a. \<not> in_frame c a \<Longrightarrow> qm e a = qm d2 a"
    using reason_code [OF assms(1) k assms(2)] r by metis
  show ?thesis
    using exit_runs [OF assms(1) e(3)] left_words [OF assms(1) e(3)] d(1) j e v m
    by (simp add: code_block_run_def callee_saved_def stk_0 [symmetric] del: opd_addr.simps)
qed

theorem block_transparent_witness:
  "\<exists>e. code_block_run jit0 cpu0 = Some e \<and> pc e = 100 \<and> gp e Rsp = 0x8008 \<and> gp e R14 = 5
     \<and> qm e 0x1050 = 39 \<and> qm e 0x1080 = 0x400100 \<and> qm e 0x1058 = 100 \<and> qm e 0x2000 = 0 \<and> qm e 0x3000 = 100"
proof -
  have ok: "called_ok cpu0" by code_simp
  have c: "computes cpu0 jit0 ''comp_syscall''
      (\<lambda>x. if x = PT_RIP then 0x400100 else if x = PT_RAX then 39 else user_word cpu0 x) (qm cpu0) 0"
  proof -
    have v: "vreg (snd (jit0 d)) x = (if x = PT_RIP then 0x400100 else if x = PT_RAX then 39 else vreg d x)" for d x
      by (cases x) (simp_all add: jit0_def)
    have k: "keeps_frame cpu0 d \<Longrightarrow> keeps_frame cpu0 (snd (jit0 d))" for d
      by (simp add: keeps_frame_def jit0_def)
    have m: "fst (jit0 d) = ''comp_syscall''" "qm (snd (jit0 d)) = qm d" for d by (simp_all add: jit0_def)
    show ?thesis unfolding computes_def entered_def v m reason_def using k by auto
  qed
  have f: "\<not> in_frame cpu0 0x3000" by code_simp
  have g: "0x3000 \<notin> range (\<lambda>x. ptq cpu0 (pt_slot x)) \<union> {argq cpu0 0, argq cpu0 1}"
  proof -
    have "0x3000 \<noteq> ptq cpu0 (pt_slot x)" for x by (cases x) (simp_all add: ptq_def cpu0_def)
    then show ?thesis by (auto simp: argq_def cpu0_def)
  qed
  have p: "ptq cpu0 (pt_slot PT_RAX) = 0x1050" "ptq cpu0 (pt_slot PT_RIP) = 0x1080" "ptq cpu0 (pt_slot PT_RCX) = 0x1058"
    "argq cpu0 0 = 0x2000" by (simp_all add: ptq_def argq_def cpu0_def)
  have u: "user_word cpu0 x = 100" "qm cpu0 a = 100" "gp cpu0 Rsp = 0x8000" "gp cpu0 R14 = 5" for x a
    by (simp_all add: user_word_def cpu0_def)
  obtain e where e: "code_block_run jit0 cpu0 = Some e" "pc e = qm cpu0 (gp cpu0 Rsp)" "gp e Rsp = gp cpu0 Rsp + 8"
    "\<forall>r \<in> set callee_saved. gp e r = gp cpu0 r"
    "\<forall>x. x \<noteq> PT_EFLAGS \<longrightarrow> qm e (ptq cpu0 (pt_slot x)) = (if x = PT_RIP then 0x400100 else if x = PT_RAX then 39 else user_word cpu0 x)"
    "qm e (argq cpu0 0) = 0"
    "\<forall>a. \<not> in_frame cpu0 a \<and> a \<notin> range (\<lambda>x. ptq cpu0 (pt_slot x)) \<union> {argq cpu0 0, argq cpu0 1} \<longrightarrow> qm e a = qm cpu0 a"
    using block_transparent [OF ok _ c] by auto
  show ?thesis
    using e(1-4) e(5) [rule_format, of PT_RAX] e(5) [rule_format, of PT_RIP] e(5) [rule_format, of PT_RCX] e(6)
      e(7) [rule_format, OF conjI, OF f g]
    by (intro exI [of _ e]) (simp add: p u callee_saved_def del: pt_slot.simps)
qed

section \<open>The allocator's moves on the machine\<close>

lemma slot_inj: "(b :: u64) - 8 * of_nat (stack_slot x) = b - 8 * of_nat (stack_slot y) \<longleftrightarrow> x = y"
  by (cases x; cases y; simp)

lemma phys_inj: "reg_of p = Some r \<Longrightarrow> reg_of q = Some r \<longleftrightarrow> p = q"
  by (auto simp: reg_of_def split: if_splits)

lemma slot_of_inj: "slot_of v = Some y \<Longrightarrow> slot_of w = Some y \<longleftrightarrow> v = w"
  by (auto simp: slot_of_def split: if_splits)

lemma phys_scratch: "reg_of p = Some r \<Longrightarrow> r \<in> set scratch_regs" 
  by (auto simp: reg_of_def scratch_regs_def split: if_splits)

lemma frame_store:
  assumes "slot_of v = Some y" and "reg_of p = Some r"
  shows "frame_of (c\<lparr>qm := (qm c)(opd_addr (Stk y) c := gp c r)\<rparr>) = exec1 (StoreSlot v p) (frame_of c)"
proof -
  have "(case slot_of w of Some z \<Rightarrow> ((qm c)(opd_addr (Stk y) c := gp c r)) (gp c Rbp - 8 * of_nat (stack_slot z)) | None \<Rightarrow> 0)
      = ((\<lambda>v. case slot_of v of Some y \<Rightarrow> qm c (opd_addr (Stk y) c) | None \<Rightarrow> 0)(v := gp c r)) w" for w
    using assms(1) slot_of_inj [OF assms(1), of w] by (auto simp: slot_inj split: option.splits)
  then show ?thesis using assms by (auto simp: frame_of_def exec1_def fun_eq_iff cong: option.case_cong)
qed

lemma frame_load:
  assumes "reg_of p = Some r"
  shows "frame_of (c\<lparr>gp := (gp c)(r := x)\<rparr>) = (frame_of c)\<lparr>ph := (ph (frame_of c))(p := x)\<rparr>"
proof -
  have n: "r \<noteq> Rbp" using phys_scratch [OF assms] by (auto simp: scratch_regs_def)
  have "(case reg_of q of Some r' \<Rightarrow> ((gp c)(r := x)) r' | None \<Rightarrow> 0)
      = ((\<lambda>p. case reg_of p of Some r \<Rightarrow> gp c r | None \<Rightarrow> 0)(p := x)) q" for q
    using assms phys_inj [OF assms, of q] by (auto split: option.splits)
  then show ?thesis using n by (auto simp: frame_of_def fun_eq_iff cong: option.case_cong)
qed

lemma alloc_step:
  assumes "gp c Rbp mod 8 = 0" and "asm_of t = Some i"
  shows "\<exists>d. step1 i c = Some d \<and> frame_of d = exec1 t (frame_of c) \<and> (\<forall>r. r \<notin> set scratch_regs \<longrightarrow> gp d r = gp c r)
    \<and> (\<forall>a. a \<notin> range (\<lambda>y. gp c Rbp - 8 * of_nat (stack_slot y)) \<longrightarrow> qm d a = qm c a)"
proof -
  have al: "(gp c Rbp - 8 * of_nat k) mod 8 = 0" for k using mod8_plus [OF assms(1), of "- of_nat k"] by simp
  show ?thesis
  proof (cases t)
    case (StoreSlot v p)
    then obtain y r where v: "slot_of v = Some y" "reg_of p = Some r" and i: "i = Mov (Stk y) (Rg r)"
      using assms(2) by (auto simp: asm_of_def split: option.splits)
    then show ?thesis using StoreSlot frame_store [OF v, of c]
      by (intro exI [of _ "c\<lparr>qm := (qm c)(opd_addr (Stk y) c := gp c r)\<rparr>"]) (auto simp: mach al)
  next
    case (LoadSlot p v)
    then obtain y r where v: "slot_of v = Some y" "reg_of p = Some r" and i: "i = Mov (Rg r) (Stk y)"
      using assms(2) by (auto simp: asm_of_def split: option.splits)
    then show ?thesis using LoadSlot frame_load [OF v(2), of c "qm c (opd_addr (Stk y) c)"] phys_scratch [OF v(2)]
      by (intro exI [of _ "c\<lparr>gp := (gp c)(r := qm c (opd_addr (Stk y) c))\<rparr>"]) (auto simp: mach al exec1_def frame_of_def)
  next
    case (Movabs p n)
    then obtain r where v: "reg_of p = Some r" and i: "i = Movi (Rg r) (of_int n)"
      using assms(2) by (auto simp: asm_of_def)
    then show ?thesis using Movabs frame_load [OF v, of c "of_int n"] phys_scratch [OF v]
      by (intro exI [of _ "c\<lparr>gp := (gp c)(r := of_int n)\<rparr>"]) (auto simp: mach exec1_def frame_of_def)
  qed (use assms(2) in \<open>simp_all add: asm_of_def\<close>)
qed



end
