(* ===== verification/Indirect_Jump.thy ===== *)
theory Indirect_Jump
  imports Assist
begin

text \<open>
  Indirect control transfer (\<open>zz_disassem/indirect_jump.py\<close>): which return addresses a \<open>RET\<close> may
  jump to, the table of compares that replaces an indirect jump, and the exits for callees that
  were not disassembled. A basic block is its lines and the addresses of its successors (\<open>bto\<close>);
  the dictionaries are association lists in insertion order. The depth first search gets fuel; the
  lemmas below give a bound that is enough.
\<close>

section \<open>Data\<close>

record block =
  b_lines :: "asm_line list"
  b_bto :: "int list"

type_synonym blocks = "(int \<times> block) list"

type_synonym jump_table = "(int \<times> int list) list"

datatype 'a jres = Done 'a | KeyErr | NoFuel

section \<open>Labels\<close>

definition hex_val :: "char \<Rightarrow> int" where
  "hex_val c = (let n = (of_char c :: int)
     in if 48 \<le> n \<and> n \<le> 57 then n - 48 else if 97 \<le> n \<and> n \<le> 102 then n - 87
        else if 65 \<le> n \<and> n \<le> 70 then n - 55 else 0)"

text \<open>\<open>int(s, 16)\<close> of a string of hexadecimal digits.\<close>

definition parse_hex :: "string \<Rightarrow> int" where
  "parse_hex s = foldl (\<lambda>a c. a * 16 + hex_val c) 0 s"

text \<open>\<open>label.split('_')[1]\<close>, as a number.\<close>

definition loc_offset :: "string \<Rightarrow> int" where
  "loc_offset l = parse_hex (takeWhile (\<lambda>c. c \<noteq> CHR ''_'') (drop 1 (dropWhile (\<lambda>c. c \<noteq> CHR ''_'') l)))"

section \<open>Return addresses\<close>

definition jt_touch :: "int \<Rightarrow> jump_table \<Rightarrow> jump_table" where
  "jt_touch ofs jt = (if ofs \<in> fst ` set jt then jt else jt @ [(ofs, [])])"

definition jt_append :: "int \<Rightarrow> int \<Rightarrow> jump_table \<Rightarrow> jump_table" where
  "jt_append ofs r jt = map (\<lambda>(k, ts). (k, if k = ofs then ts @ [r] else ts)) (jt_touch ofs jt)"

fun dfs_lines :: "asm_line list \<Rightarrow> int \<Rightarrow> int \<Rightarrow> jump_table \<Rightarrow> jump_table" where
  "dfs_lines [] offset ret_addr jt = jt"
| "dfs_lines (line # lines) offset ret_addr jt =
     (let o1 = offset + l_len line
      in dfs_lines lines o1 ret_addr (if l_name line = ''RET'' then jt_append o1 ret_addr jt else jt))"

function (sequential) dfs :: "nat \<Rightarrow> int \<Rightarrow> blocks \<Rightarrow> int \<Rightarrow> int list \<times> jump_table \<Rightarrow> (int list \<times> jump_table) jres"
and dfs_forks :: "nat \<Rightarrow> int list \<Rightarrow> blocks \<Rightarrow> int \<Rightarrow> int list \<times> jump_table \<Rightarrow> (int list \<times> jump_table) jres" where
  "dfs 0 entry blocks ret_addr st = NoFuel"
| "dfs (Suc n) entry blocks ret_addr st =
     (case map_of blocks entry of
        None \<Rightarrow> KeyErr
      | Some b \<Rightarrow> dfs_forks n (b_bto b) blocks ret_addr
                   (fst st, dfs_lines (b_lines b) entry ret_addr (snd st)))"
| "dfs_forks n [] blocks ret_addr st = Done st"
| "dfs_forks n (tgt # ts) blocks ret_addr st =
     (if tgt \<in> set (fst st) then dfs_forks n ts blocks ret_addr st
      else case dfs n tgt blocks ret_addr (tgt # fst st, snd st) of
             Done st1 \<Rightarrow> dfs_forks n ts blocks ret_addr st1
           | KeyErr \<Rightarrow> KeyErr
           | NoFuel \<Rightarrow> NoFuel)"
  by pat_completeness auto

termination
  by (relation "measures [\<lambda>x. case x of Inl (n, _) \<Rightarrow> n | Inr (n, _) \<Rightarrow> n,
      \<lambda>x. case x of Inl _ \<Rightarrow> 0 | Inr (_, ts, _) \<Rightarrow> Suc (length ts)]") auto

text \<open>A line that transfers control to an address not known when the code is translated.\<close>

definition is_loc :: "expr \<Rightarrow> bool" where
  "is_loc e = (case e of ExprLoc l \<Rightarrow> True | _ \<Rightarrow> False)"

definition indirect_line :: "asm_line \<Rightarrow> bool" where
  "indirect_line line \<longleftrightarrow>
     (hd (l_name line) = CHR ''J'' \<or> l_name line = ''CALL'') \<and> \<not> is_loc (hd (l_args line)) \<or> l_name line = ''RET''"

fun find_lines ::
  "nat \<Rightarrow> blocks \<Rightarrow> asm_line list \<Rightarrow> int \<Rightarrow> int list \<times> jump_table \<Rightarrow> (int list \<times> jump_table) jres" where
  "find_lines n blocks [] offset st = Done st"
| "find_lines n blocks (line # lines) offset st =
     (let o1 = offset + l_len line in
      if l_name line = ''CALL'' \<and> is_loc (hd (l_args line))
      then let callee = (case hd (l_args line) of ExprLoc l \<Rightarrow> loc_offset l | _ \<Rightarrow> 0)
        in if callee \<in> fst ` set blocks
           then case dfs n callee blocks o1 ([], snd st) of
                  Done r \<Rightarrow> find_lines n blocks lines o1 (fst st, snd r)
                | KeyErr \<Rightarrow> KeyErr
                | NoFuel \<Rightarrow> NoFuel
           else find_lines n blocks lines o1 (List.insert callee (fst st), snd st)
      else if indirect_line line then find_lines n blocks lines o1 (fst st, jt_touch o1 (snd st))
      else find_lines n blocks lines o1 st)"

fun find_blocks :: "nat \<Rightarrow> blocks \<Rightarrow> blocks \<Rightarrow> int list \<times> jump_table \<Rightarrow> (int list \<times> jump_table) jres" where
  "find_blocks n blocks [] st = Done st"
| "find_blocks n blocks ((offset, b) # bs) st =
     (case find_lines n blocks (b_lines b) offset st of
        Done st1 \<Rightarrow> find_blocks n blocks bs st1
      | KeyErr \<Rightarrow> KeyErr
      | NoFuel \<Rightarrow> NoFuel)"

text \<open>The callees that are missing, and the jump table.\<close>

definition find_ij :: "nat \<Rightarrow> blocks \<Rightarrow> jump_table \<Rightarrow> (int list \<times> jump_table) jres" where
  "find_ij n blocks pre_jump_table = find_blocks n blocks blocks ([], pre_jump_table)"

section \<open>Tables in the output\<close>

definition loc_label :: "int \<Rightarrow> string" where
  "loc_label ofs = ''loc_'' @ drop 2 (py_hex ofs)"

definition ij_label :: "int \<Rightarrow> string" where
  "ij_label ofs = ''ij_'' @ drop 2 (py_hex ofs)"

definition jump_entry :: "int \<Rightarrow> int list \<Rightarrow> tinst list" where
  "jump_entry offset targets =
     concat (map (\<lambda>t. [Movabs ''15'' t, Inst ''CMP'' [Str ''R14'', Str ''R15''], Inst ''JZ'' [Str (loc_label t)]]) targets)
     @ [Movabs ''15'' offset, Inst ''JMP'' [Str ''ij_failed'']]"

definition make_jump_table :: "jump_table \<Rightarrow> tinst list" where
  "make_jump_table jt =
     concat (map (\<lambda>(ofs, ts). [Line (ij_label ofs @ '':'')] @ jump_entry ofs ts @ [Line '''']) jt)"

definition make_callee_table :: "int list \<Rightarrow> tinst list" where
  "make_callee_table cs =
     concat (map (\<lambda>ofs. [Line (loc_label ofs @ '':''), Movabs ''14'' ofs, Inst ''MOV'' [Str ''Stack_IJ'', Str ''0x1''],
       Inst ''JMP'' [Str ''exit''], Line '''']) cs)"

section \<open>Running an entry of the jump table\<close>

text \<open>R14 holds the target; where control goes, and what R15 holds then.\<close>

fun run_entry :: "tinst list \<Rightarrow> u64 \<Rightarrow> u64 \<Rightarrow> bool \<Rightarrow> (string \<times> u64) option" where
  "run_entry [] r14 r15 zf = None"
| "run_entry (Movabs p i # c) r14 r15 zf = run_entry c r14 (if p = ''15'' then of_int i else r15) zf"
| "run_entry (Inst n as # c) r14 r15 zf =
     (if n = ''CMP'' then run_entry c r14 r15 (r14 = r15)
      else case as of
             [Str l] \<Rightarrow> if n = ''JMP'' \<or> n = ''JZ'' \<and> zf then Some (l, r15) else run_entry c r14 r15 zf
           | _ \<Rightarrow> None)"
| "run_entry (StoreSlot v p # c) r14 r15 zf = None"
| "run_entry (LoadSlot p v # c) r14 r15 zf = None"
| "run_entry (Line l # c) r14 r15 zf = None"

section \<open>What is said of it\<close>

fun line_ends :: "asm_line list \<Rightarrow> int \<Rightarrow> (asm_line \<times> int) list" where
  "line_ends [] offset = []"
| "line_ends (l # ls) offset = (l, offset + l_len l) # line_ends ls (offset + l_len l)"

definition ret_ends :: "block \<Rightarrow> int \<Rightarrow> int set" where
  "ret_ends b entry = {x. \<exists>k. (k, x) \<in> set (line_ends (b_lines b) entry) \<and> l_name k = ''RET''}"

definition edges :: "blocks \<Rightarrow> (int \<times> int) set" where
  "edges bl = {(a, b). \<exists>blk. map_of bl a = Some blk \<and> b \<in> set (b_bto blk)}"

definition closed :: "blocks \<Rightarrow> bool" where
  "closed bl \<longleftrightarrow> list_all (\<lambda>(k, b). list_all (\<lambda>t. t \<in> fst ` set bl) (b_bto b)) bl"

definition recorded :: "jump_table \<Rightarrow> int \<Rightarrow> int set \<Rightarrow> bool" where
  "recorded jt r S \<longleftrightarrow> (\<forall>x \<in> S. \<exists>ts. map_of jt x = Some ts \<and> r \<in> set ts)"

definition grows :: "jump_table \<Rightarrow> jump_table \<Rightarrow> bool" where
  "grows jt jt' \<longleftrightarrow> (\<forall>x ts. map_of jt x = Some ts \<longrightarrow> (\<exists>us. map_of jt' x = Some us \<and> set ts \<subseteq> set us))"

text \<open>A block that has been dealt with: its returns are recorded and its successors visited.\<close>

definition node_ok :: "blocks \<Rightarrow> int \<Rightarrow> int set \<Rightarrow> jump_table \<Rightarrow> int \<Rightarrow> bool" where
  "node_ok bl r V jt t \<longleftrightarrow> (\<exists>b. map_of bl t = Some b \<and> set (b_bto b) \<subseteq> V \<and> recorded jt r (ret_ends b t))"

definition direct_call :: "asm_line \<Rightarrow> bool" where
  "direct_call line \<longleftrightarrow> l_name line = ''CALL'' \<and> is_loc (hd (l_args line))"

definition callee_of :: "asm_line \<Rightarrow> int" where
  "callee_of line = (case hd (l_args line) of ExprLoc l \<Rightarrow> loc_offset l | _ \<Rightarrow> 0)"

text \<open>What the result must say of a line that ends at \<open>x\<close>.\<close>

definition found :: "blocks \<Rightarrow> int list \<times> jump_table \<Rightarrow> asm_line \<Rightarrow> int \<Rightarrow> bool" where
  "found bl st l x \<longleftrightarrow>
     (if direct_call l
      then if callee_of l \<in> fst ` set bl
           then \<forall>t b. (callee_of l, t) \<in> (edges bl)\<^sup>* \<longrightarrow> map_of bl t = Some b \<longrightarrow> recorded (snd st) x (ret_ends b t)
           else callee_of l \<in> set (fst st)
      else indirect_line l \<longrightarrow> x \<in> fst ` set (snd st))"

definition extends :: "int list \<times> jump_table \<Rightarrow> int list \<times> jump_table \<Rightarrow> bool" where
  "extends st st' \<longleftrightarrow> set (fst st) \<subseteq> set (fst st') \<and> grows (snd st) (snd st')"

text \<open>A caller and a callee of two blocks, the second of which loops back to the first.\<close>

definition blocks0 :: blocks where
  "blocks0 =
     [(4096, \<lparr>b_lines = [line0 ''CALL'' [ExprLoc ''loc_2000''], line0 ''JMP'' [ExprId ''RAX'' 64]], b_bto = []\<rparr>),
      (8192, \<lparr>b_lines = [line0 ''JZ'' [ExprLoc ''loc_2000'']], b_bto = [8192, 8194]\<rparr>),
      (8194, \<lparr>b_lines = [line0 ''RET'' []], b_bto = []\<rparr>)]"

text \<open>
  C35: the compare chain that \<open>make_jump_table\<close> emits for one indirect transfer dispatches correctly:
  with the target address in \<open>R14\<close> it jumps to the translated block of the first known target equal
  to it, and to \<open>ij_failed\<close> with the offset of the transfer in \<open>R15\<close> when none is, for every list of
  targets and whatever \<open>R15\<close> and the zero flag were.
\<close>

theorem jump_entry_dispatch:
  "run_entry (jump_entry offset targets) r14 r15 zf =
     Some (case List.find (\<lambda>t. of_int t = r14) targets of
             Some t \<Rightarrow> (loc_label t, r14)
           | None \<Rightarrow> (''ij_failed'', of_int offset))"
  unfolding jump_entry_def by (induction targets arbitrary: r15 zf) auto

section \<open>What the search finds\<close>

lemma grows_refl: "grows jt jt"
  by (auto simp: grows_def)

lemma grows_trans: "grows a b \<Longrightarrow> grows b c \<Longrightarrow> grows a c"
  unfolding grows_def by (meson order_trans)

lemma recorded_grows: "recorded jt r S \<Longrightarrow> grows jt jt' \<Longrightarrow> recorded jt' r S"
  unfolding recorded_def grows_def by (meson subsetD)

lemma map_of_touch: "map_of (jt_touch x jt) k = (if k = x \<and> map_of jt x = None then Some [] else map_of jt k)"
proof (cases "x \<in> fst ` set jt")
  case True
  then have "map_of jt x \<noteq> None" by (simp add: map_of_eq_None_iff)
  with True show ?thesis by (simp add: jt_touch_def)
next
  case False
  then have "map_of jt x = None" by (simp add: map_of_eq_None_iff)
  with False show ?thesis by (simp add: jt_touch_def map_add_def split: option.split)
qed

lemma map_of_jt_append:
  "map_of (jt_append x r jt) k = (if k = x then Some ((case map_of jt x of None \<Rightarrow> [] | Some ts \<Rightarrow> ts) @ [r]) else map_of jt k)"
proof -
  have "map_of (map (\<lambda>(k, ts). (k, if k = x then ts @ [r] else ts)) j) k
      = map_option (\<lambda>ts. if k = x then ts @ [r] else ts) (map_of j k)" for j :: jump_table
    by (induction j) auto
  then show ?thesis by (simp add: jt_append_def map_of_touch option.map_ident split: option.split)
qed

lemma touch_grows: "grows jt (jt_touch x jt)"
  by (auto simp: grows_def map_of_touch)

lemma append_grows: "grows jt (jt_append x r jt)"
  by (simp add: grows_def map_of_jt_append subset_insertI)

lemma append_recorded: "recorded (jt_append x r jt) r {x}"
proof -
  have "map_of (jt_append x r jt) x = Some ((case map_of jt x of None \<Rightarrow> [] | Some ts \<Rightarrow> ts) @ [r])"
    by (simp add: map_of_jt_append)
  moreover have "r \<in> set (ts @ [r])" for ts by simp
  ultimately show ?thesis unfolding recorded_def by blast
qed

lemma dfs_lines_ok:
  "grows jt (dfs_lines ls offset r jt)
   \<and> recorded (dfs_lines ls offset r jt) r ({x. \<exists>k. (k, x) \<in> set (line_ends ls offset) \<and> l_name k = ''RET''})"
proof (induction ls arbitrary: offset jt)
  case Nil
  then show ?case by (simp add: grows_refl recorded_def)
next
  case (Cons l ls)
  let ?x = "offset + l_len l"
  let ?jt = "if l_name l = ''RET'' then jt_append ?x r jt else jt"
  note IH = Cons [of ?jt ?x]
  have g: "grows jt ?jt" by (simp add: grows_refl append_grows)
  have "recorded (dfs_lines ls ?x r ?jt) r {?x}" if "l_name l = ''RET''"
    using recorded_grows [OF append_recorded] IH that by auto
  moreover have "{x. \<exists>k. (k, x) \<in> set (line_ends (l # ls) offset) \<and> l_name k = ''RET''} =
      (if l_name l = ''RET'' then {?x} else {}) \<union> {x. \<exists>k. (k, x) \<in> set (line_ends ls ?x) \<and> l_name k = ''RET''}"
    by auto
  ultimately show ?case using IH grows_trans [OF g] by (auto simp: recorded_def Let_def)
qed

lemma node_ok_mono: "node_ok bl r V jt t \<Longrightarrow> V \<subseteq> V' \<Longrightarrow> grows jt jt' \<Longrightarrow> node_ok bl r V' jt' t"
  unfolding node_ok_def by (meson order_trans recorded_grows)

lemma dfs_ok:
  "dfs n entry bl r st = Done st' \<Longrightarrow>
     set (fst st) \<subseteq> set (fst st') \<and> grows (snd st) (snd st') \<and> node_ok bl r (set (fst st')) (snd st') entry
     \<and> (\<forall>t \<in> set (fst st') - set (fst st). node_ok bl r (set (fst st')) (snd st') t)"
  and dfs_forks_ok:
  "dfs_forks n ts bl r st = Done st' \<Longrightarrow>
     set (fst st) \<union> set ts \<subseteq> set (fst st') \<and> grows (snd st) (snd st')
     \<and> (\<forall>t \<in> set (fst st') - set (fst st). node_ok bl r (set (fst st')) (snd st') t)"
proof (induction n entry bl r st and n ts bl r st arbitrary: st' and st' rule: dfs_dfs_forks.induct)
  case (2 n entry bl r st)
  then obtain b where b: "map_of bl entry = Some b"
    and f: "dfs_forks n (b_bto b) bl r (fst st, dfs_lines (b_lines b) entry r (snd st)) = Done st'"
    by (auto split: option.splits)
  let ?jt = "dfs_lines (b_lines b) entry r (snd st)"
  have l: "grows (snd st) ?jt" "recorded ?jt r (ret_ends b entry)"
    using dfs_lines_ok [of "snd st" "b_lines b" entry r] by (auto simp: ret_ends_def)
  note IH = 2(1) [OF b f, simplified]
  have "node_ok bl r (set (fst st')) (snd st') entry"
    unfolding node_ok_def using b IH recorded_grows [OF l(2)] by blast
  with IH grows_trans [OF l(1)] show ?case by blast
next
  case (4 n tgt ts bl r st)
  show ?case
  proof (cases "tgt \<in> set (fst st)")
    case True
    with 4(1) [OF True, of st'] 4(4) show ?thesis by auto
  next
    case False
    then obtain st1 where d: "dfs n tgt bl r (tgt # fst st, snd st) = Done st1"
      and f: "dfs_forks n ts bl r st1 = Done st'"
      using 4(4) by (auto split: jres.splits)
    note D = 4(2) [OF False d, simplified] and F = 4(3) [OF False d f]
    have "node_ok bl r (set (fst st')) (snd st') t" if "t \<in> set (fst st') - set (fst st)" for t
    proof (cases "t \<in> set (fst st1)")
      case True
      with that D have "node_ok bl r (set (fst st1)) (snd st1) t" by blast
      with F node_ok_mono show ?thesis by blast
    next
      case False
      with that F show ?thesis by blast
    qed
    with D F grows_trans [of "snd st" "snd st1" "snd st'"] show ?thesis by auto
  qed
qed (auto simp: grows_refl)

lemma dfs_fuel:
  "closed bl \<Longrightarrow> entry \<in> fst ` set bl \<Longrightarrow> n > card (fst ` set bl - set (fst st)) \<Longrightarrow> \<exists>st'. dfs n entry bl r st = Done st'"
  and dfs_forks_fuel:
  "closed bl \<Longrightarrow> set ts \<subseteq> fst ` set bl \<Longrightarrow> n \<ge> card (fst ` set bl - set (fst st)) \<Longrightarrow> \<exists>st'. dfs_forks n ts bl r st = Done st'"
proof (induction n entry bl r st and n ts bl r st rule: dfs_dfs_forks.induct)
  case (2 n entry bl r st)
  then obtain b where b: "map_of bl entry = Some b" by (metis map_of_eq_None_iff not_None_eq)
  have "set (b_bto b) \<subseteq> fst ` set bl"
    using 2(2) map_of_SomeD [OF b] by (fastforce simp: closed_def list_all_iff)
  with 2(1) [OF b 2(2)] 2(4) b show ?case by simp
next
  case (4 n tgt ts bl r st)
  show ?case
  proof (cases "tgt \<in> set (fst st)")
    case True
    with 4(1) [OF True] 4(4-6) show ?thesis by simp
  next
    case False
    have t: "tgt \<in> fst ` set bl - set (fst st)" using False 4(5) by simp
    have "card (fst ` set bl - set (tgt # fst st)) < card (fst ` set bl - set (fst st))"
      by (rule psubset_card_mono) (use t in auto)
    then obtain st1 where d: "dfs n tgt bl r (tgt # fst st, snd st) = Done st1"
      using 4(2) [OF False 4(4)] 4(5,6) by fastforce
    have "set (fst st) \<subseteq> set (fst st1)" using dfs_ok [OF d] by auto
    then have "card (fst ` set bl - set (fst st1)) \<le> card (fst ` set bl - set (fst st))"
      by (intro card_mono) auto
    with 4(3) [OF False d 4(4)] 4(5,6) False d show ?thesis by fastforce
  qed
qed auto

lemma extends_refl: "extends st st"
  by (simp add: extends_def grows_refl)

lemma extends_trans: "extends a b \<Longrightarrow> extends b c \<Longrightarrow> extends a c"
  unfolding extends_def using grows_trans by blast

lemma grows_keys: "grows jt jt' \<Longrightarrow> x \<in> fst ` set jt \<Longrightarrow> x \<in> fst ` set jt'"
  unfolding grows_def by (metis map_of_eq_None_iff not_None_eq)

lemma found_extends:
  assumes "extends st st'" and "found bl st l x"
  shows "found bl st' l x"
  using assms recorded_grows [of "snd st" x _ "snd st'"] grows_keys [of "snd st" "snd st'" x]
  unfolding found_def extends_def by (simp split: if_splits) blast+

lemma dfs_reach:
  assumes "dfs n entry bl r ([], jt) = Done st'" and "(entry, t) \<in> (edges bl)\<^sup>*" and "map_of bl t = Some b"
  shows "recorded (snd st') r (ret_ends b t)"
proof -
  note D = dfs_ok [OF assms(1), simplified]
  have "t = entry \<or> t \<in> set (fst st')" using assms(2)
  proof induction
    case (step y z)
    then have "node_ok bl r (set (fst st')) (snd st') y" using D by blast
    with step(2) show ?case by (auto simp: node_ok_def edges_def)
  qed simp
  with D have "node_ok bl r (set (fst st')) (snd st') t" by blast
  with assms(3) show ?thesis by (simp add: node_ok_def)
qed

lemma find_lines_ok:
  assumes "closed bl" and "n > card (fst ` set bl)"
  shows "\<exists>st'. find_lines n bl ls offset st = Done st' \<and> extends st st'
    \<and> (\<forall>(l, x) \<in> set (line_ends ls offset). found bl st' l x)"
proof (induction ls arbitrary: offset st)
  case Nil
  then show ?case by (simp add: extends_refl)
next
  case (Cons l ls)
  let ?x = "offset + l_len l"
  have step: "\<exists>st1. find_lines n bl (l # ls) offset st = find_lines n bl ls ?x st1 \<and> extends st st1 \<and> found bl st1 l ?x"
  proof (cases "direct_call l")
    case True
    then have d: "l_name l = ''CALL''" "is_loc (hd (l_args l))" by (auto simp: direct_call_def)
    show ?thesis
    proof (cases "callee_of l \<in> fst ` set bl")
      case callee: True
      obtain r where r: "dfs n (callee_of l) bl ?x ([], snd st) = Done r"
        using dfs_fuel [OF assms(1) callee, of "([], snd st)" n ?x] assms(2) by auto
      have "grows (snd st) (snd r)" using dfs_ok [OF r] by simp
      moreover have "found bl (fst st, snd r) l ?x" using True callee dfs_reach [OF r] by (simp add: found_def)
      ultimately show ?thesis
        using d callee r by (intro exI [of _ "(fst st, snd r)"]) (simp add: callee_of_def Let_def extends_def)
    next
      case False
      with d True show ?thesis
        by (intro exI [of _ "(List.insert (callee_of l) (fst st), snd st)"])
          (auto simp: callee_of_def Let_def extends_def grows_refl found_def)
    qed
  next
    case False
    then have nd: "(l_name l = ''CALL'' \<and> is_loc (hd (l_args l))) = False" by (simp add: direct_call_def)
    show ?thesis
    proof (cases "indirect_line l")
      case True
      have "?x \<in> fst ` set (jt_touch ?x (snd st))" by (auto simp: jt_touch_def)
      with True nd False touch_grows show ?thesis
        by (intro exI [of _ "(fst st, jt_touch ?x (snd st))"])
          (simp only: find_lines.simps Let_def nd if_False if_True extends_def found_def fst_conv snd_conv, simp)
    next
      case ni: False
      with False show ?thesis
        by (intro exI [of _ st]) (simp only: find_lines.simps Let_def nd if_False extends_refl found_def, simp)
    qed
  qed
  then obtain st1 where s: "find_lines n bl (l # ls) offset st = find_lines n bl ls ?x st1" "extends st st1" "found bl st1 l ?x"
    by blast
  obtain st' where s': "find_lines n bl ls ?x st1 = Done st'" "extends st1 st'"
    "\<forall>(l, x) \<in> set (line_ends ls ?x). found bl st' l x"
    using Cons [of ?x st1] by blast
  have "found bl st' l ?x" by (rule found_extends [OF s'(2) s(3)])
  with s s' extends_trans [OF s(2) s'(2)] show ?case by (intro exI [of _ st']) simp
qed

lemma find_blocks_ok:
  assumes "closed bl" and "n > card (fst ` set bl)"
  shows "\<exists>st'. find_blocks n bl bs st = Done st' \<and> extends st st'
    \<and> (\<forall>(k, b) \<in> set bs. \<forall>(l, x) \<in> set (line_ends (b_lines b) k). found bl st' l x)"
proof (induction bs arbitrary: st)
  case Nil
  then show ?case by (simp add: extends_refl)
next
  case (Cons y bs)
  obtain k b where y: "y = (k, b)" by fastforce
  obtain st1 where 1: "find_lines n bl (b_lines b) k st = Done st1" "extends st st1"
    "\<forall>(l, x) \<in> set (line_ends (b_lines b) k). found bl st1 l x"
    using find_lines_ok [OF assms] by blast
  obtain st' where 2: "find_blocks n bl bs st1 = Done st'" "extends st1 st'"
    "\<forall>(k, b) \<in> set bs. \<forall>(l, x) \<in> set (line_ends (b_lines b) k). found bl st' l x"
    using Cons [of st1] by blast
  have "\<forall>(l, x) \<in> set (line_ends (b_lines b) k). found bl st' l x"
    using 1(3) found_extends [OF 2(2)] by blast
  with 1 2 extends_trans [OF 1(2) 2(2)] show ?case by (intro exI [of _ st']) (simp add: y)
qed

text \<open>
  C8: the search for indirect transfers terminates and is complete. When every successor of a block
  is itself a known block, fuel above the number of blocks is enough for \<open>find\<close> to return, earlier
  entries of the jump table survive, and every line of every block is treated: for a direct call
  with a known callee, each \<open>RET\<close> in each block that can be reached from the callee lists the call's
  return address; a direct call with an unknown callee is reported as missing; and every indirect
  jump, indirect call and return has an entry of the table at its end offset.
\<close>

theorem find_complete:
  assumes "closed bl" and "n > card (fst ` set bl)"
  shows "\<exists>missing jt. find_ij n bl jt0 = Done (missing, jt) \<and> grows jt0 jt
    \<and> (\<forall>(k, b) \<in> set bl. \<forall>(l, x) \<in> set (line_ends (b_lines b) k). found bl (missing, jt) l x)"
proof -
  obtain st where "find_blocks n bl bl ([], jt0) = Done st" "extends ([], jt0) st"
    "\<forall>(k, b) \<in> set bl. \<forall>(l, x) \<in> set (line_ends (b_lines b) k). found bl st l x"
    using find_blocks_ok [OF assms] by blast
  then show ?thesis by (cases st) (simp add: find_ij_def extends_def)
qed

theorem find_complete_witness:
  "find_ij 4 blocks0 [] = Done ([], [(8196, [4098]), (4100, [])])
   \<and> found blocks0 ([], [(8196, [4098]), (4100, [])]) (line0 ''CALL'' [ExprLoc ''loc_2000'']) 4098
   \<and> found blocks0 ([], [(8196, [4098]), (4100, [])]) (line0 ''JMP'' [ExprId ''RAX'' 64]) 4100"
proof -
  have c: "closed blocks0" by code_simp
  have n: "(4::nat) > card (fst ` set blocks0)" by (simp add: blocks0_def)
  have e: "find_ij 4 blocks0 [] = Done ([], [(8196, [4098]), (4100, [])])" by code_simp
  note F = find_complete [OF c n, of "[]", unfolded e]
  have "\<forall>(k, b) \<in> set blocks0. \<forall>(l, x) \<in> set (line_ends (b_lines b) k). found blocks0 ([], [(8196, [4098]), (4100, [])]) l x"
    using F by simp
  then show ?thesis using e by (simp add: blocks0_def line0_def)
qed

end
