(* ===== verification/Memread.thy ===== *)
theory Memread
  imports Indirect_Jump
begin

text \<open>
  Reading the process to be translated (\<open>zz_disassem/memread.py\<close>): its executable mappings from
  \<open>/proc/PID/maps\<close>, the misses recorded so far (\<open>ij_table.txt\<close>, \<open>callee_table.txt\<close>), the code
  that holds all targets from \<open>/proc/PID/mem\<close>. Files are their contents (\<open>None\<close>: not there). The
  order in which Python walks a set is a parameter, as in the allocator.
\<close>

section \<open>Text\<close>

definition is_ws :: "char \<Rightarrow> bool" where
  "is_ws ch \<longleftrightarrow> (let n = (of_char ch :: nat) in 9 \<le> n \<and> n \<le> 13 \<or> 28 \<le> n \<and> n \<le> 32 \<or> n = 133 \<or> n = 160)"

definition is_eol :: "char \<Rightarrow> bool" where
  "is_eol ch \<longleftrightarrow> (let n = (of_char ch :: nat) in 10 \<le> n \<and> n \<le> 13 \<or> 28 \<le> n \<and> n \<le> 30 \<or> n = 133)"

text \<open>The pieces between characters \<open>p\<close>, as \<open>s.split(c)\<close>.\<close>

function split_at :: "(char \<Rightarrow> bool) \<Rightarrow> string \<Rightarrow> string list" where
  "split_at p s = (let a = takeWhile (\<lambda>ch. \<not> p ch) s
     in case dropWhile (\<lambda>ch. \<not> p ch) s of [] \<Rightarrow> [a] | b # bs \<Rightarrow> a # split_at p bs)"
  by pat_completeness auto

termination
proof (relation "measure (\<lambda>(p, s). length s)")
  fix p :: "char \<Rightarrow> bool" and s a b bs
  assume "dropWhile (\<lambda>ch. \<not> p ch) s = b # bs"
  then have "length (b # bs) \<le> length s" using length_dropWhile_le [of "\<lambda>ch. \<not> p ch" s] by simp
  then show "((p, bs), p, s) \<in> measure (\<lambda>(p, s). length s)" by simp
qed simp

declare split_at.simps [simp del]

text \<open>A file read in text mode: all ends of lines become one newline character.\<close>

function text_mode :: "string \<Rightarrow> string" where
  "text_mode [] = []"
| "text_mode (c # t) =
     (if c = CHR 0x0D then CHR 0x0A # text_mode (if t \<noteq> [] \<and> hd t = CHR 0x0A then tl t else t)
      else c # text_mode t)"
  by pat_completeness auto

termination by (relation "measure length") auto

text \<open>\<open>s.split()\<close>, and \<open>s.splitlines()\<close>, where the end of the last line begins no other.\<close>

definition split_ws :: "string \<Rightarrow> string list" where
  "split_ws s = filter (\<lambda>w. w \<noteq> []) (split_at is_ws s)"

definition splitlines :: "string \<Rightarrow> string list" where
  "splitlines s = (let ls = split_at is_eol s in if last ls = [] then butlast ls else ls)"

text \<open>\<open>int(s, 16)\<close>: white space around, a sign, the prefix 0x, digits; \<open>None\<close> is a \<open>ValueError\<close>.\<close>

definition is_hex :: "char \<Rightarrow> bool" where
  "is_hex ch \<longleftrightarrow> (let n = (of_char ch :: nat) in 48 \<le> n \<and> n \<le> 57 \<or> 97 \<le> n \<and> n \<le> 102 \<or> 65 \<le> n \<and> n \<le> 70)"

fun hex_body :: "string \<Rightarrow> string option" where
  "hex_body [] = None"
| "hex_body [d] = (if is_hex d then Some [d] else None)"
| "hex_body (d # CHR ''_'' # t) = (if is_hex d then map_option (Cons d) (hex_body t) else None)"
| "hex_body (d # t) = (if is_hex d then map_option (Cons d) (hex_body t) else None)"

definition strip_prefix :: "string \<Rightarrow> string" where
  "strip_prefix s =
     (if take 2 s = ''0x'' \<or> take 2 s = ''0X''
      then (if take 1 (drop 2 s) = ''_'' then drop 3 s else drop 2 s) else s)"

definition py_int16 :: "string \<Rightarrow> int option" where
  "py_int16 s =
     (let t = rev (dropWhile is_ws (rev (dropWhile is_ws s)));
          neg = (take 1 t = ''-'');
          u = (if neg \<or> take 1 t = ''+'' then drop 1 t else t)
      in map_option (\<lambda>b. if neg then - parse_hex b else parse_hex b) (hex_body (strip_prefix u)))"

section \<open>Mappings and tables\<close>

datatype 'a mres = Got 'a | PyErr | Exit0

text \<open>One line of \<open>/proc/PID/maps\<close>; \<open>Some None\<close> is a line that is skipped.\<close>

definition map_line :: "string \<Rightarrow> (int \<times> int) option option" where
  "map_line l =
     (let ws = split_at (\<lambda>ch. ch = CHR '' '') l in
      if length ws < 2 then None
      else if CHR ''x'' \<notin> set (ws ! 1) then Some None
      else case split_at (\<lambda>ch. ch = CHR ''-'') (ws ! 0) of
             [a, b] \<Rightarrow> (case (py_int16 a, py_int16 b) of (Some x, Some y) \<Rightarrow> Some (Some (x, y)) | _ \<Rightarrow> None)
           | _ \<Rightarrow> None)"

definition readlines :: "string \<Rightarrow> string list" where
  "readlines s = (let ls = split_at (\<lambda>ch. ch = CHR 0x0A) s in if last ls = [] then butlast ls else ls)"

definition getmap :: "string \<Rightarrow> (int \<times> int) list option" where
  "getmap maps_file = map_option (\<lambda>rs. List.map_filter (\<lambda>r. r) rs) (those (map map_line (readlines (text_mode maps_file))))"

text \<open>One line of \<open>ij_table.txt\<close>: where the jump is and where it went.\<close>

definition ij_line :: "string \<Rightarrow> (int \<times> int) option" where
  "ij_line x = (case split_ws x of a # b # _ \<Rightarrow>
       (case (py_int16 a, py_int16 b) of (Some i, Some t) \<Rightarrow> Some (i, t) | _ \<Rightarrow> None)
     | _ \<Rightarrow> None)"

text \<open>How Python walks a set: its elements, each once.\<close>

definition walk_ok :: "('a list \<Rightarrow> 'a list) \<Rightarrow> bool" where
  "walk_ok w \<longleftrightarrow> (\<forall>xs. distinct (w xs) \<and> set (w xs) = set xs)"

definition add_misses :: "(int list \<Rightarrow> int list) \<Rightarrow> (int \<times> int) list \<Rightarrow> jump_table \<Rightarrow> jump_table" where
  "add_misses w his jt = map (\<lambda>(k, ts). (k, w ts)) (fold (\<lambda>(i, t). jt_append i t) his jt)"

definition holds :: "int \<times> int \<Rightarrow> int \<Rightarrow> bool" where
  "holds m t \<longleftrightarrow> fst m \<le> t \<and> t < snd m"

text \<open>\<open>targets_of\<close>: from the number of a mapping to the targets in it; \<open>None\<close> when one is in none.\<close>

definition place :: "(int \<times> int) list \<Rightarrow> int \<Rightarrow> (nat \<times> int list) list \<Rightarrow> (nat \<times> int list) list" where
  "place maps t tof = fold (\<lambda>i tof. if holds (maps ! i) t
       then (if i \<in> fst ` set tof then map (\<lambda>(k, ts). (k, if k = i then ts @ [t] else ts)) tof else tof @ [(i, [t])])
       else tof) [0..<length maps] tof"

definition targets_of :: "(int \<times> int) list \<Rightarrow> int list \<Rightarrow> (nat \<times> int list) list option" where
  "targets_of maps ts =
     (if list_all (\<lambda>t. list_ex (\<lambda>m. holds m t) maps) ts then Some (fold (place maps) ts []) else None)"

type_synonym chunk = "u8 list \<times> int \<times> int list"

definition file_lines :: "string option \<Rightarrow> string list" where
  "file_lines f = splitlines (text_mode (case f of None \<Rightarrow> [] | Some s \<Rightarrow> s))"

definition chunk_of :: "(int \<times> int) list \<Rightarrow> (int \<Rightarrow> int \<Rightarrow> u8 list) \<Rightarrow> nat \<times> int list \<Rightarrow> chunk" where
  "chunk_of maps mem x = (let (start, end') = maps ! fst x in (mem start (end' - start), start, snd x))"

definition read_mem ::
  "(string list \<Rightarrow> string list) \<Rightarrow> (int list \<Rightarrow> int list) \<Rightarrow> string option \<Rightarrow> string option \<Rightarrow> string
     \<Rightarrow> (int \<Rightarrow> int \<Rightarrow> u8 list) \<Rightarrow> int \<Rightarrow> jump_table \<Rightarrow> (chunk list \<times> jump_table) mres" where
  "read_mem ws wi ij_file callee_file maps_file mem entry jt =
     (case those (map ij_line (ws (file_lines ij_file))) of
        None \<Rightarrow> PyErr
      | Some ij_his \<Rightarrow>
          (case those (map py_int16 (file_lines callee_file)) of
             None \<Rightarrow> PyErr
           | Some callees \<Rightarrow>
               (case getmap maps_file of
                  None \<Rightarrow> PyErr
                | Some maps \<Rightarrow>
                    (case targets_of maps (wi (map snd ij_his @ [entry] @ callees)) of
                       None \<Rightarrow> Exit0
                     | Some tof \<Rightarrow> Got (map (chunk_of maps mem) tof, add_misses wi ij_his jt)))))"

definition read2 :: "string \<Rightarrow> (int \<Rightarrow> int \<Rightarrow> u8 list) \<Rightarrow> int \<Rightarrow> (u8 list \<times> int \<times> int) mres" where
  "read2 maps_file mem entry =
     (case getmap maps_file of
        None \<Rightarrow> PyErr
      | Some maps \<Rightarrow>
          (case List.find (\<lambda>m. holds m entry) maps of
             None \<Rightarrow> Exit0
           | Some (start, end') \<Rightarrow> Got (mem start (end' - start), start, end')))"

section \<open>What is said of it\<close>

definition known :: "jump_table \<Rightarrow> int \<Rightarrow> int set" where
  "known jt i = set (case map_of jt i of None \<Rightarrow> [] | Some ts \<Rightarrow> ts)"

definition tof_known :: "(nat \<times> int list) list \<Rightarrow> nat \<Rightarrow> int set" where
  "tof_known tof i = {t. \<exists>ts. (i, ts) \<in> set tof \<and> t \<in> set ts}"

text \<open>What the two tables say, and all targets.\<close>

definition misses_in :: "string option \<Rightarrow> (int \<times> int) list option" where
  "misses_in f = those (map ij_line (file_lines f))"

definition callees_in :: "string option \<Rightarrow> int list option" where
  "callees_in f = those (map py_int16 (file_lines f))"

definition all_targets :: "(int \<times> int) list \<Rightarrow> int \<Rightarrow> int list \<Rightarrow> int set" where
  "all_targets his entry callees = snd ` set his \<union> {entry} \<union> set callees"

definition tof_ok :: "nat \<Rightarrow> (nat \<times> int list) list \<Rightarrow> bool" where
  "tof_ok n tof \<longleftrightarrow> distinct (map fst tof) \<and> fst ` set tof \<subseteq> {0..<n}"

text \<open>The chunks hold all targets, each where it belongs.\<close>

definition chunks_ok :: "(int \<Rightarrow> int \<Rightarrow> u8 list) \<Rightarrow> (int \<times> int) list \<Rightarrow> int set \<Rightarrow> chunk list \<Rightarrow> bool" where
  "chunks_ok mem maps A res \<longleftrightarrow> (\<forall>t \<in> A. \<exists>c \<in> set res. t \<in> set (snd (snd c)))
     \<and> (\<forall>(bytes, start, ts) \<in> set res. \<exists>end'. (start, end') \<in> set maps \<and> bytes = mem start (end' - start)
          \<and> set ts = {t \<in> A. start \<le> t \<and> t < end'})"

text \<open>One indirect jump seen, one callee, one executable mapping.\<close>

definition ijf0 :: string where "ijf0 = ''0x1a2 0x1004'' @ [CHR 0x0A]"

definition cf0 :: string where "cf0 = ''0x1008'' @ [CHR 0x0A]"

definition mf0 :: string where
  "mf0 = ''1000-2000 r-xp 00000000 08:01 42 /bin/x'' @ [CHR 0x0A] @ ''2000-3000 rw-p 00001000 08:01 42 /bin/x'' @ [CHR 0x0A]"

section \<open>What is found\<close>

lemma those_Some: "those xs = Some ys \<longleftrightarrow> xs = map Some ys"
proof (induction xs arbitrary: ys)
  case Nil
  then show ?case by auto
next
  case (Cons x xs)
  then show ?case by (cases x; cases ys; cases "those xs") auto
qed

text \<open>A dictionary of lists is fit when no key is there twice.\<close>

lemma jt_touch_keys: "distinct (map fst jt) \<Longrightarrow> distinct (map fst (jt_touch i jt))"
  by (auto simp: jt_touch_def)

lemma map_of_if_append:
  "map_of (map (\<lambda>(k, ts). (k, if k = i then ts @ [t] else ts)) tof) j =
     map_option (\<lambda>ts. if j = i then ts @ [t] else ts) (map_of tof j)"
  by (induction tof) auto

lemma jt_append_of:
  "set (case map_of (jt_append i t jt) j of None \<Rightarrow> [] | Some ts \<Rightarrow> ts)
     = set (case map_of jt j of None \<Rightarrow> [] | Some ts \<Rightarrow> ts) \<union> (if j = i then {t} else {})"
proof -
  have "map_of jt i \<noteq> None \<longleftrightarrow> i \<in> fst ` set jt" by (metis map_of_eq_None_iff)
  then show ?thesis
    unfolding jt_append_def map_of_if_append
    by (auto simp: jt_touch_def map_add_def split: option.splits)
qed

lemma known_append: "known (jt_append i t jt) j = known jt j \<union> (if j = i then {t} else {})"
  unfolding known_def by (rule jt_append_of)

lemma known_fold: "known (fold (\<lambda>(i, t). jt_append i t) his jt) j = known jt j \<union> {t. (j, t) \<in> set his}"
  by (induction his arbitrary: jt) (auto simp: known_append split: if_splits)

lemma known_misses:
  assumes "walk_ok w"
  shows "known (add_misses w his jt) j = known jt j \<union> {t. (j, t) \<in> set his}"
proof -
  have "map_of (map (\<lambda>(k, ts). (k, w ts)) xs) j = map_option w (map_of xs j)" for xs
    by (induction xs) auto
  then have "known (add_misses w his jt) j = known (fold (\<lambda>(i, t). jt_append i t) his jt) j"
    using assms unfolding known_def add_misses_def walk_ok_def by (auto split: option.splits)
  then show ?thesis by (simp only: known_fold)
qed

lemma place_step:
  "tof_known (if b then (if i \<in> fst ` set tof then map (\<lambda>(k, ts). (k, if k = i then ts @ [t] else ts)) tof else tof @ [(i, [t])])
      else tof) j = tof_known tof j \<union> (if b \<and> j = i then {t} else {})"
proof -
  have "i \<in> fst ` set tof \<Longrightarrow> \<exists>ts. (i, ts) \<in> set tof" by auto
  then show ?thesis unfolding tof_known_def by (auto split: if_splits) force+
qed

lemma place_known: "tof_known (place maps t tof) j = tof_known tof j \<union> (if j < length maps \<and> holds (maps ! j) t then {t} else {})"
proof -
  have "tof_known (fold (\<lambda>i tof. if holds (maps ! i) t
       then (if i \<in> fst ` set tof then map (\<lambda>(k, ts). (k, if k = i then ts @ [t] else ts)) tof else tof @ [(i, [t])])
       else tof) is tof) j = tof_known tof j \<union> (if j \<in> set is \<and> holds (maps ! j) t then {t} else {})" for "is"
    by (induction "is" arbitrary: tof) (auto simp: place_step split: if_splits)
  from this [of "[0..<length maps]"] show ?thesis by (simp add: place_def)
qed

lemma places_known:
  "tof_known (fold (place maps) ts tof) j = tof_known tof j \<union> {t \<in> set ts. j < length maps \<and> holds (maps ! j) t}"
  by (induction ts arbitrary: tof) (auto simp: place_known split: if_splits)

lemma those_walk:
  assumes "walk_ok w"
  shows "those (map f (w xs)) = None \<longleftrightarrow> those (map f xs) = None"
    and "those (map f (w xs)) = Some ys \<Longrightarrow> those (map f xs) = Some zs \<Longrightarrow> set ys = set zs"
proof -
  have n: "those ys = None \<longleftrightarrow> None \<in> set ys" for ys :: "'b option list"
    by (induction ys) (auto split: option.splits)
  have s: "set (w xs) = set xs" using assms by (simp add: walk_ok_def)
  show "those (map f (w xs)) = None \<longleftrightarrow> those (map f xs) = None" unfolding n using s by auto
  assume "those (map f (w xs)) = Some ys" "those (map f xs) = Some zs"
  then have "map f (w xs) = map Some ys" "map f xs = map Some zs" by (simp_all add: those_Some)
  then have "f ` set xs = Some ` set ys" "f ` set xs = Some ` set zs" using s by (metis set_map)+
  then show "set ys = set zs" by (metis inj_Some inj_image_eq_iff)
qed

lemma place_step_ok:
  assumes "tof_ok n tof" and "i < n"
  shows "tof_ok n (if b then (if i \<in> fst ` set tof then map (\<lambda>(k, ts). (k, if k = i then ts @ [t] else ts)) tof
      else tof @ [(i, [t])]) else tof)"
proof -
  have m: "map fst (map (\<lambda>(k, ts). (k, if k = i then ts @ [t] else ts)) tof) = map fst tof"
    by (induction tof) auto
  have "fst ` set (map (\<lambda>(k, ts). (k, if k = i then ts @ [t] else ts)) tof) = fst ` set tof"
    using m by (metis list.set_map)
  with m assms show ?thesis unfolding tof_ok_def by (auto simp del: map_map)
qed

lemma place_ok:
  assumes "tof_ok (length maps) tof"
  shows "tof_ok (length maps) (place maps t tof)"
proof -
  have "tof_ok n (fold (\<lambda>i tof. if holds (maps ! i) t
       then (if i \<in> fst ` set tof then map (\<lambda>(k, ts). (k, if k = i then ts @ [t] else ts)) tof else tof @ [(i, [t])])
       else tof) ks tof)" if "set ks \<subseteq> {0..<n}" "tof_ok n tof" for ks n tof
    using that by (induction ks arbitrary: tof) (simp, metis (no_types, lifting) atLeastLessThan_iff fold_simps(2)
        insert_subset list.simps(15) place_step_ok)
  then show ?thesis using assms unfolding place_def by simp
qed

lemma places_ok: "tof_ok (length maps) tof \<Longrightarrow> tof_ok (length maps) (fold (place maps) ts tof)"
  by (induction ts arbitrary: tof) (simp_all add: place_ok)

lemma tof_entry: "tof_ok n tof \<Longrightarrow> (i, ts) \<in> set tof \<Longrightarrow> set ts = tof_known tof i \<and> i < n"
  unfolding tof_ok_def tof_known_def by (auto simp: distinct_map inj_on_def) force

lemma chunks_placed:
  assumes "\<forall>t \<in> set ts. \<exists>m \<in> set maps. holds m t"
  shows "chunks_ok mem maps (set ts) (map (chunk_of maps mem) (fold (place maps) ts []))"
proof -
  define tof where "tof = fold (place maps) ts []"
  have tk: "tof_known tof i = {t \<in> set ts. i < length maps \<and> holds (maps ! i) t}" for i
    using places_known [of maps ts "[]" i] by (simp add: tof_known_def tof_def)
  have ok: "tof_ok (length maps) tof" unfolding tof_def by (rule places_ok) (simp add: tof_ok_def)
  have "\<exists>c \<in> chunk_of maps mem ` set tof. t \<in> set (snd (snd c))" if t: "t \<in> set ts" for t
  proof -
    obtain m where "m \<in> set maps" "holds m t" using assms t by blast
    then obtain i where "i < length maps" "holds (maps ! i) t" by (auto simp: in_set_conv_nth)
    with t have "t \<in> tof_known tof i" by (simp add: tk)
    then obtain xs where "(i, xs) \<in> set tof" "t \<in> set xs" by (auto simp: tof_known_def)
    moreover have "snd (snd (chunk_of maps mem (i, xs))) = xs" by (simp add: chunk_of_def split_beta)
    ultimately show ?thesis by (metis imageI)
  qed
  moreover have "\<exists>end'. (start, end') \<in> set maps \<and> bytes = mem start (end' - start)
      \<and> set xs = {t \<in> set ts. start \<le> t \<and> t < end'}"
    if c: "(bytes, start, xs) \<in> chunk_of maps mem ` set tof" for bytes start xs
  proof -
    obtain i where i: "(i, xs) \<in> set tof" "start = fst (maps ! i)" "bytes = mem start (snd (maps ! i) - start)"
      using c by (auto simp: chunk_of_def split_beta)
    have "i < length maps" "set xs = {t \<in> set ts. start \<le> t \<and> t < snd (maps ! i)}"
      using tof_entry [OF ok i(1)] tk [of i] i(2) by (auto simp: holds_def)
    then show ?thesis using i by (intro exI [of _ "snd (maps ! i)"]) simp
  qed
  ultimately show ?thesis unfolding chunks_ok_def tof_def set_map by blast
qed

lemma read_mem_parsed:
  assumes "walk_ok ws" and "misses_in ijf = Some his"
  shows "\<exists>his'. set his' = set his \<and> (\<forall>cf mf. read_mem ws wi ijf cf mf mem entry jt =
    (case (callees_in cf, getmap mf) of
       (Some callees, Some maps) \<Rightarrow>
         (case targets_of maps (wi (map snd his' @ [entry] @ callees)) of
            None \<Rightarrow> Exit0
          | Some tof \<Rightarrow> Got (map (chunk_of maps mem) tof, add_misses wi his' jt))
     | _ \<Rightarrow> PyErr))"
proof -
  obtain his' where h': "those (map ij_line (ws (file_lines ijf))) = Some his'"
    using those_walk(1) [OF assms(1), of ij_line "file_lines ijf"] assms(2) by (auto simp: misses_in_def)
  have "set his' = set his" using those_walk(2) [OF assms(1) h'] assms(2) by (simp add: misses_in_def)
  then show ?thesis using h' by (intro exI [of _ his']) (auto simp: read_mem_def callees_in_def split: option.splits)
qed

text \<open>
  C10: Reading a process finds what there is to translate. When the two tables and the list of
  mappings parse, and every target (the entry, the recorded callees, the recorded destinations of
  indirect jumps) lies in an executable mapping, the reader returns a jump table with exactly the
  recorded pairs and the code of the mappings, each with exactly the targets inside it, none left
  out. When a target lies in no mapping the translator exits; when a line does not parse it stops
  with an exception. The order in which Python walks its sets does not matter.
\<close>

theorem read_mem_complete:
  assumes "walk_ok ws" and "walk_ok wi"
  shows "case (misses_in ijf, callees_in cf, getmap mf) of
      (Some his, Some callees, Some maps) \<Rightarrow>
        (if \<forall>t \<in> all_targets his entry callees. \<exists>m \<in> set maps. holds m t
         then \<exists>res jt. read_mem ws wi ijf cf mf mem entry [] = Got (res, jt)
           \<and> (\<forall>i. known jt i = {t. (i, t) \<in> set his}) \<and> chunks_ok mem maps (all_targets his entry callees) res
         else read_mem ws wi ijf cf mf mem entry [] = Exit0)
    | _ \<Rightarrow> read_mem ws wi ijf cf mf mem entry [] = PyErr"
proof (cases "misses_in ijf")
  case None
  then show ?thesis
    using those_walk(1) [OF assms(1), of ij_line "file_lines ijf"] by (simp add: read_mem_def misses_in_def)
next
  case (Some his)
  obtain his' where h: "set his' = set his" and r: "\<And>cf mf. read_mem ws wi ijf cf mf mem entry [] =
    (case (callees_in cf, getmap mf) of
       (Some callees, Some maps) \<Rightarrow>
         (case targets_of maps (wi (map snd his' @ [entry] @ callees)) of
            None \<Rightarrow> Exit0
          | Some tof \<Rightarrow> Got (map (chunk_of maps mem) tof, add_misses wi his' []))
     | _ \<Rightarrow> PyErr)"
    using read_mem_parsed [OF assms(1) Some, of wi mem entry "[]"] by blast
  have ts: "set (wi (map snd his' @ [entry] @ cs)) = all_targets his entry cs" for cs
    using assms(2) h by (auto simp: walk_ok_def all_targets_def)
  have kn: "known (add_misses wi his' []) i = {t. (i, t) \<in> set his}" for i
    using known_misses [OF assms(2), of his' "[]" i] h by (simp add: known_def)
  have t: "targets_of maps (wi (map snd his' @ [entry] @ cs)) =
      (if \<forall>t \<in> all_targets his entry cs. \<exists>m \<in> set maps. holds m t
       then Some (fold (place maps) (wi (map snd his' @ [entry] @ cs)) []) else None)" for maps cs
    unfolding ts [symmetric] by (simp add: targets_of_def list_all_iff list_ex_iff)
  show ?thesis
    unfolding Some r t
    using kn chunks_placed [where ts = "wi (map snd his' @ [entry] @ _)", unfolded ts]
    by (auto split: option.splits)
qed

lemma walk_remdups: "walk_ok remdups"
  by (simp add: walk_ok_def)

theorem read_mem_complete_witness:
  "(\<exists>res jt. read_mem remdups remdups (Some ijf0) (Some cf0) mf0 (\<lambda>a n. [0x90]) 0x1000 [] = Got (res, jt)
      \<and> known jt 0x1a2 = {0x1004} \<and> chunks_ok (\<lambda>a n. [0x90]) [(0x1000, 0x2000)] {0x1004, 0x1000, 0x1008} res)
   \<and> read_mem remdups remdups None None mf0 (\<lambda>a n. [0x90]) 0x2000 [] = Exit0"
proof -
  have p: "misses_in (Some ijf0) = Some [(0x1a2, 0x1004)]" "callees_in (Some cf0) = Some [0x1008]"
    "getmap mf0 = Some [(0x1000, 0x2000)]" "misses_in None = Some []" "callees_in None = Some []"
    by code_simp+
  have a: "all_targets [(0x1a2, 0x1004)] 0x1000 [0x1008] = {0x1004, 0x1000, 0x1008}"
    "all_targets [] 0x2000 [] = {0x2000}" by (auto simp: all_targets_def)
  have h: "\<forall>t \<in> {0x1004, 0x1000, 0x1008}. \<exists>m \<in> set [(0x1000, 0x2000)]. holds m t"
    "\<not> (\<forall>t \<in> {0x2000}. \<exists>m \<in> set [(0x1000, 0x2000)]. holds m t)" by (simp_all add: holds_def)
  from read_mem_complete [OF walk_remdups walk_remdups, where ijf = "Some ijf0" and cf = "Some cf0" and mf = mf0 and entry = "0x1000" and mem = "\<lambda>a n. [0x90]"]
    read_mem_complete [OF walk_remdups walk_remdups, where ijf = None and cf = None and mf = mf0 and entry = "0x2000" and mem = "\<lambda>a n. [0x90]"]
  show ?thesis
    unfolding p a option.case prod.case if_P [OF h(1)] if_not_P [OF h(2)] by fastforce
qed

end
