(* ===== verification/Disassem.thy ===== *)
theory Disassem
  imports Wrapper Memread
begin

text \<open>
  The translator as a whole (\<open>zz_disassem/disassem.py\<close>): read the process, disassemble from all
  targets, find the indirect transfers, write \<open>jit.S\<close>. The disassembler miasm is a parameter: it
  adds the blocks that can be reached from an address to a control flow graph. The result is the
  text of \<open>jit.S\<close> as a list of lines and the count of the measuring mode; the assembler and
  \<open>objcopy\<close> that run afterwards are outside.
\<close>

section \<open>The disassembler\<close>

text \<open>
  A graph with the set of finished jobs, the empty one, \<open>dis_multiblock\<close> on a chunk of code at
  a base address, and the blocks of a graph with their labels (\<open>pretty_str\<close>); how a block is printed.
\<close>

record 'c miasm =
  dis_start :: 'c
  dis_multiblock :: "u8 list \<Rightarrow> int \<Rightarrow> int \<Rightarrow> 'c \<Rightarrow> 'c"
  cfg_blocks :: "'c \<Rightarrow> (string \<times> block) list"
  to_string :: "string \<times> block \<Rightarrow> string"

definition ordering_bug_list :: "int list" where
  "ordering_bug_list = [0x2ce40, 0x2ce50, 0x4ffd0, 0x738d0]"

definition cfg_of :: "'c miasm \<Rightarrow> chunk \<Rightarrow> 'c" where
  "cfg_of mi r =
     (let (bytes, base, ts) = r;
          first = filter (\<lambda>t. t - base \<in> set ordering_bug_list) ts;
          rest = filter (\<lambda>t. t - base \<notin> set ordering_bug_list) ts
      in fold (dis_multiblock mi bytes base) (first @ rest) (dis_start mi))"

type_synonym block_dict = "(int \<times> string \<times> block) list"

text \<open>\<open>d[k] = v\<close>\<close>

definition dict_put :: "'k \<Rightarrow> 'v \<Rightarrow> ('k \<times> 'v) list \<Rightarrow> ('k \<times> 'v) list" where
  "dict_put k v d = (if k \<in> fst ` set d then map (\<lambda>(k', v'). (k', if k' = k then v else v')) d else d @ [(k, v)])"

definition block_dict_of :: "'c miasm \<Rightarrow> 'c list \<Rightarrow> block_dict" where
  "block_dict_of mi cfgs =
     fold (\<lambda>(label, b). dict_put (loc_offset label) (label, b)) (concat (map (cfg_blocks mi) cfgs)) []"

section \<open>Writing the code\<close>

text \<open>
  \<open>LEA RDX, [RDI + RDI * 2]\<close>, which miasm decodes with a wrong factor: these four bytes always
  decode to a register and a memory operand whose address is an operator applied to a register and
  a number.
\<close>

definition fix_lea :: "asm_line \<Rightarrow> asm_line" where
  "fix_lea l =
     (if l_bytes l = [0x48, 0x8d, 0x14, 0x7f]
      then (case l_args l of
              a0 # ExprMem (ExprOp f (x # ExprInt i z # xs)) sz # as \<Rightarrow>
                l\<lparr>l_args := a0 # ExprMem (ExprOp f (x # ExprInt 3 z # xs)) sz # as\<rparr>
            | _ \<Rightarrow> l)
      else l)"

definition debug_lines :: "bool \<Rightarrow> int \<Rightarrow> tinst list" where
  "debug_lines debug offset =
     (if debug
      then [Inst ''MOV'' [Str ''Stack_RIPL'', Str (py_hex (offset mod 2 ^ 32))],
            Inst ''MOV'' [Str ''Stack_RIPH'', Str (py_hex (offset div 2 ^ 32))], Line ''int3'']
      else [])"

text \<open>The lines of a block: what debugging adds before each, and its translation.\<close>

fun block_code ::
  "(string list \<Rightarrow> string list) \<Rightarrow> bool \<Rightarrow> asm_line list \<Rightarrow> bool list \<Rightarrow> int \<Rightarrow> tstate \<Rightarrow> (tinst list \<times> tinst list) list option" where
  "block_code order debug (line # lines) (can_check # ccs) offset st =
     (case translate order (fix_lea line) (offset + l_len line) (lines = []) can_check st of
        None \<Rightarrow> None
      | Some (code, st1) \<Rightarrow>
          map_option (Cons (debug_lines debug offset, code)) (block_code order debug lines ccs (offset + l_len line) st1))"
| "block_code order debug lines ccs offset st = Some []"

definition label_addr :: "string \<Rightarrow> string" where
  "label_addr label =
     (if take 1 label = ''l'' then drop 4 label else if take 1 label = ''i'' then drop 3 label else '''')"

text \<open>The source of a block, as one comment of several lines.\<close>

definition block_comment :: "string \<Rightarrow> tinst" where
  "block_comment s = Line (''/*'' @ [CHR 0x0A] @ s @ [CHR 0x0A] @ '' */ '')"

text \<open>
  One block. In the measuring mode (\<open>need_count\<close>) the translation is counted, when the block is
  one of \<open>count_targets\<close>, instead of written.
\<close>

definition write_block ::
  "'c miasm \<Rightarrow> (string list \<Rightarrow> string list) \<Rightarrow> bool \<Rightarrow> bool \<Rightarrow> int \<times> string \<times> block
     \<Rightarrow> tinst list \<times> string list \<times> nat \<Rightarrow> (tinst list \<times> string list \<times> nat) option" where
  "write_block mi order need_count debug ob acc =
     (let (offset, label, b) = ob; (out, targets, total) = acc;
          addr = label_addr label;
          flag = (need_count \<and> addr \<in> set targets);
          targets1 = (if flag then remove1 addr targets else targets)
      in map_option (\<lambda>ps.
           (out @ [block_comment (to_string mi (label, b)), Line (label @ '':'')]
             @ concat (map (\<lambda>(d, c). d @ (if need_count then [] else c)) ps) @ [Line '''', Line ''''],
            targets1, total + (if flag then length (concat (map snd ps)) else 0)))
           (block_code order debug (b_lines b) (rev (check_flag_def_use (b_lines b))) offset (block_init, [])))"

primrec write_blocks ::
  "'c miasm \<Rightarrow> (string list \<Rightarrow> string list) \<Rightarrow> bool \<Rightarrow> bool \<Rightarrow> block_dict
     \<Rightarrow> tinst list \<times> string list \<times> nat \<Rightarrow> (tinst list \<times> string list \<times> nat) option" where
  "write_blocks mi order need_count debug [] acc = Some acc"
| "write_blocks mi order need_count debug (x # xs) acc =
     (case write_block mi order need_count debug x acc of
        None \<Rightarrow> None
      | Some acc1 \<Rightarrow> write_blocks mi order need_count debug xs acc1)"

text \<open>\<open>None\<close>: an exception, or the \<open>exit(0)\<close> of the reader. The search for indirect transfers gets fuel above the number of blocks.\<close>

definition dis_assem ::
  "'c miasm \<Rightarrow> (string list \<Rightarrow> string list) \<Rightarrow> bool \<Rightarrow> bool \<Rightarrow> string list \<Rightarrow> int
     \<Rightarrow> (chunk list \<times> jump_table) mres \<Rightarrow> (tinst list \<times> nat) option" where
  "dis_assem mi order need_count debug count_targets entry rd =
     (case rd of
        Got (rets, jump_table) \<Rightarrow>
          (let bd = block_dict_of mi (map (cfg_of mi) rets);
               blocks = map (\<lambda>(k, label, b). (k, b)) bd
           in case find_ij (Suc (length blocks)) blocks jump_table of
                Done (missing, jt) \<Rightarrow>
                  map_option (\<lambda>(out, _, total). (out @ make_jump_table jt @ make_callee_table missing, total))
                    (write_blocks mi order need_count debug (sort_key fst bd)
                       ([Line (''JMP     '' @ loc_label entry)], count_targets, 0))
              | _ \<Rightarrow> None)
      | _ \<Rightarrow> None)"

section \<open>Labels\<close>

definition branches :: "string list" where
  "branches = conditional_branch @ unconditional_branch"

definition jump_of :: "tinst \<Rightarrow> string list" where
  "jump_of t = (case t of Inst n [Str l] \<Rightarrow> if n \<in> set branches then [l] else [] | _ \<Rightarrow> [])"

definition jumps :: "tinst list \<Rightarrow> string set" where
  "jumps code = {l. \<exists>t \<in> set code. l \<in> set (jump_of t)}"

text \<open>The labels that are defined, in order.\<close>

definition label_of :: "tinst \<Rightarrow> string list" where
  "label_of t = (case t of Line s \<Rightarrow> if s \<noteq> [] \<and> last s = CHR '':'' then [butlast s] else [] | _ \<Rightarrow> [])"

definition labels :: "tinst list \<Rightarrow> string list" where
  "labels code = concat (map label_of code)"

section \<open>What is said of it\<close>

text \<open>Code that neither branches nor defines a label.\<close>

definition plain :: "tinst list \<Rightarrow> bool" where
  "plain code \<longleftrightarrow> jumps code = {} \<and> labels code = []"

text \<open>A step of the translation whose code jumps to the labels \<open>L\<close> at most.\<close>

definition writes :: "string set \<Rightarrow> (tstate \<Rightarrow> tresult) \<Rightarrow> bool" where
  "writes L f \<longleftrightarrow> (\<forall>st code st'. f st = Some (code, st') \<longrightarrow> jumps code \<subseteq> L \<and> labels code = [])"

text \<open>Where one translated line may jump to.\<close>

definition may_jump :: "expr \<Rightarrow> int \<Rightarrow> string set" where
  "may_jump arg ofs = (case arg of ExprLoc l \<Rightarrow> {l} | _ \<Rightarrow> {ij_label ofs})"

definition line_jumps :: "asm_line \<Rightarrow> int \<Rightarrow> string set" where
  "line_jumps l ofs =
     (if l_name l = ''CALL'' \<or> l_name l \<in> set branches then may_jump (hd (l_args l)) ofs
      else if l_name l = ''RET'' then {ij_label ofs}
      else if l_name l = ''SYSCALL'' then {''comp_syscall''}
      else if l_name l = ''INVLPG'' then {''ill_inst''} else {})"

definition block_jumps :: "asm_line list \<Rightarrow> int \<Rightarrow> string set" where
  "block_jumps ls ofs = (\<Union>(l, x) \<in> set (line_ends ls ofs). line_jumps l x)"

definition written :: "bool \<Rightarrow> (tinst list \<times> tinst list) list \<Rightarrow> tinst list" where
  "written nc ps = concat (map (\<lambda>(d, c). d @ (if nc then [] else c)) ps)"

definition block_text :: "(string list \<Rightarrow> string list) \<Rightarrow> bool \<Rightarrow> int \<times> string \<times> block \<Rightarrow> (tinst list \<times> tinst list) list option" where
  "block_text order debug x = block_code order debug (b_lines (snd (snd x)))
     (rev (check_flag_def_use (b_lines (snd (snd x))))) (fst x) (block_init, [])"

definition targets_in :: "jump_table \<Rightarrow> int set" where
  "targets_in jt = (\<Union>(k, ts) \<in> set jt. set ts)"

text \<open>The tables only name targets in \<open>S\<close>, and no offset twice.\<close>

definition jt_within :: "int set \<Rightarrow> jump_table \<Rightarrow> bool" where
  "jt_within S jt \<longleftrightarrow> distinct (map fst jt) \<and> targets_in jt \<subseteq> S"

definition search_ok :: "int set \<Rightarrow> blocks \<Rightarrow> int list \<times> jump_table \<Rightarrow> bool" where
  "search_ok S bl st \<longleftrightarrow> jt_within S (snd st) \<and> distinct (fst st) \<and> set (fst st) \<inter> fst ` set bl = {}"

definition call_ends :: "asm_line list \<Rightarrow> int \<Rightarrow> int set" where
  "call_ends ls ofs = {x. \<exists>l. (l, x) \<in> set (line_ends ls ofs) \<and> direct_call l}"

text \<open>All blocks of all graphs, and where they start.\<close>

definition graph_blocks :: "'c miasm \<Rightarrow> chunk list \<Rightarrow> (string \<times> block) list" where
  "graph_blocks mi rets = concat (map (cfg_blocks mi) (map (cfg_of mi) rets))"

definition starts :: "(string \<times> block) list \<Rightarrow> int set" where
  "starts G = (loc_offset \<circ> fst) ` set G"

text \<open>
  What the translator relies on in miasm: disassembling from an address inside the chunk makes a
  block that starts there and keeps the blocks there are.
\<close>

definition miasm_ok :: "'c miasm \<Rightarrow> bool" where
  "miasm_ok mi \<longleftrightarrow> (\<forall>bytes base t c. starts (cfg_blocks mi c) \<subseteq> starts (cfg_blocks mi (dis_multiblock mi bytes base t c))
     \<and> (0 \<le> t \<longrightarrow> t \<in> starts (cfg_blocks mi (dis_multiblock mi bytes base t c))))"

text \<open>
  Of a graph: labels are written from addresses, successors are blocks of a graph, a branch leads
  to a successor, and the address after a call is a successor.
\<close>

definition line_ok :: "block \<Rightarrow> asm_line \<Rightarrow> int \<Rightarrow> bool" where
  "line_ok b l x \<longleftrightarrow>
     (direct_call l \<longrightarrow> hd (l_args l) = ExprLoc (loc_label (callee_of l)) \<and> x \<in> set (b_bto b))
     \<and> (l_name l \<in> set branches \<and> is_loc (hd (l_args l)) \<longrightarrow> (\<exists>t \<in> set (b_bto b). hd (l_args l) = ExprLoc (loc_label t)))"

definition graphs_ok :: "(string \<times> block) list \<Rightarrow> bool" where
  "graphs_ok G \<longleftrightarrow> (\<forall>(lab, b) \<in> set G. lab = loc_label (loc_offset lab) \<and> set (b_bto b) \<subseteq> starts G
     \<and> (\<forall>(l, x) \<in> set (line_ends (b_lines b) (loc_offset lab)). line_ok b l x))"

text \<open>A caller of two blocks, and a block that returns at every other address.\<close>

definition mi0 :: "(string \<times> block) list miasm" where
  "mi0 = \<lparr>dis_start = [],
     dis_multiblock = (\<lambda>bytes base t c. c @
       (if t = 0x10
        then [(loc_label 0x10, \<lparr>b_lines = [line0 ''CALL'' [ExprLoc (loc_label 0x18)]], b_bto = [0x12]\<rparr>),
              (loc_label 0x12, \<lparr>b_lines = [line0 ''SYSCALL'' []], b_bto = []\<rparr>)]
        else [(loc_label t, \<lparr>b_lines = [line0 ''RET'' []], b_bto = []\<rparr>)])),
     cfg_blocks = (\<lambda>c. c), to_string = fst\<rparr>"

definition callee_file0 :: string where "callee_file0 = ''0x18'' @ [CHR 0x0A]"

definition maps_file0 :: string where "maps_file0 = ''10-20 r-xp 00000000 08:01 42 /bin/x'' @ [CHR 0x0A]"

lemma jumps_simps [simp]: "jumps [] = {}" "jumps (t # ts) = set (jump_of t) \<union> jumps ts" "jumps (as @ bs) = jumps as \<union> jumps bs"
  by (auto simp: jumps_def)

lemma jumps_concat: "jumps (concat xs) = \<Union> (jumps ` set xs)"
  by (induction xs) auto

lemma labels_simps [simp]: "labels [] = []" "labels (t # ts) = label_of t @ labels ts" "labels (as @ bs) = labels as @ labels bs"
  by (simp_all add: labels_def)

lemma labels_concat: "labels (concat xs) = concat (map labels xs)"
  by (induction xs) auto

lemma plain_simps [simp]: "plain []" "plain (as @ bs) = (plain as \<and> plain bs)"
  "plain (t # ts) = (jump_of t = [] \<and> label_of t = [] \<and> plain ts)"
  by (auto simp: plain_def)

lemma jump_of_simps [simp]:
  "jump_of (StoreSlot v p) = []" "jump_of (LoadSlot p v) = []" "jump_of (Movabs p i) = []" "jump_of (Line s) = []"
  "jump_of (Inst n (a # b # as)) = []"
  by (simp_all add: jump_of_def split: targ.split)

lemma label_of_simps [simp]:
  "label_of (StoreSlot v p) = []" "label_of (LoadSlot p v) = []" "label_of (Movabs p i) = []" "label_of (Inst n as) = []"
  "label_of (Line (s @ [c])) = (if c = CHR '':'' then [s] else [])" "label_of (Line []) = []"
  by (simp_all add: label_of_def)

lemma label_of_Line: "s \<noteq> [] \<Longrightarrow> last s \<noteq> CHR '':'' \<Longrightarrow> label_of (Line s) = []"
  by (simp add: label_of_def)

lemma plain_concat: "plain (concat xs) \<longleftrightarrow> (\<forall>x \<in> set xs. plain x)"
  by (induction xs) auto

lemma resolve_loop_plain: "resolve_loop ofs idle vict stab vs m = Some (code, m1) \<Longrightarrow> plain code"
proof (induction ofs idle vict stab vs m arbitrary: code m1 rule: resolve_loop.induct)
  case (2 offset idle vict stab v vs m)
  then show ?case
    by (auto simp: Let_def split: list.splits if_splits)
qed simp

lemma conflict_resolve_plain: "conflict_resolve order m rs ofs = Some (code, m1) \<Longrightarrow> plain code"
  unfolding conflict_resolve_def Let_def by (rule resolve_loop_plain)

lemma release_plain: "plain (release_conflict m be)"
  by (auto simp: release_conflict_def plain_concat split: if_splits)

lemma recover_plain: "plain (fst (recover_stable m))"
proof -
  have "plain (fst cm) \<Longrightarrow> plain (fst (fold (recover_one iv) vs cm))" for iv vs cm
    by (induction vs arbitrary: cm) (simp_all add: recover_one_def Let_def)
  from this [of "([], m)"] show ?thesis unfolding recover_stable_def by simp
qed

lemma check_code_plain: "plain (check_code rs cc)"
  by (auto simp: check_code_def Let_def plain_concat label_of_Line)

lemma process_normal_plain:
  assumes "process_normal order name args ofs cc st = Some (code, st')" and "name \<notin> set branches"
  shows "plain code"
proof -
  have i: "jump_of (Inst name as) = []" for as
    using assms(2) by (auto simp: jump_of_def split: list.splits targ.splits)
  show ?thesis
    using assms(1) i check_code_plain recover_plain
    by (auto simp: process_normal_def Let_def split_beta split: if_splits option.splits prod.splits
        dest: conflict_resolve_plain)
qed

lemma then_doE:
  assumes "then_do r f = Some (c, st)"
  obtains c1 st1 c2 where "r = Some (c1, st1)" "f st1 = Some (c2, st)" "c = c1 @ c2"
  using assms by (auto simp: then_do_def split: option.splits)

lemma writesD: "writes L f \<Longrightarrow> f st = Some (code, st') \<Longrightarrow> jumps code \<subseteq> L \<and> labels code = []"
  unfolding writes_def by blast

lemma writesI: "(\<And>st code st'. f st = Some (code, st') \<Longrightarrow> jumps code \<subseteq> L \<and> labels code = []) \<Longrightarrow> writes L f"
  unfolding writes_def by blast

lemma writes_then: 
  assumes "writes L f" and "\<And>st. writes L (g st)"
  shows "writes L (\<lambda>st. then_do (f st) (g st))"
proof (rule writesI)
  fix st code st'
  assume "then_do (f st) (g st) = Some (code, st')"
  then obtain c1 st1 c2 where "f st = Some (c1, st1)" "g st st1 = Some (c2, st')" "code = c1 @ c2" by (rule then_doE)
  then show "jumps code \<subseteq> L \<and> labels code = []" using writesD [OF assms(1)] writesD [OF assms(2)]
    by (metis Un_least append_Nil jumps_simps(3) labels_simps(3))
qed

lemma writes_emit: "jumps c \<subseteq> L \<Longrightarrow> labels c = [] \<Longrightarrow> writes L (emit c)"
  by (auto simp: writes_def emit_def)

lemma names_plain: "''LEA'' \<notin> set branches" "''MOV'' \<notin> set branches" "''MOVABS'' \<notin> set branches"
  "''MOV'' @ im64_abs e \<notin> set branches"
  by (auto simp: branches_def conditional_branch_def unconditional_branch_def im64_abs_def split: expr.splits)

lemma writes_normal: "name \<notin> set branches \<Longrightarrow> writes L (process_normal order name args ofs cc)"
  by (rule writesI) (use process_normal_plain in \<open>simp add: plain_def\<close>)

lemma writes_temp: "writes L (resolve_temp order t)" "writes L drop_temps" "writes L (release_end be)"
  using conflict_resolve_plain release_plain
  by (auto intro!: writesI simp: resolve_temp_def drop_temps_def release_end_def emit_def plain_def)

lemma writes_if: "(b \<Longrightarrow> writes L f) \<Longrightarrow> (\<not> b \<Longrightarrow> writes L g) \<Longrightarrow> writes L (\<lambda>st. if b then f st else g st)"
  by (cases b) auto

lemmas writes_rules = writes_then writes_normal writes_temp names_plain writes_if

lemma writes_push: "writes L (process_push order arg ofs)"
  unfolding process_push_def [abs_def] Let_def by (intro writes_rules)

lemma writes_pop: "writes L (process_pop order arg ofs)"
  unfolding process_pop_def [abs_def] by (intro writes_rules)

lemma writes_jump_reg: "writes {ij_label ofs} (jump_reg n r ofs)"
  using release_plain
  by (intro writesI) (auto simp: jump_reg_def emit_def plain_def jump_of_def ij_label_def split: option.splits if_splits)

lemma writes_jump: "writes (may_jump arg ofs) (process_jump order n arg ofs)"
proof (cases arg)
  case (ExprLoc l)
  then show ?thesis using release_plain
    by (intro writesI) (auto simp: process_jump_def emit_def plain_def jump_of_def may_jump_def split: if_splits)
next
  case (ExprMem p z)
  have "process_jump order n arg ofs = (\<lambda>st. then_do (resolve_temp order ''T2'' st) (\<lambda>st1.
          then_do (process_normal order ''MOV'' [Ex RT2, Ex arg] ofs False st1) (jump_reg n ''RT2'' ofs)))"
    using ExprMem by (simp add: process_jump_def fun_eq_iff)
  moreover have "may_jump arg ofs = {ij_label ofs}" using ExprMem by (simp add: may_jump_def)
  ultimately show ?thesis by (simp only:) (intro writes_rules writes_jump_reg)
next
  case (ExprId r z)
  then show ?thesis using writesD [OF writes_jump_reg]
    by (intro writesI) (auto simp: process_jump_def may_jump_def)
qed (auto intro!: writesI simp: process_jump_def emit_def)

lemma inst_name_plain: "CHR '' '' \<notin> set (get_inst_name l) \<Longrightarrow> get_inst_name l = l_name l"
  by (auto simp: get_inst_name_def Let_def split: if_splits)

lemma inst_name_eq: "get_inst_name l = n \<Longrightarrow> CHR '' '' \<notin> set n \<Longrightarrow> l_name l = n"
  using inst_name_plain [of l] by simp

lemma names_no_branch: "''RET'' \<notin> set branches" "''SYSCALL'' \<notin> set branches" "''INVLPG'' \<notin> set branches"
  by (auto simp: branches_def conditional_branch_def unconditional_branch_def)

lemma jump_of_JMP: "jump_of (Inst ''JMP'' [Str x]) = [x]"
  by (simp add: jump_of_def branches_def unconditional_branch_def)

lemma line_jumps_named:
  "get_inst_name l = ''CALL'' \<Longrightarrow> line_jumps l ofs = may_jump (hd (l_args l)) ofs"
  "get_inst_name l = ''RET'' \<Longrightarrow> line_jumps l ofs = {ij_label ofs}"
  "get_inst_name l = ''SYSCALL'' \<Longrightarrow> line_jumps l ofs = {''comp_syscall''}"
  "get_inst_name l = ''INVLPG'' \<Longrightarrow> line_jumps l ofs = {''ill_inst''}"
  using inst_name_eq [of l] names_no_branch by (simp_all add: line_jumps_def)

lemma writes_call:
  "get_inst_name l = ''CALL'' \<Longrightarrow> writes (line_jumps l ofs) (\<lambda>st. then_do (resolve_temp order ''T2'' st) (\<lambda>st1.
       then_do (process_normal order ''MOVABS'' [Ex RT2, Ex (ExprInt ofs 64)] ofs False st1) (\<lambda>st2.
       then_do (process_push order RT2 ofs st2) (process_jump order ''JMP'' (hd (l_args l)) ofs))))"
  unfolding line_jumps_named
  by (intro writes_then writes_temp writes_normal names_plain writes_push writes_jump)

lemma writes_ret:
  "get_inst_name l = ''RET'' \<Longrightarrow> writes (line_jumps l ofs) (\<lambda>st. then_do (resolve_temp order ''T2'' st) (\<lambda>st1.
       then_do (process_pop order RT2 ofs st1) (process_jump order ''JMP'' RT2 ofs)))"
  using writes_jump [of RT2 ofs order "''JMP''"] unfolding line_jumps_named may_jump_def
  by (intro writes_then writes_temp writes_pop) simp

lemma writes_others:
  "writes L (\<lambda>st. then_do (emit [Line ''NOP''] st) (release_end be))"
  "writes L (\<lambda>st. then_do (process_push order x ofs st) (release_end be))"
  "writes L (\<lambda>st. then_do (process_pop order x ofs st) (release_end be))"
  "writes L (\<lambda>st. then_do (process_normal order ''MOV'' [Ex RSP, Ex RBP] ofs False st) (\<lambda>st1.
        then_do (process_pop order RBP ofs st1) (release_end be)))"
  by (intro writes_then writes_emit writes_temp writes_push writes_pop writes_normal names_plain; simp add: label_of_Line)+

lemma writes_leave:
  "get_inst_name l = ''SYSCALL'' \<Longrightarrow> writes (line_jumps l ofs) (\<lambda>st. emit [Movabs ''14'' (ofs - 2), Inst ''JMP'' [Str ''comp_syscall'']] st)"
  "get_inst_name l = ''INVLPG'' \<Longrightarrow> writes (line_jumps l ofs) (\<lambda>st. emit [Movabs ''14'' (ofs - 2), Inst ''JMP'' [Str ''ill_inst'']] st)"
  "writes (line_jumps l ofs) (\<lambda>st. emit [] st)"
  by (rule writes_emit; simp add: jump_of_JMP line_jumps_named)+

lemma special_jumps: "writes (line_jumps l ofs) (special_inst_dispatch order l ofs be)"
  unfolding special_inst_dispatch_def [abs_def] Let_def
  apply (intro writes_if)
          apply (rule writes_others(1))
         apply (rule writes_call, assumption)
        apply (rule writes_others(2))
       apply (rule writes_others(3))
      apply (rule writes_ret, assumption)
     apply (rule writes_others(4))
    apply (rule writes_leave(1), assumption)
   apply (rule writes_leave(2), assumption)
  apply (rule writes_leave(3))
  done

lemma translate_jumps: "writes (line_jumps l ofs) (translate order l ofs be cc)"
proof -
  have b: "(l_name l \<in> set conditional_branch \<or> l_name l \<in> set unconditional_branch) = (l_name l \<in> set branches)"
    by (auto simp: branches_def)
  have n: "l_name l \<notin> set branches \<Longrightarrow> get_inst_name l \<notin> set branches"
  proof
    assume "l_name l \<notin> set branches" and g: "get_inst_name l \<in> set branches"
    have "\<forall>n \<in> set branches. CHR '' '' \<notin> set n"
      by (simp add: branches_def conditional_branch_def unconditional_branch_def)
    then show False using inst_name_plain [of l] g \<open>l_name l \<notin> set branches\<close> by metis
  qed
  have j: "l_name l \<in> set branches \<Longrightarrow> may_jump (hd (l_args l)) ofs = line_jumps l ofs" by (simp add: line_jumps_def)
  show ?thesis
    unfolding translate_def [abs_def] b
    by (intro writes_rules special_jumps; (simp only: j [symmetric])?; (rule writes_jump)?; (rule n)?; assumption?)
qed

text \<open>The code of a block.\<close>

lemma fix_lea_jumps: "line_jumps (fix_lea l) x = line_jumps l x"
  by (simp add: line_jumps_def fix_lea_def split: list.split expr.split)

lemma debug_plain: "plain (debug_lines debug ofs)"
  by (simp add: debug_lines_def label_of_Line)

lemma block_code_jumps:
  "block_code order debug ls ccs ofs st = Some ps \<Longrightarrow>
     jumps (written nc ps) \<subseteq> block_jumps ls ofs \<and> labels (written nc ps) = []"
proof (induction order debug ls ccs ofs st arbitrary: ps rule: block_code.induct)
  case (1 order debug line lines cc ccs ofs st)
  obtain code st1 ps1 where c: "translate order (fix_lea line) (ofs + l_len line) (lines = []) cc st = Some (code, st1)"
    and p: "block_code order debug lines ccs (ofs + l_len line) st1 = Some ps1" "ps = (debug_lines debug ofs, code) # ps1"
    using 1(2) by (auto split: option.splits)
  have "jumps code \<subseteq> line_jumps line (ofs + l_len line) \<and> labels code = []"
    using writesD [OF translate_jumps c] by (simp add: fix_lea_jumps)
  moreover have "jumps (debug_lines debug ofs) = {}" "labels (debug_lines debug ofs) = []"
    using debug_plain [of debug ofs] by (simp_all add: plain_def)
  ultimately show ?case using 1(1) [OF c refl p(1)] p(2) by (auto simp: written_def block_jumps_def)
qed (auto simp: written_def)

lemma label_of_comment: "label_of (block_comment s) = []" "jump_of (block_comment s) = []"
  by (simp_all add: block_comment_def label_of_def)

lemma write_block_eq:
  "case write_block mi order nc debug x acc of
     None \<Rightarrow> block_text order debug x = None
   | Some acc1 \<Rightarrow> block_text order debug x \<noteq> None \<and> (\<exists>c. fst acc1 = fst acc @ c
        \<and> jumps c \<subseteq> block_jumps (b_lines (snd (snd x))) (fst x) \<and> labels c = [fst (snd x)])"
proof (cases "block_text order debug x")
  case None
  then show ?thesis by (simp add: write_block_def block_text_def Let_def split_beta)
next
  case (Some ps)
  have "jumps (written nc ps) \<subseteq> block_jumps (b_lines (snd (snd x))) (fst x) \<and> labels (written nc ps) = []"
    using block_code_jumps Some unfolding block_text_def by blast
  with Some show ?thesis
    by (simp add: write_block_def block_text_def Let_def split_beta written_def [symmetric] label_of_comment)
qed

lemma write_blocks_eq:
  "case write_blocks mi order nc debug xs acc of
     None \<Rightarrow> \<exists>x \<in> set xs. block_text order debug x = None
   | Some acc1 \<Rightarrow> (\<forall>x \<in> set xs. block_text order debug x \<noteq> None) \<and> (\<exists>c. fst acc1 = fst acc @ c
        \<and> jumps c \<subseteq> (\<Union>x \<in> set xs. block_jumps (b_lines (snd (snd x))) (fst x)) \<and> labels c = map (fst \<circ> snd) xs)"
proof (induction xs arbitrary: acc)
  case (Cons x xs)
  show ?case
  proof (cases "write_block mi order nc debug x acc")
    case None
    then show ?thesis using write_block_eq [where mi = mi and order = order and nc = nc and debug = debug and x = x and acc = acc] by simp
  next
    case (Some acc1)
    then obtain c where c: "block_text order debug x \<noteq> None" "fst acc1 = fst acc @ c"
      "jumps c \<subseteq> block_jumps (b_lines (snd (snd x))) (fst x)" "labels c = [fst (snd x)]"
      using write_block_eq [where mi = mi and order = order and nc = nc and debug = debug and x = x and acc = acc] by auto
    show ?thesis
    proof (cases "write_blocks mi order nc debug xs acc1")
      case None
      then show ?thesis using Cons [of acc1] Some by simp
    next
      case (Some acc2)
      then obtain d where d: "\<forall>x \<in> set xs. block_text order debug x \<noteq> None" "fst acc2 = fst acc1 @ d"
        "jumps d \<subseteq> (\<Union>x \<in> set xs. block_jumps (b_lines (snd (snd x))) (fst x))" "labels d = map (fst \<circ> snd) xs"
        using Cons [of acc1] by auto
      have "write_blocks mi order nc debug (x # xs) acc = Some acc2"
        using Some \<open>write_block mi order nc debug x acc = Some acc1\<close> by simp
      moreover have "fst acc2 = fst acc @ (c @ d)" "labels (c @ d) = map (fst \<circ> snd) (x # xs)"
        "jumps (c @ d) \<subseteq> (\<Union>x \<in> set (x # xs). block_jumps (b_lines (snd (snd x))) (fst x))"
        using c d by auto
      ultimately show ?thesis using c(1) d(1) by (simp del: jumps_simps labels_simps)
    qed
  qed
qed simp

section \<open>The tables\<close>

lemma jump_of_JZ: "jump_of (Inst ''JZ'' [Str x]) = [x]"
  by (simp add: jump_of_def branches_def conditional_branch_def)

lemma jump_entry_jumps: "jumps (jump_entry ofs ts) = loc_label ` set ts \<union> {''ij_failed''}" "labels (jump_entry ofs ts) = []"
  unfolding jump_entry_def by (induction ts) (auto simp: jump_of_JZ jump_of_JMP)

lemma jump_table_jumps:
  "jumps (make_jump_table jt) \<subseteq> loc_label ` targets_in jt \<union> {''ij_failed''}"
  "labels (make_jump_table jt) = map (ij_label \<circ> fst) jt"
  unfolding make_jump_table_def targets_in_def
  by (induction jt) (auto simp: jump_entry_jumps)

lemma callee_table_jumps:
  "jumps (make_callee_table ms) \<subseteq> {''exit''}" "labels (make_callee_table ms) = map loc_label ms"
  unfolding make_callee_table_def by (induction ms) (auto simp: jump_of_JMP)

lemma within_touch: "jt_within S jt \<Longrightarrow> jt_within S (jt_touch x jt)"
  by (auto simp: jt_within_def jt_touch_def targets_in_def)

lemma within_append:
  assumes "jt_within S jt" and "r \<in> S"
  shows "jt_within S (jt_append x r jt)"
proof -
  let ?f = "\<lambda>(k, ts). (k, if k = x then ts @ [r] else ts)"
  have d: "map fst (map ?f (jt_touch x jt)) = map fst (jt_touch x jt)" by (induction "jt_touch x jt") auto
  have s: "targets_in (map ?f j) \<subseteq> targets_in j \<union> {r}" for j :: jump_table
    by (auto simp: targets_in_def split: if_splits)
  have "distinct (map fst (jt_touch x jt))" "targets_in (jt_touch x jt) \<subseteq> S"
    using within_touch [OF assms(1), of x] by (auto simp: jt_within_def)
  with s [of "jt_touch x jt"] assms(2) show ?thesis unfolding jt_append_def jt_within_def d by blast
qed

lemma within_lines: "jt_within S jt \<Longrightarrow> r \<in> S \<Longrightarrow> jt_within S (dfs_lines ls ofs r jt)"
  by (induction ls arbitrary: ofs jt) (simp_all add: Let_def within_append)

lemma within_dfs: "dfs n e bl r st = Done st' \<Longrightarrow> jt_within S (snd st) \<Longrightarrow> r \<in> S \<Longrightarrow> jt_within S (snd st')"
  and within_forks: "dfs_forks n ts bl r st = Done st' \<Longrightarrow> jt_within S (snd st) \<Longrightarrow> r \<in> S \<Longrightarrow> jt_within S (snd st')"
proof (induction n e bl r st and n ts bl r st arbitrary: st' and st' rule: dfs_dfs_forks.induct)
  case (2 n entry bl r st)
  then show ?case by (auto simp: within_lines split: option.splits)
next
  case (4 n tgt ts bl r st)
  show ?case
  proof (cases "tgt \<in> set (fst st)")
    case True
    with 4 show ?thesis by simp
  next
    case False
    then obtain st1 where d: "dfs n tgt bl r (tgt # fst st, snd st) = Done st1" "dfs_forks n ts bl r st1 = Done st'"
      using 4(4) by (auto split: jres.splits)
    then show ?thesis using 4(2) [OF False d(1)] 4(3) [OF False d(1) d(2)] 4(5,6) by simp
  qed
qed auto

lemma find_lines_within:
  "find_lines n bl ls ofs st = Done st' \<Longrightarrow> search_ok S bl st \<Longrightarrow> call_ends ls ofs \<subseteq> S \<Longrightarrow> search_ok S bl st'"
proof (induction ls arbitrary: ofs st)
  case (Cons l ls)
  let ?x = "ofs + l_len l"
  have s: "call_ends ls ?x \<subseteq> S" "direct_call l \<Longrightarrow> ?x \<in> S" using Cons(4) by (auto simp: call_ends_def)
  have "\<exists>st1. find_lines n bl ls ?x st1 = Done st' \<and> search_ok S bl st1"
  proof (cases "direct_call l")
    case True
    then have d: "l_name l = ''CALL''" "is_loc (hd (l_args l))" by (auto simp: direct_call_def)
    show ?thesis
    proof (cases "callee_of l \<in> fst ` set bl")
      case callee: True
      then obtain r where r: "dfs n (callee_of l) bl ?x ([], snd st) = Done r" "find_lines n bl ls ?x (fst st, snd r) = Done st'"
        using Cons(2) d by (auto simp: callee_of_def Let_def split: jres.splits)
      then show ?thesis using within_dfs [OF r(1), of S] s(2) [OF True] Cons(3)
        by (intro exI [of _ "(fst st, snd r)"]) (simp add: search_ok_def)
    next
      case False
      then show ?thesis using Cons(2,3) d
        by (intro exI [of _ "(List.insert (callee_of l) (fst st), snd st)"])
          (auto simp: callee_of_def Let_def search_ok_def)
    qed
  next
    case False
    then have nd: "(l_name l = ''CALL'' \<and> is_loc (hd (l_args l))) = False" by (simp add: direct_call_def)
    have "find_lines n bl ls ?x (if indirect_line l then (fst st, jt_touch ?x (snd st)) else st) = Done st'"
      using Cons(2) unfolding find_lines.simps Let_def nd by (simp split: if_splits)
    moreover have "search_ok S bl (if indirect_line l then (fst st, jt_touch ?x (snd st)) else st)"
      using Cons(3) by (simp add: search_ok_def within_touch)
    ultimately show ?thesis by blast
  qed
  with Cons(1) s(1) show ?case by blast
qed simp

lemma find_blocks_within:
  "find_blocks n bl bs st = Done st' \<Longrightarrow> search_ok S bl st
     \<Longrightarrow> (\<And>k b. (k, b) \<in> set bs \<Longrightarrow> call_ends (b_lines b) k \<subseteq> S) \<Longrightarrow> search_ok S bl st'"
proof (induction bs arbitrary: st)
  case (Cons y bs)
  obtain k b where y: "y = (k, b)" by fastforce
  then obtain st1 where 1: "find_lines n bl (b_lines b) k st = Done st1" "find_blocks n bl bs st1 = Done st'"
    using Cons(2) by (auto split: jres.splits)
  have "search_ok S bl st1" using find_lines_within [OF 1(1) Cons(3)] Cons(4) y by simp
  with Cons(1) [OF 1(2)] Cons(4) show ?case by simp
qed simp

section \<open>Addresses as text\<close>

lemma hex_digit_ok: "d < 16 \<Longrightarrow> hex_val (hex_digit d) = int d \<and> hex_digit d \<notin> {CHR ''_'', CHR ''x'', CHR '':''}"
proof -
  have "list_all (\<lambda>d. hex_val (hex_digit d) = int d \<and> hex_digit d \<noteq> CHR ''_'' \<and> hex_digit d \<noteq> CHR ''x'' \<and> hex_digit d \<noteq> CHR '':'') [0..<16]"
    by code_simp
  then show "d < 16 \<Longrightarrow> ?thesis" by (simp add: list_all_iff)
qed

lemma hex_digits_ok:
  "parse_hex (hex_digits n) = int n \<and> hex_digits n \<noteq> [] \<and> set (hex_digits n) \<inter> {CHR ''_'', CHR ''x'', CHR '':''} = {}"
proof (induction n rule: hex_digits.induct)
  case (1 n)
  show ?case
  proof (cases "n < 16")
    case True
    then show ?thesis using hex_digit_ok [OF True] by (subst (1 2 3) hex_digits.simps) (simp add: parse_hex_def)
  next
    case False
    have "parse_hex (hex_digits (n div 16) @ [hex_digit (n mod 16)]) = int (n div 16) * 16 + int (n mod 16)"
      using 1 [OF False] hex_digit_ok [of "n mod 16"] by (simp add: parse_hex_def)
    also have "\<dots> = int n" by (metis div_mult_mod_eq of_nat_add of_nat_mult of_nat_numeral)
    finally show ?thesis using False 1 [OF False] hex_digit_ok [of "n mod 16"] by (subst (1 2 3) hex_digits.simps) simp
  qed
qed

lemma hex_digits_inj: "hex_digits m = hex_digits n \<Longrightarrow> m = n"
  using hex_digits_ok by (metis of_nat_eq_iff)

lemma takeWhile_all: "(\<And>x. x \<in> set xs \<Longrightarrow> P x) \<Longrightarrow> takeWhile P xs = xs"
  by (rule takeWhile_eq_all_conv [THEN iffD2]) blast

lemma loc_offset_label: "0 \<le> k \<Longrightarrow> loc_offset (loc_label k) = k"
proof -
  assume k: "0 \<le> k"
  have "takeWhile (\<lambda>c. c \<noteq> CHR ''_'') (hex_digits (nat k)) = hex_digits (nat k)"
    by (rule takeWhile_all) (use hex_digits_ok [of "nat k"] in blast)
  moreover have "parse_hex (hex_digits (nat k)) = k" using hex_digits_ok [of "nat k"] k by simp
  ultimately show ?thesis using k by (simp add: loc_offset_def loc_label_def py_hex_def del: takeWhile_eq_all_conv)
qed

lemma py_hex_tail: "drop 2 (py_hex i) = (if i < 0 then CHR ''x'' # hex_digits (nat (- i)) else hex_digits (nat i))"
  by (simp add: py_hex_def)

lemma py_hex_inj: "drop 2 (py_hex i) = drop 2 (py_hex j) \<Longrightarrow> i = j"
proof -
  assume e: "drop 2 (py_hex i) = drop 2 (py_hex j)"
  have x: "CHR ''x'' # s \<noteq> hex_digits n" for s n
    using hex_digits_ok [of n] by (metis IntI empty_iff insertCI list.set_intros(1))
  show "i = j"
    using e x x [symmetric] hex_digits_inj by (fastforce simp: py_hex_tail split: if_splits)
qed

lemma loc_label_inj: "inj loc_label"
  using py_hex_inj by (auto simp: inj_def loc_label_def)

lemma ij_label_inj: "inj ij_label"
  using py_hex_inj by (auto simp: inj_def ij_label_def)

lemma loc_not_ij: "loc_label i \<noteq> ij_label j"
  by (simp add: loc_label_def ij_label_def)

section \<open>The table of blocks\<close>

lemma put_dict:
  assumes "distinct (map fst d)"
  shows "distinct (map fst (dict_put k v d))" "fst ` set (dict_put k v d) = insert k (fst ` set d)"
    "set (dict_put k v d) \<subseteq> insert (k, v) (set d)"
proof -
  have "map fst (map (\<lambda>(k', v'). (k', if k' = k then v else v')) d) = map fst d" by (induction d) auto
  then have m: "k \<in> fst ` set d \<Longrightarrow> map fst (dict_put k v d) = map fst d" by (simp add: dict_put_def)
  show "distinct (map fst (dict_put k v d))"
    using m assms by (cases "k \<in> fst ` set d") (simp, simp add: dict_put_def)
  show "fst ` set (dict_put k v d) = insert k (fst ` set d)"
    using m by (cases "k \<in> fst ` set d") (metis insert_absorb list.set_map, auto simp: dict_put_def)
  show "set (dict_put k v d) \<subseteq> insert (k, v) (set d)" by (auto simp: dict_put_def split: if_splits)
qed

lemma put_all:
  "distinct (map fst d) \<Longrightarrow> (let e = fold (\<lambda>(l, b). dict_put (loc_offset l) (l, b)) G d in
     distinct (map fst e) \<and> fst ` set e = (loc_offset \<circ> fst) ` set G \<union> fst ` set d
     \<and> set e \<subseteq> (\<lambda>(l, b). (loc_offset l, l, b)) ` set G \<union> set d)"
proof (induction G arbitrary: d)
  case (Cons x G)
  obtain l b where x: "x = (l, b)" by fastforce
  note P = put_dict [OF Cons(2), of "loc_offset l" "(l, b)"]
  let ?e = "fold (\<lambda>(l, b). dict_put (loc_offset l) (l, b)) G (dict_put (loc_offset l) (l, b) d)"
  have "distinct (map fst ?e)"
    "fst ` set ?e = (loc_offset \<circ> fst) ` set G \<union> fst ` set (dict_put (loc_offset l) (l, b) d)"
    "set ?e \<subseteq> (\<lambda>(l, b). (loc_offset l, l, b)) ` set G \<union> set (dict_put (loc_offset l) (l, b) d)"
    using Cons(1) [OF P(1)] unfolding Let_def by blast+
  moreover from this(2) have "fst ` set ?e = (loc_offset \<circ> fst) ` set (x # G) \<union> fst ` set d"
    unfolding P(2) x by simp
  moreover have "set ?e \<subseteq> (\<lambda>(l, b). (loc_offset l, l, b)) ` set (x # G) \<union> set d"
    by (rule order_trans [OF calculation(3)]) (use P(3) in \<open>auto simp: x\<close>)
  ultimately show ?case unfolding x Let_def by simp
qed simp

lemma block_dict:
  assumes "bd = block_dict_of mi (map (cfg_of mi) rets)"
  shows "distinct (map fst bd)" "fst ` set bd = starts (graph_blocks mi rets)"
    "(k, l, b) \<in> set bd \<Longrightarrow> k = loc_offset l \<and> (l, b) \<in> set (graph_blocks mi rets)"
  using put_all [of "[]" "graph_blocks mi rets"] unfolding assms block_dict_of_def graph_blocks_def starts_def
  by (auto simp: Let_def)

lemma cfg_targets:
  assumes "miasm_ok mi" and "t \<in> set ts" and "0 \<le> t"
  shows "t \<in> starts (cfg_blocks mi (cfg_of mi (bytes, base, ts)))"
proof -
  let ?f = "dis_multiblock mi bytes base" and ?s = "\<lambda>c. starts (cfg_blocks mi c)"
  have k: "?s c \<subseteq> ?s (?f x c)" for x c using assms(1) by (simp add: miasm_ok_def)
  have m: "?s c \<subseteq> ?s (fold ?f xs c)" for xs c
  proof (induction xs arbitrary: c)
    case (Cons x xs)
    show ?case using order_trans [OF k Cons] by simp
  qed simp
  have f: "t \<in> ?s (fold ?f xs c)" if "t \<in> set xs" for xs c using that
  proof (induction xs arbitrary: c)
    case (Cons x xs)
    show ?case
    proof (cases "x = t")
      case True
      have "t \<in> ?s (?f t c)" using assms(1,3) by (simp add: miasm_ok_def)
      with True m [of "?f t c" xs] show ?thesis by auto
    qed (use Cons in simp)
  qed simp
  show ?thesis unfolding cfg_of_def Let_def prod.case by (rule f) (use assms(2) in auto)
qed

lemma graph_targets:
  assumes "miasm_ok mi" and "c \<in> set rets" and "t \<in> set (snd (snd c))" and "0 \<le> t"
  shows "t \<in> starts (graph_blocks mi rets)"
proof -
  obtain bytes base ts where c: "c = (bytes, base, ts)" by (cases c) auto
  have "set (cfg_blocks mi (cfg_of mi c)) \<subseteq> set (graph_blocks mi rets)"
    using assms(2) by (auto simp: graph_blocks_def)
  moreover have "t \<in> starts (cfg_blocks mi (cfg_of mi c))"
    using cfg_targets [OF assms(1), of t ts] assms(3,4) unfolding c by simp
  ultimately show ?thesis unfolding starts_def by blast
qed

section \<open>The targets that were read\<close>

lemma parse_hex_nonneg: "0 \<le> parse_hex s"
proof -
  have "0 \<le> a \<Longrightarrow> 0 \<le> foldl (\<lambda>a c. a * 16 + hex_val c) a s" for a
    by (induction s arbitrary: a) (simp_all add: hex_val_def Let_def)
  then show ?thesis by (simp add: parse_hex_def)
qed

lemma int16_nonneg:
  assumes "py_int16 s = Some i" and "CHR ''-'' \<notin> set s"
  shows "0 \<le> i"
proof -
  define u where "u = rev (dropWhile is_ws (rev (dropWhile is_ws s)))"
  have "set u \<subseteq> set s" unfolding u_def by (auto dest!: set_dropWhileD)
  then have "take 1 u \<noteq> ''-''" using assms(2) by (cases u) auto
  then show ?thesis using assms(1) parse_hex_nonneg by (auto simp: py_int16_def u_def [symmetric] Let_def)
qed

lemma split_at_pieces: "w \<in> set (split_at p s) \<Longrightarrow> c \<in> set w \<Longrightarrow> \<not> p c"
proof (induction p s rule: split_at.induct)
  case (1 p s)
  show ?case
  proof (cases "dropWhile (\<lambda>ch. \<not> p ch) s")
    case Nil
    with 1(2,3) show ?thesis by (subst (asm) split_at.simps) (auto dest: set_takeWhileD)
  next
    case (Cons b bs)
    have "w = takeWhile (\<lambda>ch. \<not> p ch) s \<or> w \<in> set (split_at p bs)"
      using 1(2) Cons by (subst (asm) split_at.simps) auto
    then show ?thesis using 1(1) [OF refl Cons] 1(3) by (auto dest: set_takeWhileD)
  qed
qed

lemma map_line_nonneg: "map_line l = Some (Some (a, b)) \<Longrightarrow> 0 \<le> a"
proof -
  assume "map_line l = Some (Some (a, b))"
  then obtain x y where s: "split_at (\<lambda>ch. ch = CHR ''-'') (split_at (\<lambda>ch. ch = CHR '' '') l ! 0) = [x, y]"
    and a: "py_int16 x = Some a"
    by (auto simp: map_line_def Let_def split: if_splits list.splits option.splits)
  have "CHR ''-'' \<notin> set x" 
    using split_at_pieces [of x "\<lambda>ch. ch = CHR ''-''" "split_at (\<lambda>ch. ch = CHR '' '') l ! 0" "CHR ''-''"]
    unfolding s by auto
  with a show "0 \<le> a" by (rule int16_nonneg)
qed

lemma those_elem: "those xs = Some ys \<Longrightarrow> y \<in> set ys \<Longrightarrow> Some y \<in> set xs"
  by (induction xs arbitrary: ys) (auto split: option.splits)

lemma getmap_nonneg:
  assumes "getmap f = Some maps" and "(a, b) \<in> set maps"
  shows "0 \<le> a"
proof -
  obtain rs where "those (map map_line (readlines (text_mode f))) = Some rs" "Some (a, b) \<in> set rs"
    using assms by (auto simp: getmap_def List.map_filter_def)
  from those_elem [OF this] obtain l where "map_line l = Some (Some (a, b))" by force
  then show ?thesis by (rule map_line_nonneg)
qed

lemma targets_in_map: "(\<And>ts. set (w ts) = set ts) \<Longrightarrow> targets_in (map (\<lambda>(k, ts). (k, w ts)) jt) = targets_in jt"
  by (auto simp: targets_in_def)

lemma within_misses:
  assumes "walk_ok w"
  shows "jt_within (snd ` set his) (add_misses w his [])"
proof -
  have "jt_within S jt \<Longrightarrow> snd ` set hs \<subseteq> S \<Longrightarrow> jt_within S (fold (\<lambda>(i, t). jt_append i t) hs jt)" for S hs jt
    by (induction hs arbitrary: jt) (auto simp: within_append)
  from this [of "snd ` set his" "[]" his]
  have f: "jt_within (snd ` set his) (fold (\<lambda>(i, t). jt_append i t) his [])" by (simp add: jt_within_def targets_in_def)
  have "map fst (map (\<lambda>(k, ts). (k, w ts)) jt) = map fst jt" for jt :: jump_table by (induction jt) auto
  moreover have "targets_in (map (\<lambda>(k, ts). (k, w ts)) jt) = targets_in jt" for jt :: jump_table
    by (rule targets_in_map) (use assms in \<open>simp add: walk_ok_def\<close>)
  ultimately show ?thesis using f unfolding jt_within_def add_misses_def by (simp only:)
qed

text \<open>Whatever is read: all targets are in the chunks, and none is negative.\<close>

lemma read_targets:
  assumes "walk_ok wi" and "read_mem ws wi ijf cf mf mem entry [] = Got (rets, jt)"
  obtains A where "entry \<in> A" "jt_within A jt" "\<And>t. t \<in> A \<Longrightarrow> 0 \<le> t \<and> (\<exists>c \<in> set rets. t \<in> set (snd (snd c)))"
proof -
  obtain his cl maps tof where p: "getmap mf = Some maps" "jt = add_misses wi his []"
    and t: "targets_of maps (wi (map snd his @ [entry] @ cl)) = Some tof" "rets = map (chunk_of maps mem) tof"
    using assms(2) by (fastforce simp: read_mem_def split: option.splits)
  let ?ts = "wi (map snd his @ [entry] @ cl)"
  have s: "set ?ts = snd ` set his \<union> {entry} \<union> set cl" using assms(1) by (auto simp: walk_ok_def)
  have h: "\<forall>t \<in> set ?ts. \<exists>m \<in> set maps. holds m t"
    using t(1) by (auto simp: targets_of_def list_all_iff list_ex_iff split: if_splits)
  have "chunks_ok mem maps (set ?ts) rets"
    using chunks_placed [OF h, of mem] t by (simp add: targets_of_def split: if_splits)
  then have c: "\<forall>t \<in> set ?ts. \<exists>c \<in> set rets. t \<in> set (snd (snd c))" by (simp add: chunks_ok_def)
  have n: "0 \<le> t" if "t \<in> set ?ts" for t
    using h that getmap_nonneg [OF p(1)] by (fastforce simp: holds_def)
  have "jt_within (set ?ts) jt"
    using within_misses [OF assms(1), of his] unfolding p(2) s jt_within_def by blast
  then show thesis using that [of "set ?ts"] c n s by blast
qed

section \<open>Every label has its code\<close>

lemma branch_J: "n \<in> set branches \<Longrightarrow> hd n = CHR ''J''"
  by (auto simp: branches_def conditional_branch_def unconditional_branch_def)

lemma line_resolved:
  assumes "line_ok b l x" and "found bl (missing, jt) l x" and "set (b_bto b) \<subseteq> fst ` set bl"
  shows "line_jumps l x \<subseteq> loc_label ` (fst ` set bl \<union> set missing) \<union> ij_label ` fst ` set jt \<union> {''comp_syscall'', ''ill_inst''}"
proof (cases "(l_name l = ''CALL'' \<or> l_name l \<in> set branches) \<and> is_loc (hd (l_args l))")
  case True
  then obtain lab where h: "hd (l_args l) = ExprLoc lab" by (auto simp: is_loc_def split: expr.splits)
  have lj: "line_jumps l x = {lab}" using True h by (simp add: line_jumps_def may_jump_def)
  show ?thesis
  proof (cases "direct_call l")
    case d: True
    then have "lab = loc_label (callee_of l)" using assms(1) h by (simp add: line_ok_def)
    moreover have "callee_of l \<in> fst ` set bl \<union> set missing" using assms(2) d by (auto simp: found_def split: if_splits)
    ultimately show ?thesis unfolding lj by blast
  next
    case False
    then have "l_name l \<in> set branches" using True by (auto simp: direct_call_def)
    then obtain t where "t \<in> set (b_bto b)" "lab = loc_label t" using assms(1) True h by (auto simp: line_ok_def)
    then show ?thesis unfolding lj using assms(3) by blast
  qed
next
  case False
  show ?thesis
  proof (cases "indirect_line l")
    case True
    have "\<not> direct_call l" using False by (auto simp: direct_call_def)
    then have "x \<in> fst ` set jt" using assms(2) True by (simp add: found_def)
    moreover have "line_jumps l x \<subseteq> {ij_label x, ''comp_syscall'', ''ill_inst''}"
      using False by (auto simp: line_jumps_def may_jump_def is_loc_def split: expr.splits)
    ultimately show ?thesis by blast
  next
    case ni: False
    then have "l_name l \<noteq> ''CALL'' \<and> l_name l \<notin> set branches \<and> l_name l \<noteq> ''RET''"
      using False branch_J by (auto simp: indirect_line_def)
    then show ?thesis by (auto simp: line_jumps_def)
  qed
qed

lemma jumps_resolved:
  assumes "\<And>k label b. (k, label, b) \<in> set bd \<Longrightarrow>
      set (b_bto b) \<subseteq> S \<and> (\<forall>(l, x) \<in> set (line_ends (b_lines b) k). line_ok b l x)"
    and "fst ` set (map (\<lambda>(k, label, b). (k, b)) bd) = S"
    and "\<And>k b l x. (k, b) \<in> set (map (\<lambda>(k, label, b). (k, b)) bd) \<Longrightarrow> (l, x) \<in> set (line_ends (b_lines b) k)
      \<Longrightarrow> found (map (\<lambda>(k, label, b). (k, b)) bd) (missing, jt) l x"
  shows "(\<Union>x \<in> set bd. block_jumps (b_lines (snd (snd x))) (fst x))
    \<subseteq> loc_label ` (S \<union> set missing) \<union> ij_label ` fst ` set jt \<union> {''comp_syscall'', ''ill_inst''}"
proof -
  let ?bl = "map (\<lambda>(k, label, b). (k, b)) bd"
    and ?L = "loc_label ` (S \<union> set missing) \<union> ij_label ` fst ` set jt \<union> {''comp_syscall'', ''ill_inst''}"
  have "block_jumps (b_lines b) k \<subseteq> ?L" if x: "(k, label, b) \<in> set bd" for k label b
  proof -
    have kb: "(k, b) \<in> set ?bl" using x by force
    have "line_jumps l y \<subseteq> ?L" if y: "(l, y) \<in> set (line_ends (b_lines b) k)" for l y
      using line_resolved [of b l y ?bl missing jt] assms(1) [OF x] assms(3) [OF kb y] y unfolding assms(2) by blast
    then show ?thesis unfolding block_jumps_def by blast
  qed
  then show ?thesis by fastforce
qed

lemma distinct_sort_fst: "distinct (map fst xs) \<Longrightarrow> distinct (map fst (sort_key fst xs))"
  by (simp add: distinct_map)

text \<open>What the search gives for the blocks of a good graph.\<close>

lemma search_graph:
  assumes "graphs_ok (graph_blocks mi rets)" and "bd = block_dict_of mi (map (cfg_of mi) rets)"
    and "jt_within (starts (graph_blocks mi rets)) jt0" and "bl = map (\<lambda>(k, label, b). (k, b)) bd"
  obtains missing jt where "find_ij (Suc (length bl)) bl jt0 = Done (missing, jt)"
    "search_ok (starts (graph_blocks mi rets)) bl (missing, jt)"
    "\<And>k b l x. (k, b) \<in> set bl \<Longrightarrow> (l, x) \<in> set (line_ends (b_lines b) k) \<Longrightarrow> found bl (missing, jt) l x"
proof -
  let ?S = "starts (graph_blocks mi rets)"
  note B = block_dict [OF assms(2)]
  have keys: "fst ` set bl = ?S" using B(2) unfolding assms(4) by (force simp: image_iff)
  have e: "(k, b) \<in> set bl \<Longrightarrow> \<exists>lab. (lab, b) \<in> set (graph_blocks mi rets) \<and> k = loc_offset lab" for k b
    using B(3) unfolding assms(4) by fastforce
  have cl: "closed bl" using assms(1) e unfolding closed_def keys graphs_ok_def list_all_iff by fastforce
  have "card (fst ` set bl) \<le> length bl" by (metis card_length length_map list.set_map)
  then have n: "Suc (length bl) > card (fst ` set bl)" by simp
  obtain st where st: "find_blocks (Suc (length bl)) bl bl ([], jt0) = Done st"
    "\<forall>(k, b) \<in> set bl. \<forall>(l, x) \<in> set (line_ends (b_lines b) k). found bl st l x"
    using find_blocks_ok [OF cl n] by blast
  have "search_ok ?S bl st"
  proof (rule find_blocks_within [OF st(1)])
    show "search_ok ?S bl ([], jt0)" using assms(3) by (simp add: search_ok_def)
    fix k b assume "(k, b) \<in> set bl"
    with e assms(1) show "call_ends (b_lines b) k \<subseteq> ?S"
      unfolding graphs_ok_def call_ends_def line_ok_def by fastforce
  qed
  moreover obtain missing jt where s: "st = (missing, jt)" by (cases st)
  ultimately show thesis using that [of missing jt] st unfolding find_ij_def s by blast
qed

lemma entry_no_label: "label_of (Line (''JMP     '' @ loc_label i)) = []"
proof -
  have "last (drop 2 (py_hex i)) \<in> set (hex_digits (nat \<bar>i\<bar>))" "drop 2 (py_hex i) \<noteq> []"
    using hex_digits_ok [of "nat i"] hex_digits_ok [of "nat (- i)"] by (simp_all add: py_hex_tail)
  then show ?thesis using hex_digits_ok [of "nat \<bar>i\<bar>"] by (auto simp: label_of_def loc_label_def)
qed

lemma labels_distinct:
  assumes "distinct (map fst bd)" and "distinct (map fst jt)" and "distinct missing" and "set missing \<inter> fst ` set bd = {}"
  shows "distinct (map (loc_label \<circ> fst) (sort_key fst bd) @ map (ij_label \<circ> fst) jt @ map loc_label missing)"
proof -
  have i: "distinct (map f xs)" if "inj f" "distinct xs" for f :: "int \<Rightarrow> string" and xs
    using that by (metis distinct_map inj_on_subset subset_UNIV)
  have "distinct (map loc_label (map fst (sort_key fst bd)))" "distinct (map ij_label (map fst jt))" "distinct (map loc_label missing)"
    using i [OF loc_label_inj] i [OF ij_label_inj] assms distinct_sort_fst by blast+
  moreover have "loc_label ` set missing \<inter> loc_label ` fst ` set bd = {}"
    using assms(4) loc_label_inj by (metis image_Int image_empty)
  ultimately show ?thesis using loc_not_ij loc_not_ij [symmetric] by (auto simp: image_comp)
qed

lemma subset_glue:
  "A \<subseteq> J \<union> T \<union> {f, e} \<Longrightarrow> J \<subseteq> L \<union> {a, i} \<Longrightarrow> T \<subseteq> L \<Longrightarrow> a \<in> C \<Longrightarrow> f \<in> C \<Longrightarrow> e \<in> C \<Longrightarrow> A \<subseteq> L \<union> C \<union> {i}"
  by blast

text \<open>The blocks and the two tables together.\<close>

lemma text_resolved:
  assumes "distinct (map fst bd)" and "fst ` set bd = S" and "search_ok S (map (\<lambda>(k, label, b). (k, b)) bd) (missing, jt)"
    and "jumps c \<subseteq> loc_label ` (S \<union> set missing) \<union> ij_label ` fst ` set jt \<union> {''comp_syscall'', ''ill_inst''}"
    and "labels c = map (loc_label \<circ> fst) (sort_key fst bd)"
    and "out = Line (''JMP     '' @ loc_label entry) # c @ make_jump_table jt @ make_callee_table missing"
  shows "distinct (labels out)" "loc_label ` S \<subseteq> set (labels out)"
    "jumps out \<subseteq> set (labels out) \<union> {l. code_at l \<noteq> None} \<union> {''ill_inst''}"
proof -
  have keys: "fst ` set (map (\<lambda>(k, label, b). (k, b)) bd) = fst ` set bd" by force
  have lo: "labels out = map (loc_label \<circ> fst) (sort_key fst bd) @ map (ij_label \<circ> fst) jt @ map loc_label missing"
    by (simp add: assms(5,6) entry_no_label [simplified] jump_table_jumps callee_table_jumps)
  have ls: "set (labels out) = loc_label ` (S \<union> set missing) \<union> ij_label ` fst ` set jt"
    unfolding lo assms(2) [symmetric] by (simp add: image_Un image_comp Un_ac)
  show "distinct (labels out)"
    unfolding lo by (rule labels_distinct [OF assms(1)]) (use assms(3) keys in \<open>auto simp: search_ok_def jt_within_def\<close>)
  show "loc_label ` S \<subseteq> set (labels out)" unfolding ls by blast
  show "jumps out \<subseteq> set (labels out) \<union> {l. code_at l \<noteq> None} \<union> {''ill_inst''}"
  proof (rule subset_glue)
    show "jumps out \<subseteq> jumps c \<union> loc_label ` targets_in jt \<union> {''ij_failed'', ''exit''}"
      using jump_table_jumps(1) [of jt] callee_table_jumps(1) [of missing] by (auto simp: assms(6))
    show "jumps c \<subseteq> set (labels out) \<union> {''comp_syscall'', ''ill_inst''}" using assms(4) unfolding ls .
    show "loc_label ` targets_in jt \<subseteq> set (labels out)"
      using assms(3) unfolding ls by (auto simp: search_ok_def jt_within_def)
  qed (simp_all add: code_at_def)
qed


lemma mi0_ok: "miasm_ok mi0"
  by (auto simp: miasm_ok_def mi0_def starts_def loc_offset_label)

lemma mi0_text:
  "block_text (\<lambda>xs. xs) False (0x10, l, \<lparr>b_lines = [line0 ''CALL'' [ExprLoc (loc_label 0x18)]], b_bto = [0x12]\<rparr>) \<noteq> None
   \<and> block_text (\<lambda>xs. xs) False (0x12, l, \<lparr>b_lines = [line0 ''SYSCALL'' []], b_bto = []\<rparr>) \<noteq> None
   \<and> block_text (\<lambda>xs. xs) False (0x18, l, \<lparr>b_lines = [line0 ''RET'' []], b_bto = []\<rparr>) \<noteq> None"
  unfolding block_text_def fst_conv snd_conv by code_simp


end
