(* ===== verification/Io_File.thy ===== *)
theory Io_File
  imports UB_Prelude
begin

text \<open>
  The file read benchmark (\<open>apps/io_file/common.h\<close> and \<open>syscall_read.c\<close>): one run makes
  \<open>Dot_Num\<close> \<open>pread\<close> calls and measures them with \<open>rdtscp\<close>. Calls out of the program are
  recorded in a trace; what they return is a parameter, a function of the trace so far.
  \<open>None\<close> is a trap (division by zero, a null argument). \<open>summary\<close> only prints floating point
  rates; its argument is recorded.
\<close>

section \<open>Constants and state\<close>

definition CPU_NUM :: nat where "CPU_NUM = 24"

definition Dot_Num :: nat where "Dot_Num = 0x800000"

definition READ_ORDER :: nat where "READ_ORDER = 0"

definition RAND_LIM :: u64 where "RAND_LIM = 4"

definition RAND_LIM_PAGE :: u64 where "RAND_LIM_PAGE = RAND_LIM * 1024 * 1024 * 1024"

definition LIM_MAX :: u64 where "LIM_MAX = RAND_LIM * 1024 * 1024 * 1024"

definition USE_PAGES :: nat where "USE_PAGES = 16384"

definition PAGE :: nat where "PAGE = 131072"

datatype io_call = Open | Memalign nat nat cint | Rdtscp | Pread cint nat cint u64 | Close cint
  | Summary u64 | SetAffinity "nat set" | GetAffinity | Warn string | OnCpu nat

record io_env =
  open_ret :: "io_call list \<Rightarrow> cint"
  tsc :: "io_call list \<Rightarrow> u64 \<times> u64"
  set_aff :: "io_call list \<Rightarrow> cint"
  get_aff :: "io_call list \<Rightarrow> cint \<times> nat set"

record io_st =
  rng_x :: u64
  rng_y :: u64
  rng_z :: u64
  buffer_size :: cint
  rand_lim_page :: u64
  io_trace :: "io_call list"

definition note_call :: "io_call \<Rightarrow> io_st \<Rightarrow> io_st" where
  "note_call k s = s\<lparr>io_trace := io_trace s @ [k]\<rparr>"

section \<open>\<open>common.h\<close>\<close>

text \<open>\<open>x ^= x << 16; x ^= x >> 5; x ^= x << 1\<close>\<close>

definition mix :: "u64 \<Rightarrow> u64" where
  "mix x = (let x1 = x XOR push_bit 16 x; x2 = x1 XOR drop_bit 5 x1 in x2 XOR push_bit 1 x2)"

definition fastrand :: "io_st \<Rightarrow> u64 \<times> io_st" where
  "fastrand s =
     (let t = mix (rng_x s); x' = rng_y s; y' = rng_z s; z' = t XOR x' XOR y'
      in (z', s\<lparr>rng_x := x', rng_y := y', rng_z := z'\<rparr>))"

definition next_pos :: "u64 \<Rightarrow> io_st \<Rightarrow> (u64 \<times> io_st) option" where
  "next_pos pos s =
     (if READ_ORDER = 0 then Some ((pos + scast (buffer_size s)) mod LIM_MAX, s)
      else if READ_ORDER = 1 then Some (pos, s)
      else if READ_ORDER = 2
      then if rand_lim_page s = 0 then None
           else let (r, s1) = fastrand s in Some (r mod rand_lim_page s * scast (buffer_size s), s1)
      else Some (0, s))"

definition rdtscp :: "io_env \<Rightarrow> io_st \<Rightarrow> u64 \<times> io_st" where
  "rdtscp e s = (let (rax, rdx) = tsc e (io_trace s) in (push_bit 32 rdx OR rax, note_call Rdtscp s))"

text \<open>\<open>attach_cpu\<close>, which asks about the first \<open>num\<close> processors; the receiver in \<open>raw_socket_udp.c\<close> has a copy with 48.\<close>

definition attach_num :: "nat \<Rightarrow> io_env \<Rightarrow> nat \<Rightarrow> io_st \<Rightarrow> io_st" where
  "attach_num num e cpu s =
     (let s1 = note_call (SetAffinity {cpu}) s;
          s2 = (if set_aff e (io_trace s1) = -1 then note_call (Warn ''could not set CPU affinity'') s1 else s1);
          s3 = note_call GetAffinity s2;
          (r, got) = get_aff e (io_trace s3);
          s4 = (if r = -1 then note_call (Warn ''cound not get thread affinity'') s3 else s3);
          get = (if r = -1 then {} else got)
      in fold (\<lambda>i s. if i \<in> get then note_call (OnCpu i) s else s) [0..<num] s4)"

definition attach_cpu :: "io_env \<Rightarrow> nat \<Rightarrow> io_st \<Rightarrow> io_st" where
  "attach_cpu = attach_num CPU_NUM"

definition attach_cpu_raw :: "io_env \<Rightarrow> nat \<Rightarrow> io_st \<Rightarrow> io_st" where
  "attach_cpu_raw = attach_num 48"

section \<open>\<open>syscall_read.c\<close>\<close>

primrec alloc_bufs :: "nat \<Rightarrow> io_st \<Rightarrow> io_st" where
  "alloc_bufs 0 s = s"
| "alloc_bufs (Suc n) s = (let s1 = alloc_bufs n s in note_call (Memalign n PAGE (buffer_size s1)) s1)"

text \<open>The reads from number \<open>i\<close> on, \<open>n\<close> of them.\<close>

primrec read_loop :: "cint \<Rightarrow> nat \<Rightarrow> nat \<Rightarrow> u64 \<Rightarrow> io_st \<Rightarrow> io_st option" where
  "read_loop fd 0 i ofs s = Some s"
| "read_loop fd (Suc n) i ofs s =
     (let s1 = note_call (Pread fd (i mod USE_PAGES) (buffer_size s) ofs) s
      in case next_pos ofs s1 of None \<Rightarrow> None | Some (ofs1, s2) \<Rightarrow> read_loop fd n (Suc i) ofs1 s2)"

definition syscall_read :: "io_env \<Rightarrow> io_st \<Rightarrow> (u64 \<times> io_st) option" where
  "syscall_read e s =
     (let fd = open_ret e (io_trace s); s1 = note_call Open s in
      if sint fd < 0 then Some (1, s1)
      else let s2 = alloc_bufs USE_PAGES s1;
               (start_t, s3) = rdtscp e s2
           in case read_loop fd Dot_Num 0 0 s3 of
                None \<Rightarrow> None
              | Some s4 \<Rightarrow> let (end_t, s5) = rdtscp e s4 in Some (end_t - start_t, note_call (Close fd) s5))"

text \<open>C's \<open>atoi\<close>: white space, a sign, decimal digits; the rest of the string is ignored.\<close>

definition digit_val :: "char \<Rightarrow> int" where
  "digit_val ch = of_char ch - 48"

definition is_digit :: "char \<Rightarrow> bool" where
  "is_digit ch \<longleftrightarrow> 0 \<le> digit_val ch \<and> digit_val ch \<le> 9"

definition atoi :: "string \<Rightarrow> cint" where
  "atoi str =
     (let t = dropWhile (\<lambda>ch. ch = CHR '' '' \<or> (of_char ch :: nat) \<in> {9..13}) str;
          neg = (t \<noteq> [] \<and> hd t = CHR ''-'');
          u = (if t \<noteq> [] \<and> (hd t = CHR ''-'' \<or> hd t = CHR ''+'') then tl t else t);
          n = foldl (\<lambda>a ch. 10 * a + digit_val ch) 0 (takeWhile is_digit u)
      in of_int (if neg then - n else n))"

primrec run_times :: "nat \<Rightarrow> io_env \<Rightarrow> io_st \<Rightarrow> io_st option" where
  "run_times 0 e s = Some s"
| "run_times (Suc n) e s =
     (case syscall_read e s of None \<Rightarrow> None | Some (gap, s1) \<Rightarrow> run_times n e (note_call (Summary gap) s1))"

text \<open>\<open>main\<close>: one run to warm up and ten more.\<close>

definition io_main :: "io_env \<Rightarrow> string list \<Rightarrow> io_st \<Rightarrow> io_st option" where
  "io_main e argv s =
     (if length argv < 2 then None
      else let b = atoi (argv ! 1); s1 = s\<lparr>buffer_size := b\<rparr>
           in if (scast b :: u64) = 0 then None
              else case run_times 1 e (s1\<lparr>rand_lim_page := RAND_LIM_PAGE div scast b\<rparr>) of
                     None \<Rightarrow> None
                   | Some s2 \<Rightarrow> run_times 10 e s2)"

section \<open>What is said of it\<close>

text \<open>The calls of one run: the reads walk through the file and start again at 4 GiB.\<close>

definition run_calls :: "cint \<Rightarrow> cint \<Rightarrow> io_call list" where
  "run_calls fd b = [Open] @ map (\<lambda>i. Memalign i PAGE b) [0..<USE_PAGES] @ [Rdtscp]
     @ map (\<lambda>k. Pread fd (k mod USE_PAGES) b (of_nat k * scast b mod LIM_MAX)) [0..<Dot_Num] @ [Rdtscp, Close fd]"

section \<open>What is said of it\<close>

text \<open>What one run contributes to the trace, and the rates it reports.\<close>

definition reported :: "cint \<Rightarrow> cint \<Rightarrow> u64 list \<Rightarrow> io_call list" where
  "reported fd b gaps = concat (map (\<lambda>g. (if sint fd < 0 then [Open] else run_calls fd b) @ [Summary g]) gaps)"

definition io_env0 :: io_env where
  "io_env0 = \<lparr>open_ret = (\<lambda>_. 3), tsc = (\<lambda>t. (of_nat (length t), 1)), set_aff = (\<lambda>_. 0), get_aff = (\<lambda>_. (0, {0}))\<rparr>"

definition io_st0 :: io_st where
  "io_st0 = \<lparr>rng_x = 123456789, rng_y = 362436069, rng_z = 521288629, buffer_size = 8, rand_lim_page = 0, io_trace = []\<rparr>"

definition rng :: "io_st \<Rightarrow> u64 \<times> u64 \<times> u64" where
  "rng s = (rng_x s, rng_y s, rng_z s)"

lemma lim: "LIM_MAX = 2 ^ 32"
  by (simp add: LIM_MAX_def RAND_LIM_def)

lemma mod_lim: "(x mod 2 ^ 32 + y) mod 2 ^ 32 = (x + y) mod (2 ^ 32 :: u64)"
proof -
  have "uint ((x mod 2 ^ 32 + y) mod 2 ^ 32) = (uint x mod 2 ^ 32 + uint y) mod 2 ^ 64 mod 2 ^ 32"
    by (simp add: uint_word_ariths uint_mod)
  also have "\<dots> = (uint x + uint y) mod 2 ^ 64 mod 2 ^ 32" by (simp add: mod_mod_cancel mod_simps)
  also have "\<dots> = uint ((x + y) mod 2 ^ 32)" by (simp add: uint_word_ariths uint_mod)
  finally show ?thesis by (simp add: word_uint_eq_iff)
qed

lemma alloc_bufs_calls:
  "alloc_bufs n s = s\<lparr>io_trace := io_trace s @ map (\<lambda>i. Memalign i PAGE (buffer_size s)) [0..<n]\<rparr>"
  by (induction n) (simp_all add: note_call_def Let_def)

lemma read_loop_calls:
  "read_loop fd n i (of_nat i * scast (buffer_size s) mod LIM_MAX) s = Some (s\<lparr>io_trace := io_trace s
     @ map (\<lambda>k. Pread fd (k mod USE_PAGES) (buffer_size s) (of_nat k * scast (buffer_size s) mod LIM_MAX)) [i..<i + n]\<rparr>)"
proof (induction n arbitrary: i s)
  case 0
  then show ?case by simp
next
  case (Suc n)
  let ?b = "scast (buffer_size s) :: u64"
  have o: "(of_nat i * ?b mod LIM_MAX + ?b) mod LIM_MAX = of_nat (Suc i) * ?b mod LIM_MAX"
    unfolding lim mod_lim by (simp add: algebra_simps)
  have u: "[i..<i + Suc n] = i # [Suc i..<Suc i + n]" by (simp add: upt_conv_Cons del: upt_Suc)
  show ?case
    using Suc.IH [of "Suc i" "note_call (Pread fd (i mod USE_PAGES) (buffer_size s) (of_nat i * ?b mod LIM_MAX)) s"]
    unfolding u by (simp add: next_pos_def READ_ORDER_def note_call_def o Let_def del: upt_Suc of_nat_Suc)
qed

lemma rdtscp_call: "snd (rdtscp e s) = note_call Rdtscp s"
  by (simp add: rdtscp_def split_beta)

lemma syscall_read_calls:
  shows "sint (open_ret e (io_trace s)) < 0 \<Longrightarrow> syscall_read e s = Some (1, note_call Open s)"
    and "0 \<le> sint (open_ret e (io_trace s)) \<Longrightarrow> \<exists>gap. syscall_read e s =
      Some (gap, s\<lparr>io_trace := io_trace s @ run_calls (open_ret e (io_trace s)) (buffer_size s)\<rparr>)"
proof -
  have r: "read_loop fd n 0 0 t = Some (t\<lparr>io_trace := io_trace t
     @ map (\<lambda>k. Pread fd (k mod USE_PAGES) (buffer_size t) (of_nat k * scast (buffer_size t) mod LIM_MAX)) [0..<n]\<rparr>)" for fd n t
    using read_loop_calls [of fd n 0 t] by simp
  show "sint (open_ret e (io_trace s)) < 0 \<Longrightarrow> syscall_read e s = Some (1, note_call Open s)"
    by (simp add: syscall_read_def Let_def)
  show "0 \<le> sint (open_ret e (io_trace s)) \<Longrightarrow> \<exists>gap. syscall_read e s =
      Some (gap, s\<lparr>io_trace := io_trace s @ run_calls (open_ret e (io_trace s)) (buffer_size s)\<rparr>)"
    by (auto simp: syscall_read_def Let_def r alloc_bufs_calls rdtscp_def note_call_def run_calls_def split_beta)
qed

lemma run_times_calls:
  assumes "\<And>t. open_ret e t = fd"
  shows "\<exists>gaps. length gaps = n \<and> (sint fd < 0 \<longrightarrow> gaps = replicate n 1)
    \<and> run_times n e s = Some (s\<lparr>io_trace := io_trace s @ reported fd (buffer_size s) gaps\<rparr>)"
proof (induction n arbitrary: s)
  case 0
  then show ?case by (simp add: reported_def)
next
  case (Suc n)
  obtain g where g: "sint fd < 0 \<longrightarrow> g = 1" and
    c: "syscall_read e s = Some (g, s\<lparr>io_trace := io_trace s @ (if sint fd < 0 then [Open] else run_calls fd (buffer_size s))\<rparr>)"
    using syscall_read_calls [of e s] assms by (cases "sint fd < 0") (auto simp: note_call_def)
  obtain gs where "length gs = n" "sint fd < 0 \<longrightarrow> gs = replicate n 1"
    "run_times n e (s\<lparr>io_trace := io_trace s @ (if sint fd < 0 then [Open] else run_calls fd (buffer_size s)) @ [Summary g]\<rparr>)
       = Some (s\<lparr>io_trace := io_trace s @ (if sint fd < 0 then [Open] else run_calls fd (buffer_size s)) @ [Summary g]
           @ reported fd (buffer_size s) gs\<rparr>)"
    using Suc.IH [of "s\<lparr>io_trace := io_trace s @ (if sint fd < 0 then [Open] else run_calls fd (buffer_size s)) @ [Summary g]\<rparr>"]
    by auto
  then show ?case using g c by (intro exI [of _ "g # gs"]) (auto simp: note_call_def reported_def)
qed

lemma scast_0: "(scast (b :: cint) :: u64) = 0 \<longleftrightarrow> b = 0"
proof
  assume z: "(scast b :: u64) = 0"
  have "sint b = sint (scast b :: u64)" by (simp add: sint_up_scast is_up)
  moreover have "b = of_int (sint b)" by simp
  ultimately show "b = 0" using z by simp
qed simp

text \<open>
  C36: The file benchmark does the work it reports on. With a buffer size that is not zero, and a file
  that opens, each of its eleven runs allocates the buffers, reads the clock, makes exactly
  \<open>Dot_Num\<close> reads, the k-th at offset k times the buffer size modulo 4 GiB into buffer k modulo
  16384, reads the clock again, closes the file and prints one summary. When the file does not
  open, no read is made and the error value 1 is reported as the measured time. Size zero traps.
\<close>

theorem io_main_calls:
  assumes "2 \<le> length argv" and "\<And>t. open_ret e t = fd"
  shows "if atoi (argv ! 1) = 0 then io_main e argv s = None
    else \<exists>gaps s'. io_main e argv s = Some s' \<and> length gaps = 11 \<and> (sint fd < 0 \<longrightarrow> gaps = replicate 11 1)
      \<and> io_trace s' = io_trace s @ reported fd (atoi (argv ! 1)) gaps"
proof (cases "atoi (argv ! 1) = 0")
  case True
  then show ?thesis using assms(1) by (simp add: io_main_def Let_def)
next
  case False
  let ?b = "atoi (argv ! 1)"
  let ?s = "s\<lparr>buffer_size := ?b, rand_lim_page := RAND_LIM_PAGE div scast ?b\<rparr>"
  obtain g where g: "length g = 1" "sint fd < 0 \<longrightarrow> g = replicate 1 1"
    "run_times 1 e ?s = Some (?s\<lparr>io_trace := io_trace s @ reported fd ?b g\<rparr>)"
    using run_times_calls [OF assms(2), of 1 ?s] by auto
  obtain h where h: "length h = 10" "sint fd < 0 \<longrightarrow> h = replicate 10 1"
    "run_times 10 e (?s\<lparr>io_trace := io_trace s @ reported fd ?b g\<rparr>)
       = Some (?s\<lparr>io_trace := io_trace s @ reported fd ?b g @ reported fd ?b h\<rparr>)"
    using run_times_calls [OF assms(2), of 10 "?s\<lparr>io_trace := io_trace s @ reported fd ?b g\<rparr>"] by auto
  have r: "reported fd b g @ reported fd b h = reported fd b (g @ h)" for b by (simp add: reported_def)
  have m: "io_main e argv s = Some (?s\<lparr>io_trace := io_trace s @ reported fd ?b (g @ h)\<rparr>)"
    using assms(1) False g(3) h(3) by (simp add: io_main_def Let_def scast_0 r del: run_times.simps)
  have "sint fd < 0 \<longrightarrow> g @ h = replicate 11 1"
    using g(2) h(2) by (auto simp: numeral_eq_Suc)
  moreover have "length (g @ h) = 11" using g(1) h(1) by simp
  moreover have "io_trace (?s\<lparr>io_trace := io_trace s @ reported fd ?b (g @ h)\<rparr>) = io_trace s @ reported fd ?b (g @ h)"
    by simp
  ultimately show ?thesis using False m by metis
qed

theorem io_main_calls_witness:
  "(\<exists>gaps s'. io_main io_env0 [''syscall_read'', ''4096''] io_st0 = Some s' \<and> length gaps = 11
      \<and> io_trace s' = reported 3 4096 gaps)
   \<and> io_main io_env0 [''syscall_read'', ''x''] io_st0 = None"
proof -
  have a: "atoi ''4096'' = 4096" "atoi ''x'' = 0" by code_simp+
  have o: "open_ret io_env0 t = 3" for t by (simp add: io_env0_def)
  show ?thesis
    using io_main_calls [OF _ o, of "[''syscall_read'', ''4096'']" io_st0]
      io_main_calls [OF _ o, of "[''syscall_read'', ''x'']" io_st0] a
    by (simp add: io_st0_def)
qed

section \<open>The random order\<close>

lemma shift_fix:
  fixes d :: u64
  assumes "0 < n" and "d = push_bit n d"
  shows "d = 0"
proof -
  have "\<not> bit d k" for k
  proof (induction k rule: less_induct)
    case (less k)
    have "bit d k \<longleftrightarrow> bit (push_bit n d) k" using assms(2) by simp
    also have "\<dots> \<longleftrightarrow> k < 64 \<and> n \<le> k \<and> bit d (k - n)" by (auto simp: bit_push_bit_iff)
    finally show ?case using less [of "k - n"] assms(1) by (cases "n \<le> k") auto
  qed
  then show ?thesis by (simp add: bit_eq_iff)
qed

lemma xor_cancel:
  fixes x y :: u64
  assumes "x XOR f x = y XOR f y" and "\<And>a b. f (a XOR b) = f a XOR f b"
  shows "x XOR y = f (x XOR y)"
proof (rule bit_word_eqI)
  fix k
  have "bit (x XOR f x) k = bit (y XOR f y) k" using assms(1) by simp
  then show "bit (x XOR y) k = bit (f (x XOR y)) k" unfolding assms(2) bit_xor_iff by blast
qed

lemma xor_zero: "x XOR y = 0 \<Longrightarrow> x = (y :: u64)"
proof (rule bit_word_eqI)
  fix k
  assume "x XOR y = 0"
  then have "bit (x XOR y) k = bit (0 :: u64) k" by simp
  then show "bit x k = bit y k" by (simp add: bit_xor_iff)
qed

lemma shift_down_fix:
  fixes d :: u64
  assumes "0 < n" and "d = drop_bit n d"
  shows "d = 0"
proof -
  have "\<not> bit d (64 - k)" if "k \<le> 64" for k
    using that
  proof (induction k rule: less_induct)
    case (less k)
    have b: "bit d (64 - k) \<longleftrightarrow> bit d (n + (64 - k))" using assms(2) by (metis bit_drop_bit_eq comp_apply)
    show ?case
    proof (cases "n \<le> k")
      case True
      then have "n + (64 - k) = 64 - (k - n)" using less.prems by simp
      with less.IH [of "k - n"] less.prems True assms(1) b show ?thesis by simp
    next
      case False
      then have "64 \<le> n + (64 - k)" using less.prems by simp
      with b show ?thesis using bit_imp_le_length [of d "n + (64 - k)"] by auto
    qed
  qed
  from this [of "64 - k" for k] have "k \<le> 64 \<Longrightarrow> \<not> bit d k" for k by (metis diff_diff_cancel diff_le_self)
  then show ?thesis by (intro bit_word_eqI) simp
qed

text \<open>The generator permutes its states: it never falls into the zero state, and every seed recurs.\<close>

lemma mix_inj: "mix x = mix y \<Longrightarrow> x = y"
proof -
  have up: "a XOR push_bit n a = b XOR push_bit n b \<Longrightarrow> 0 < n \<Longrightarrow> a = b" for a b :: u64 and n
    by (rule xor_zero, rule shift_fix, assumption, rule xor_cancel [where f = "push_bit n"]) simp_all
  have down: "a XOR drop_bit 5 a = b XOR drop_bit 5 b \<Longrightarrow> a = b" for a b :: u64
    by (rule xor_zero, rule shift_down_fix [of 5], simp, rule xor_cancel [where f = "drop_bit 5"]) simp_all
  show "mix x = mix y \<Longrightarrow> x = y" unfolding mix_def Let_def by (drule up, simp, drule down, drule up) simp_all
qed

lemma fastrand_perm:
  assumes "rng (snd (fastrand s)) = rng (snd (fastrand t))"
  shows "rng s = rng t"
proof -
  have e: "rng_y s = rng_y t" "rng_z s = rng_z t"
    "mix (rng_x s) XOR (rng_y s XOR rng_z s) = mix (rng_x t) XOR (rng_y s XOR rng_z s)"
    using assms by (auto simp: fastrand_def rng_def Let_def xor.assoc)
  have "mix (rng_x s) = mix (rng_x t)"
  proof (rule bit_word_eqI)
    fix k
    have "bit (mix (rng_x s) XOR (rng_y s XOR rng_z s)) k = bit (mix (rng_x t) XOR (rng_y s XOR rng_z s)) k"
      using e(3) by simp
    then show "bit (mix (rng_x s)) k = bit (mix (rng_x t)) k" unfolding bit_xor_iff by blast
  qed
  then show ?thesis using mix_inj e by (simp add: rng_def)
qed

lemma fastrand_alive: "rng s \<noteq> (0, 0, 0) \<Longrightarrow> rng (snd (fastrand s)) \<noteq> (0, 0, 0)"
  using fastrand_perm [of s "s\<lparr>rng_x := 0, rng_y := 0, rng_z := 0\<rparr>"]
  by (auto simp: fastrand_def rng_def Let_def mix_def)

end
