(* ===== verification/Udp.thy ===== *)
theory Udp
  imports UB_Prelude
begin

text \<open>
  The packet benchmarks: the raw socket receiver (\<open>apps/socket/udp/raw_socket_udp.c\<close>), the XDP
  counter (\<open>apps/socket/bpf/udp_counter.c\<close>) and the sender (\<open>apps/socket/send_udp.c\<close>). Calls out
  of the programs are recorded in a trace; their answers are parameters, functions of the trace.
\<close>

section \<open>Raw socket receiver\<close>

datatype net_call = Malloc nat | Clock | SpinLock | SpinUnlock | Recvfrom | RecvError cint
  | Socket | SocketError | BindToDevice string | SpinInit | Say string | Rate u64 | CloseSock | SpinDestroy
  | Setsockopt | Gettid | Sendto | SendError

record net_env =
  recv_ret :: "net_call list \<Rightarrow> cint \<times> u8 list"
  clock_ret :: "net_call list \<Rightarrow> u64"
  socket_ret :: "net_call list \<Rightarrow> cint"

definition Batch :: nat where "Batch = 10000000"

definition Batch2 :: nat where "Batch2 = 4000000"

definition buf_len :: nat where "buf_len = 4096"

text \<open>
  \<open>for(int j=0; j<data_size-4; j+=4) total += buffer[j];\<close> as the positions that are read and the
  sum0; \<open>None\<close> is a read outside the 4096 bytes of the buffer.
\<close>

function sum_loop :: "u8 list \<Rightarrow> int \<Rightarrow> int \<Rightarrow> cint \<Rightarrow> cint option" where
  "sum_loop buffer data_size j tot =
     (if j < data_size - 4
      then if 0 \<le> j \<and> j < int (length buffer)
           then sum_loop buffer data_size (j + 4) (tot + ucast (buffer ! nat j))
           else None
      else Some tot)"
  by pat_completeness auto

termination by (relation "measure (\<lambda>(_, d, j, _). nat (d - j))") auto

declare sum_loop.simps [simp del]

text \<open>The bytes a \<open>recvfrom\<close> with room for 4096 puts into the buffer.\<close>

definition recv_into :: "u8 list \<Rightarrow> u8 list \<Rightarrow> u8 list" where
  "recv_into buffer got = (let g = take buf_len got in g @ drop (length g) buffer)"

text \<open>
  \<open>while(i++<threshold)\<close>, with the number of turns left; the outer result is \<open>None\<close> for a read outside the buffer. The
  value is whether the loop ran to its end.
\<close>

primrec sniff_loop :: "net_env \<Rightarrow> bool \<Rightarrow> nat \<Rightarrow> u8 list \<Rightarrow> cint \<Rightarrow> net_call list \<Rightarrow> (bool \<times> net_call list) option" where
  "sniff_loop e sum0 0 buffer tot tr = Some (True, tr)"
| "sniff_loop e sum0 (Suc n) buffer tot tr =
     (let tr1 = tr @ [SpinLock];
          (data_size, got) = recv_ret e tr1;
          tr2 = tr1 @ [Recvfrom];
          buffer1 = recv_into buffer got
      in case (if sum0 then sum_loop buffer1 (sint data_size) 0 tot else Some tot) of
           None \<Rightarrow> None
         | Some tot1 \<Rightarrow>
             let tr3 = tr2 @ [SpinUnlock]
             in if sint data_size < 0 then Some (False, tr3 @ [RecvError data_size])
                else sniff_loop e sum0 n buffer1 tot1 tr3)"

definition sniff :: "net_env \<Rightarrow> bool \<Rightarrow> bool \<Rightarrow> u8 list \<Rightarrow> net_call list \<Rightarrow> (u64 \<times> net_call list) option" where
  "sniff e flag sum0 junk tr =
     (let tr1 = tr @ [Malloc buf_len];
          threshold = (if flag then Batch else Batch2);
          start = clock_ret e tr1; tr2 = tr1 @ [Clock]
      in case sniff_loop e sum0 threshold junk 0 tr2 of
           None \<Rightarrow> None
         | Some (True, tr3) \<Rightarrow> Some (clock_ret e tr3 - start, tr3 @ [Clock])
         | Some (False, tr3) \<Rightarrow> Some (-1, tr3))"

primrec sniff_rounds :: "nat \<Rightarrow> net_env \<Rightarrow> bool \<Rightarrow> u8 list \<Rightarrow> net_call list \<Rightarrow> net_call list option" where
  "sniff_rounds 0 e sum0 junk tr = Some tr"
| "sniff_rounds (Suc n) e sum0 junk tr =
     (case sniff e False sum0 junk tr of None \<Rightarrow> None
      | Some (ustime, tr1) \<Rightarrow> sniff_rounds n e sum0 junk (tr1 @ [Rate ustime]))"

text \<open>\<open>main\<close>, with the value of \<open>atoi(argv[1])\<close>; the result is the exit status.\<close>

definition udp_main :: "net_env \<Rightarrow> cint \<Rightarrow> u8 list \<Rightarrow> (cint \<times> net_call list) option" where
  "udp_main e sum0 junk =
     (let fd = socket_ret e []; tr = [Socket] in
      if sint fd < 0 then Some (1, tr @ [SocketError])
      else let tr1 = tr @ [BindToDevice ''ens160'', SpinInit, Say ''start''] in
           case sniff e True (sum0 \<noteq> 0) junk tr1 of
             None \<Rightarrow> None
           | Some (_, tr2) \<Rightarrow>
               (case sniff_rounds 10 e (sum0 \<noteq> 0) junk (tr2 @ [Say ''Speed up!'']) of
                  None \<Rightarrow> None
                | Some tr3 \<Rightarrow> Some (0, tr3 @ [CloseSock, SpinDestroy])))"

section \<open>XDP counter\<close>

text \<open>The frame is the bytes from \<open>data\<close> to \<open>data_end\<close>; the two histograms are maps from bucket to count.\<close>

record xdp_st =
  counter :: "u64 \<Rightarrow> u64"
  time_hist :: "u64 \<Rightarrow> u64"

definition incr :: "u64 \<Rightarrow> (u64 \<Rightarrow> u64) \<Rightarrow> u64 \<Rightarrow> u64" where
  "incr k h = h(k := h k + 1)"

definition eth_len :: nat where "eth_len = 14"

definition ip_len :: nat where "ip_len = 20"

definition udp_len :: nat where "udp_len = 8"

definition IPPROTO_UDP :: u8 where "IPPROTO_UDP = 17"

definition byte_at :: "u8 list \<Rightarrow> nat \<Rightarrow> u8 option" where
  "byte_at p i = (if i < length p then Some (p ! i) else None)"

text \<open>\<open>MESG[i]\<close>: four bytes, little endian; \<open>None\<close> outside the frame.\<close>

definition int_at :: "u8 list \<Rightarrow> nat \<Rightarrow> cint option" where
  "int_at p i = (if i + 4 \<le> length p then Some (dec (take 4 (drop i p))) else None)"

text \<open>\<open>for(i=0; i<1024 && MESG+i+4 < (int*)data_end; i++) sum += MESG[i]\<close>, with \<open>n = 1024 - i\<close>.\<close>

primrec mesg_sum :: "nat \<Rightarrow> u8 list \<Rightarrow> nat \<Rightarrow> cint \<Rightarrow> cint option" where
  "mesg_sum 0 p i sm = Some sm"
| "mesg_sum (Suc n) p i sm =
     (let base = eth_len + ip_len + udp_len in
      if base + 4 * (i + 4) < length p
      then case int_at p (base + 4 * i) of None \<Rightarrow> None | Some v \<Rightarrow> mesg_sum n p (Suc i) (sm + v)
      else Some sm)"

text \<open>\<open>t0\<close> and \<open>t1\<close> are the two readings of \<open>bpf_ktime_get_ns\<close>; \<open>cal\<close> is 0 in the source. Every path ends in \<open>XDP_PASS\<close>.\<close>

datatype xdp_action = XDP_PASS

definition udp_counter :: "bool \<Rightarrow> u64 \<Rightarrow> u64 \<Rightarrow> u8 list \<Rightarrow> xdp_st \<Rightarrow> (xdp_action \<times> xdp_st) option" where
  "udp_counter cal t0 t1 p s =
     (if eth_len \<le> length p
      then let s1 = s\<lparr>counter := incr 1 (counter s)\<rparr> in
        if eth_len + ip_len \<le> length p
        then case byte_at p (eth_len + 9) of
               None \<Rightarrow> None
             | Some proto \<Rightarrow>
                 if proto = IPPROTO_UDP
                 then let s2 = (if eth_len + ip_len + udp_len \<le> length p then s1\<lparr>counter := incr 1 (counter s1)\<rparr> else s1)
                   in case (if eth_len + ip_len + udp_len \<le> length p \<and> cal then mesg_sum 1024 p 0 0 else Some 0) of
                        None \<Rightarrow> None
                      | Some _ \<Rightarrow> Some (XDP_PASS, s2\<lparr>time_hist := incr (t1 - t0) (time_hist s2)\<rparr>)
                 else Some (XDP_PASS, s1)
        else Some (XDP_PASS, s1)
      else Some (XDP_PASS, s))"

section \<open>Sender\<close>

text \<open>
  \<open>for(int i=0; i<500000000000; i++)\<close>: \<open>i\<close> is a 32-bit integer that wraps, the bound does not fit
  into it. \<open>None\<close> is a loop that never ends; \<open>False\<close> is the return after a failed \<open>sendto\<close>.
\<close>

definition SEND_LIMIT :: int where "SEND_LIMIT = 500000000000"

partial_function (option) send_loop :: "(net_call list \<Rightarrow> bool) \<Rightarrow> cint \<Rightarrow> net_call list \<Rightarrow> (bool \<times> net_call list) option" where
  "send_loop ok i tr =
     (if sint i < SEND_LIMIT
      then if ok tr then send_loop ok (i + 1) (tr @ [Sendto])
           else Some (False, tr @ [Sendto, SendError])
      else Some (True, tr))"

definition send_udp :: "net_env \<Rightarrow> (net_call list \<Rightarrow> bool) \<Rightarrow> (cint option \<times> net_call list) option" where
  "send_udp e ok =
     (let tr = [Malloc 1, Socket] in
      if socket_ret e [Malloc 1] = -1 then Some (Some (-1), tr @ [SocketError])
      else map_option (\<lambda>(fin, tr2). if fin then (None, tr2 @ [CloseSock]) else (Some (-1), tr2))
             (send_loop ok 0 (tr @ [Setsockopt, Gettid])))"

text \<open>\<open>main\<close> joins ten threads, so it returns when each of them has; \<open>pthread_join\<close> drops their results.\<close>

definition send_main :: "(nat \<Rightarrow> net_env) \<Rightarrow> (nat \<Rightarrow> net_call list \<Rightarrow> bool) \<Rightarrow> cint option" where
  "send_main e ok = (if list_all (\<lambda>k. send_udp (e k) (ok k) \<noteq> None) [0..<10] then Some 0 else None)"

section \<open>What is said of them\<close>

text \<open>The lock is never taken twice and never released unheld; the socket is read only while it is held.\<close>

primrec lock_ok :: "bool \<Rightarrow> net_call list \<Rightarrow> bool option" where
  "lock_ok held [] = Some held"
| "lock_ok held (k # ks) =
     (case k of
        SpinLock \<Rightarrow> if held then None else lock_ok True ks
      | SpinUnlock \<Rightarrow> if held then lock_ok False ks else None
      | Recvfrom \<Rightarrow> if held then lock_ok held ks else None
      | _ \<Rightarrow> lock_ok held ks)"

definition recv_ok :: "net_env \<Rightarrow> bool" where
  "recv_ok e \<longleftrightarrow> (\<forall>t. sint (fst (recv_ret e t)) \<le> int buf_len)"

section \<open>What is said of it\<close>

definition recvs :: "net_call list \<Rightarrow> nat" where
  "recvs tr = length (filter (\<lambda>k. k = Recvfrom) tr)"

definition net_env0 :: net_env where
  "net_env0 = \<lparr>recv_ret = (\<lambda>t. if recvs t < 2 then (8, [1, 0, 0, 0, 2, 0, 0, 0]) else (-1, [])),
     clock_ret = (\<lambda>t. of_nat (length t)), socket_ret = (\<lambda>t. 3)\<rparr>"

text \<open>Frames long enough to be counted, and those that are taken for UDP.\<close>

definition is_frame :: "u8 list \<Rightarrow> bool" where
  "is_frame p \<longleftrightarrow> eth_len \<le> length p"

definition is_udp :: "u8 list \<Rightarrow> bool" where
  "is_udp p \<longleftrightarrow> eth_len + ip_len + udp_len \<le> length p \<and> p ! (eth_len + 9) = IPPROTO_UDP"

lemma lock_ok_append: "lock_ok h (xs @ ys) = Option.bind (lock_ok h xs) (\<lambda>h'. lock_ok h' ys)"
  by (induction xs arbitrary: h) (auto split: net_call.splits)

lemma sum_loop_ok:
  assumes "0 \<le> j" and "d \<le> int (length b)"
  shows "\<exists>t. sum_loop b d j tot = Some t"
  using assms
proof (induction b d j tot rule: sum_loop.induct)
  case (1 b d j tot)
  then show ?case by (cases "j < d - 4") (simp_all add: sum_loop.simps [of b d j])
qed

lemma length_recv_into: "length b = buf_len \<Longrightarrow> length (recv_into b g) = buf_len"
  by (simp add: recv_into_def)

lemma sniff_loop_ok:
  assumes "recv_ok e" and "length b = buf_len" and "lock_ok False tr = Some False"
  shows "\<exists>fin tr'. sniff_loop e sm n b tot tr = Some (fin, tr') \<and> lock_ok False tr' = Some False
    \<and> recvs tr' \<le> recvs tr + n \<and> (fin \<longrightarrow> recvs tr' = recvs tr + n)"
  using assms(2,3)
proof (induction n arbitrary: b tot tr)
  case 0
  then show ?case by auto
next
  case (Suc n)
  obtain d g where dg: "recv_ret e (tr @ [SpinLock]) = (d, g)" by fastforce
  have d: "sint d \<le> int buf_len" using assms(1) dg unfolding recv_ok_def by (metis fst_conv)
  have len: "length (recv_into b g) = buf_len" by (rule length_recv_into [OF Suc.prems(1)])
  obtain t1 where t1: "(if sm then sum_loop (recv_into b g) (sint d) 0 tot else Some tot) = Some t1"
    using sum_loop_ok [of 0 "sint d" "recv_into b g" tot] d len by (cases sm) auto
  let ?tr = "tr @ [SpinLock, Recvfrom, SpinUnlock]"
  have lk: "lock_ok False ?tr = Some False" "recvs ?tr = Suc (recvs tr)"
    "lock_ok False (?tr @ [RecvError d]) = Some False" "recvs (?tr @ [RecvError d]) = Suc (recvs tr)"
    using Suc.prems(2) by (simp_all add: lock_ok_append recvs_def)
  have step: "sniff_loop e sm (Suc n) b tot tr =
      (if sint d < 0 then Some (False, ?tr @ [RecvError d]) else sniff_loop e sm n (recv_into b g) t1 ?tr)"
    using dg t1 by simp
  show ?case
  proof (cases "sint d < 0")
    case True
    then show ?thesis unfolding step using lk by auto
  next
    case False
    then show ?thesis unfolding step using Suc.IH [OF len lk(1), of t1] lk(2) by auto
  qed
qed

text \<open>
  C37: The receiver's spin lock is balanced on every path, errors included: each round takes the free
  lock, receives while holding it and releases it before it looks at the result; when the round is
  over the lock is free. No byte outside the 4096 byte buffer is read, provided recvfrom returns at
  most the size it was given, and at most the configured number of packets is received.
\<close>

theorem sniff_balanced:
  assumes "recv_ok e" and "length junk = buf_len" and "lock_ok False tr = Some False"
  shows "\<exists>r tr'. sniff e flag sm junk tr = Some (r, tr') \<and> lock_ok False tr' = Some False
    \<and> recvs tr' \<le> recvs tr + (if flag then Batch else Batch2)"
proof -
  let ?tr = "tr @ [Malloc buf_len, Clock]"
  have "lock_ok False ?tr = Some False" "recvs ?tr = recvs tr" using assms(3) by (simp_all add: lock_ok_append recvs_def)
  then obtain fin tr' where "sniff_loop e sm (if flag then Batch else Batch2) junk 0 ?tr = Some (fin, tr')"
    "lock_ok False tr' = Some False" "recvs tr' \<le> recvs tr + (if flag then Batch else Batch2)"
    using sniff_loop_ok [OF assms(1,2), of ?tr sm "if flag then Batch else Batch2" 0] by auto
  then show ?thesis by (cases fin) (auto simp: sniff_def Let_def lock_ok_append recvs_def)
qed

lemma sint_bounds: "sint (i :: cint) < 2147483648"
  using sint_lt [of i] by simp

theorem sniff_balanced_witness:
  "\<exists>r tr'. sniff net_env0 False True (replicate buf_len 0) [Say ''start''] = Some (r, tr')
     \<and> lock_ok False tr' = Some False \<and> recvs tr' \<le> Batch2"
proof -
  have "recv_ok net_env0" by (auto simp: recv_ok_def net_env0_def buf_len_def)
  from sniff_balanced [OF this, of "replicate buf_len 0" "[Say ''start'']" False True]
  show ?thesis by (simp add: recvs_def)
qed

section \<open>The counter and the sender\<close>

lemma mesg_sum_ok: "\<exists>v. mesg_sum n p i sm = Some v"
proof (induction n arbitrary: i sm)
  case (Suc n)
  show ?case
  proof (cases "eth_len + ip_len + udp_len + 4 * (i + 4) < length p")
    case True
    then have "int_at p (eth_len + ip_len + udp_len + 4 * i) \<noteq> None" by (simp add: int_at_def)
    with True Suc.IH show ?thesis by (auto simp: Let_def)
  qed (simp add: Let_def)
qed simp

text \<open>
  C40: The XDP program never reads outside the frame, with or without the sum of the payload, always
  passes the packet, and adds to bucket 1 of its counter one for each frame with a whole Ethernet
  header and one more for each that it takes for UDP. No other bucket changes.
\<close>

theorem udp_counter_counts:
  "\<exists>s'. udp_counter cal t0 t1 p s = Some (XDP_PASS, s')
     \<and> counter s' = (counter s)(1 := counter s 1 + of_bool (is_frame p) + of_bool (is_udp p))"
proof -
  have len: "eth_len = 14" "ip_len = 20" "udp_len = 8" by (simp_all add: eth_len_def ip_len_def udp_len_def)
  obtain v where v: "mesg_sum 1024 p 0 0 = Some v" using mesg_sum_ok by blast
  have b: "34 \<le> length p \<Longrightarrow> byte_at p 23 = Some (p ! 23)" by (simp add: byte_at_def)
  consider "length p < 14" | "14 \<le> length p" "length p < 34" | "34 \<le> length p" "length p < 42" | "42 \<le> length p" by linarith
  then show ?thesis
    by cases (auto simp: udp_counter_def Let_def len v b is_frame_def is_udp_def incr_def)
qed

lemma send_limit: "sint (i :: cint) < SEND_LIMIT"
  using sint_bounds [of i] by (simp add: SEND_LIMIT_def)

lemma send_loop_False:
  assumes "send_loop ok i tr = Some y"
  shows "\<not> fst y \<and> set (snd y) \<subseteq> set tr \<union> {Sendto, SendError} \<and> (\<exists>t. \<not> ok t)"
  using assms
proof (induction rule: send_loop.raw_induct [rotated, consumes 1, case_names 1])
  case (1 loop ok i tr y)
  show ?case
  proof (cases "ok tr")
    case True
    with 1(2) send_limit [of i] have "loop ok (i + 1) (tr @ [Sendto]) = Some y" by simp
    from 1(1) [OF this] show ?thesis by auto
  next
    case False
    with 1(2) send_limit [of i] show ?thesis by auto
  qed
qed

text \<open>
  While sendto succeeds the sender's loop never ends: its bound is larger than any value of its
  32-bit counter. A sender returns only when its socket cannot be created.
\<close>

lemma send_udp_endless:
  assumes "\<And>t. ok t"
  shows "send_udp e ok = (if socket_ret e [Malloc 1] = -1 then Some (Some (-1), [Malloc 1, Socket, SocketError]) else None)"
proof -
  have "send_loop ok i tr = None" for i tr
    using send_loop_False [of ok i tr] assms by (cases "send_loop ok i tr") auto
  then show ?thesis by (simp add: send_udp_def Let_def)
qed

lemma send_udp_never_closes:
  assumes "send_udp e ok = Some (r, tr)"
  shows "r = Some (-1) \<and> CloseSock \<notin> set tr"
proof (cases "socket_ret e [Malloc 1] = -1")
  case True
  with assms show ?thesis by (auto simp: send_udp_def Let_def)
next
  case False
  with assms obtain y where y: "send_loop ok 0 [Malloc 1, Socket, Setsockopt, Gettid] = Some y"
    and r: "(r, tr) = (if fst y then (None, snd y @ [CloseSock]) else (Some (-1), snd y))"
    by (auto simp: send_udp_def Let_def split_beta)
  with send_loop_False [OF y] show ?thesis by auto
qed

lemma send_udp_endless_example:
  "send_udp net_env0 (\<lambda>_. True) = None"
  using send_udp_endless [of "\<lambda>_. True" net_env0] by (simp add: net_env0_def)

end
