(* ===== verification/Spec2Isabelle.thy ===== *)
theory Spec2Isabelle
  imports System Entry Fault Exec_Pages Disassem Io_File Udp
begin

text \<open>
  UserspaceBypass lets hot user code stay in the kernel. Code between two system calls is
  translated into code that runs in the kernel, so that the second call needs no crossing. This
  development models the parts of the system under \<open>src/source_codes\<close> and proves what each of them
  and all of them together promise.

  \<^bold>\<open>The parts and how they interact.\<close> The patched kernel entry (\<open>kernel_modify/common.c\<close>) calls a hook
  after every 64-bit system call. The module (\<open>ub/zz_lkm\<close>) is behind the hook: it counts short calls
  per caller (\<open>stat.c\<close>), promotes a hot caller to a slot of its table (\<open>exe.c\<close>) with a block of memory
  that \<open>set_memory_x\<close> (\<open>kernel_modify/pageattr.c\<close>) makes executable, and runs the block when the
  process comes by again. A daemon (\<open>ub/zz_daemon/main.c\<close>) reads the table through a sysfs file
  (\<open>sys.c\<close>), has the code of the process translated (\<open>ub/zz_disassem\<close>) and writes the result back in
  packets. Translated code enters and leaves through \<open>asm/wrapper.S\<close>; a transfer it cannot follow is
  reported as a miss, recorded by the daemon, and part of the next translation. A fault inside a
  block reaches the patched fault handler (\<open>kernel_modify/fault.c\<close>), which asks the module. The
  programs under \<open>apps\<close> produce the system calls that are measured.

  \<^bold>\<open>Theories, and the code they model.\<close>
  \<^item> \<open>UB_Prelude\<close>: C integers as words, byte images, kernel memory, shared lemmas. \<open>Regs\<close>: \<open>struct pt_regs\<close> and the offsets of
    \<open>asm_head.h\<close>. \<open>Direct_Map\<close>: the interface of a direct-mapped table, as a locale; it is interpreted
    on the table of blocks and on the table of callers.
  \<^item> \<open>Pg_Hdr\<close>, \<open>Pageattr\<close>, \<open>Cpa\<close>, \<open>Set_Memory\<close>, \<open>Exec_Pages\<close>: \<open>pageattr.c\<close>, from the flushing
    context and the static protections through the engine that splits and changes page table
    entries to the entry points. Page tables are words of a memory; header constants and inline
    functions are fields of a record. \<open>Exec_Pages\<close> shows that \<open>set_memory_x\<close> on 4K pages clears the
    no-execute bit of exactly these pages.
  \<^item> \<open>Entry\<close>: \<open>common.c\<close>. Calls out of the file are recorded in a trace. Order of entry work, dispatch,
    hook and exit work; refused calls; return to user mode; the 32-bit entry points.
  \<^item> \<open>Fault\<close>: \<open>fault.c\<close>. Every fault settles with balanced \<open>mmap_sem\<close>; spurious faults; signals.
  \<^item> \<open>Exe\<close>, \<open>Stat\<close>, \<open>Sysfs\<close>, \<open>Lkm\<close>: the module. The record of its state grows from \<open>exe_st\<close> to \<open>stat_st\<close>
    and \<open>lkm_st\<close>. Claiming a slot, the hit test, the chaining loop; promotion; reading and writing the
    file; loading, unloading, the hook, the error handler.
  \<^item> \<open>Daemon\<close>: the rounds of \<open>main.c\<close>, its command history, parsing and packets. The delivery of a block
    is proved in a locale (a channel for packets), interpreted on the module's \<open>sysfs_store\<close>.
  \<^item> \<open>System\<close>: the loaded module as a state machine whose steps are system calls, reads and writes of
    the file; the table as a partial map; the invariant of all reachable states.
  \<^item> \<open>Assist\<close>, \<open>Conflict\<close>, \<open>Translation\<close>, \<open>Indirect_Jump\<close>, \<open>Memread\<close>, \<open>Disassem\<close>: the translator, one
    theory per file of \<open>zz_disassem\<close> (\<open>Translation\<close> has \<open>normal.py\<close>, \<open>special_inst.py\<close> and
    \<open>translation.py\<close>). The register allocator is transparent; blocks meet at a fixed register map; base
    registers are checked where the flags allow; the search for indirect transfers is complete; the
    process is read completely; the program that is written defines every label it uses.
  \<^item> \<open>Wrapper\<close>: \<open>wrapper.S\<close> on a machine of registers, flags and memory; also that the moves of the
    allocator do on this machine what its model says.
  \<^item> \<open>Io_File\<close>, \<open>Udp\<close>: the benchmark programs.
  \<^item> This theory: a miss the daemon records is what the translator reads, and what happens to a fault
    of translated code.

  \<^bold>\<open>Conventions.\<close> Code that is not in the repository is a parameter: the rest of the kernel, vmalloc,
  the shell and the file system of the daemon, the disassembler miasm, the order in which Python
  walks a set, and the translated code when the module runs it. What is asked of a parameter is a
  hypothesis, and each property with hypotheses has a witness in which the parameter is a concrete
  function. Errors are values: \<open>None\<close> for a Python exception, an own type per component for early
  returns; kernel code returns \<open>Ret\<close>, or \<open>BUG\<close> for a failed \<open>BUG_ON\<close>, \<open>Oops\<close> for an access to unmapped
  memory and \<open>Spin\<close> for a loop that used up its fuel.

  \<^bold>\<open>Loops and fuel.\<close> The chaining loop, the retry of a fault, the exit loop of a system call and the
  loop of the packet sender are partial functions into an option type, where \<open>None\<close> is a loop that
  does not end; that the first three end is proved under stated conditions, and that the last does
  not while sending succeeds. The depth first search over blocks takes fuel; fuel above the number of
  blocks is shown to be enough, and \<open>dis_assem\<close> gives that much. The jump back in
  \<open>__change_page_attr\<close> takes fuel 3, for a walk that meets a 1G, a 2M and a 4K entry; on 4K pages it
  is not used up. All other loops are total functions.

  \<^bold>\<open>Sizes.\<close> The table has 511 slots of 56 bytes and the limit of 63 claims is what makes a reading fit
  into a page; the bound on slots that hold a key by chance (10) is what remains of the page.

  \<^bold>\<open>Not modelled.\<close> Concurrency between CPUs and the locks of the kernel other than their balance;
  the statistics and debugfs output of \<open>pageattr.c\<close> and the branches of 32-bit configurations; text
  printed on a console; the encoding of instructions by the assembler, and the meaning of translated
  instructions other than the moves of the allocator, the stack and the control transfers; the
  loader \<open>apps/socket/bpf\<close>, which only calls a library; shell scripts, configuration files and
  generated code (\<open>jit.S\<close>, \<open>jit.bin\<close>), which belong to one machine.
\<close>

section \<open>From a miss to the next translation\<close>

text \<open>The line \<open>echo\<close> appends for an indirect jump, and a table that was written line by line.\<close>

definition ij_entry :: "exe_info \<Rightarrow> string" where
  "ij_entry x = fmt_p (jump_from x) @ '' '' @ fmt_p (tgt_addr x)"

definition table_file :: "string list \<Rightarrow> string" where
  "table_file ls = concat (map (\<lambda>l. l @ [CHR 0x0A]) ls)"

definition miss0 :: exe_info where
  "miss0 = exe_zero\<lparr>status_code := ij_miss, exe_pid := 7, RIP := 0x400, jump_from := 0x1a, tgt_addr := 0x2f\<rparr>"

section \<open>A fault of translated code\<close>

text \<open>The symbols of the loaded module are what the kernel finds, and its answer is what the kernel gets.\<close>

definition module_linked :: "'w fenv \<Rightarrow> bool" where
  "module_linked v \<longleftrightarrow> (\<forall>name. take 3 name = ''UB_'' \<longrightarrow> (kallsyms_lookup_name v name \<noteq> 0 \<longleftrightarrow> lkm_symbols name \<noteq> None))
     \<and> (\<forall>a b s. fst (fext v (UbFaultAddressSpace a b) s) = of_int (UB_fault_address_space a b))"

text \<open>The state in which the module has been asked.\<close>

definition asked :: "'w fenv \<Rightarrow> u64 \<Rightarrow> u64 \<Rightarrow> 'w flt \<Rightarrow> 'w flt" where
  "asked v error_code address s =
     (let s1 = snd (fdo v (FixupException error_code address) s)
      in snd (fdo v (UbFaultAddressSpace address (r13 (f_regs s1))) s1))"

definition fenv_ub :: "unit fenv" where
  "fenv_ub = fenv0\<lparr>kallsyms_lookup_name := (\<lambda>n. if lkm_symbols n = None then 0 else 0x9000)\<rparr>"

definition handler_calls :: "'w flt \<Rightarrow> fcall list" where
  "handler_calls s = filter (\<lambda>c. case c of UbErrorHandler z \<Rightarrow> True | _ \<Rightarrow> False) (f_calls s)"

text \<open>An attempt, whether it ends or is repeated.\<close>

definition hc_sum :: "('a \<times> 'b \<times> 'w flt) + 'w flt fres \<Rightarrow> fcall list" where
  "hc_sum x = (case x of Inl t \<Rightarrow> handler_calls (snd (snd t)) | Inr e \<Rightarrow> handler_calls (final e))"

lemma hex_nat_digits: "hex_nat n = hex_digits n"
proof (induction n rule: hex_nat.induct)
  case (1 n)
  have "Daemon.hex_digit = Assist.hex_digit" by (simp add: fun_eq_iff Daemon.hex_digit_def Assist.hex_digit_def)
  with 1 show ?case by (subst hex_nat.simps, subst hex_digits.simps) simp
qed

lemma hex_digit_char: "d < 16 \<Longrightarrow> is_hex (Assist.hex_digit d) \<and> \<not> is_ws (Assist.hex_digit d) \<and> \<not> is_eol (Assist.hex_digit d)"
proof -
  have "list_all (\<lambda>d. is_hex (Assist.hex_digit d) \<and> \<not> is_ws (Assist.hex_digit d) \<and> \<not> is_eol (Assist.hex_digit d)) [0..<16]"
    by code_simp
  then show "d < 16 \<Longrightarrow> ?thesis" by (simp add: list_all_iff)
qed

lemma hex_chars: "\<forall>c \<in> set (hex_digits n). is_hex c \<and> \<not> is_ws c \<and> \<not> is_eol c"
proof (induction n rule: hex_digits.induct)
  case (1 n)
  have "hex_digits n = (if n < 16 then [Assist.hex_digit n] else hex_digits (n div 16) @ [Assist.hex_digit (n mod 16)])"
    by (rule hex_digits.simps)
  with 1 hex_digit_char [of n] hex_digit_char [of "n mod 16"] show ?case by (cases "n < 16") auto
qed

lemma underscore_no_hex: "\<not> is_hex (CHR ''_'')"
  by (simp add: is_hex_def)

lemma hex_body_all: "s \<noteq> [] \<Longrightarrow> \<forall>c \<in> set s. is_hex c \<Longrightarrow> hex_body s = Some s"
  by (induction s rule: hex_body.induct) (auto simp: underscore_no_hex)

lemma dropWhile_none: "(s = [] \<or> \<not> p (hd s)) \<Longrightarrow> dropWhile p s = s"
  by (cases s) auto

lemma py_int16_hex: "py_int16 (''0x'' @ hex_digits n) = Some (int n)"
proof -
  let ?s = "''0x'' @ hex_digits n"
  note D = hex_digits_ok [of n] and C = hex_chars [of n]
  have "\<not> is_ws (hd ?s)" by (simp add: is_ws_def)
  moreover have "\<not> is_ws (hd (rev ?s))" using D C by (simp add: hd_rev)
  ultimately have r: "rev (dropWhile is_ws (rev (dropWhile is_ws ?s))) = ?s" using dropWhile_none by (metis rev_rev_ident)
  have s: "strip_prefix ?s = hex_digits n"
    using D by (cases "hex_digits n") (auto simp: strip_prefix_def)
  have h: "hex_body (hex_digits n) = Some (hex_digits n)" by (rule hex_body_all) (use D C in simp_all)
  have t: "take 1 ?s = ''0''" by simp
  show ?thesis unfolding py_int16_def Let_def r t using D s h by simp
qed

lemma fmt_p_ok:
  assumes "a \<noteq> 0"
  shows "py_int16 (fmt_p a) = Some (uint a)" "fmt_p a \<noteq> []" "\<forall>c \<in> set (fmt_p a). \<not> is_ws c \<and> \<not> is_eol c"
proof -
  have "\<forall>c \<in> {CHR ''0'', CHR ''x''}. \<not> is_ws c \<and> \<not> is_eol c" by (simp add: is_ws_def is_eol_def)
  then show "\<forall>c \<in> set (fmt_p a). \<not> is_ws c \<and> \<not> is_eol c"
    using assms hex_chars [of "unat a"] by (auto simp: fmt_p_def hex_nat_digits)
  show "py_int16 (fmt_p a) = Some (uint a)"
    using py_int16_hex [of "unat a"] assms by (simp add: fmt_p_def hex_nat_digits)
  show "fmt_p a \<noteq> []" by (simp add: fmt_p_def)
qed

lemma split_at_none: "\<forall>c \<in> set a. \<not> p c \<Longrightarrow> split_at p a = [a]"
  by (subst split_at.simps) (simp add: takeWhile_eq_all_conv [THEN iffD2] dropWhile_eq_Nil_conv [THEN iffD2])

lemma split_at_one: "\<forall>c \<in> set a. \<not> p c \<Longrightarrow> p c \<Longrightarrow> split_at p (a @ c # b) = a # split_at p b"
  by (subst split_at.simps) simp

lemma ij_entry_line:
  assumes "jump_from x \<noteq> 0" and "tgt_addr x \<noteq> 0"
  shows "ij_line (ij_entry x) = Some (uint (jump_from x), uint (tgt_addr x))"
proof -
  note A = fmt_p_ok [OF assms(1)] and B = fmt_p_ok [OF assms(2)]
  have "is_ws (CHR '' '')" by (simp add: is_ws_def)
  then have "split_at is_ws (ij_entry x) = [fmt_p (jump_from x), fmt_p (tgt_addr x)]"
    using split_at_one [of "fmt_p (jump_from x)" is_ws "CHR '' ''" "fmt_p (tgt_addr x)"] split_at_none [of "fmt_p (tgt_addr x)" is_ws] A(3) B(3)
    by (simp add: ij_entry_def)
  then show ?thesis using A B by (simp add: ij_line_def split_ws_def)
qed

lemma text_mode_id: "CHR 0x0D \<notin> set s \<Longrightarrow> text_mode s = s"
  by (induction s) auto

lemma file_lines_table:
  assumes "\<forall>l \<in> set ls. \<forall>c \<in> set l. \<not> is_eol c"
  shows "file_lines (Some (table_file ls)) = ls"
proof -
  have e: "is_eol (CHR 0x0A)" "is_eol (CHR 0x0D)" by (simp_all add: is_eol_def)
  have "split_at is_eol (table_file ls) = ls @ [[]]" using assms
  proof (induction ls)
    case Nil
    then show ?case by (simp add: table_file_def split_at_none)
  next
    case (Cons l ls)
    then show ?case using split_at_one [of l is_eol "CHR 0x0A" "table_file ls"] e by (simp add: table_file_def)
  qed
  moreover have "CHR 0x0D \<notin> set (table_file ls)" using assms e by (auto simp: table_file_def)
  ultimately show ?thesis by (simp add: file_lines_def text_mode_id splitlines_def)
qed

lemma those_map_Some: "\<forall>x \<in> set xs. f x = Some (g x) \<Longrightarrow> those (map f xs) = Some (map g xs)"
  by (induction xs) auto



section \<open>A fault of translated code\<close>

lemma ub_fixup_none:
  assumes "module_linked v"
  shows "ub_fixup v address s = (False, snd (fdo v (UbFaultAddressSpace address (r13 (f_regs s))) s))"
proof -
  have "kallsyms_lookup_name v ''UB_fault_address_space'' \<noteq> 0" "kallsyms_lookup_name v ''UB_SFI_error_handler'' = 0"
    using assms [unfolded module_linked_def, THEN conjunct1, rule_format, of "''UB_fault_address_space''"]
      assms [unfolded module_linked_def, THEN conjunct1, rule_format, of "''UB_SFI_error_handler''"]
    by (simp_all add: lkm_symbols_def)
  then show ?thesis by (simp add: ub_fixup_def split_beta)
qed

named_theorems hc

lemma hc_fdo [hc]: "handler_calls (snd (fdo v c s)) =
    (case c of UbErrorHandler z \<Rightarrow> handler_calls s @ [c] | _ \<Rightarrow> handler_calls s)"
  by (cases c) (simp_all add: handler_calls_def fdo_def split_beta)

lemma hc_upd [hc]:
  "handler_calls (s\<lparr>f_regs := r\<rparr>) = handler_calls s" "handler_calls (s\<lparr>f_irq := i\<rparr>) = handler_calls s"
  "handler_calls (s\<lparr>f_ptm := m\<rparr>) = handler_calls s" "handler_calls (s\<lparr>f_sem := n\<rparr>) = handler_calls s"
  "handler_calls (s\<lparr>maj_flt := a\<rparr>) = handler_calls s" "handler_calls (s\<lparr>min_flt := a\<rparr>) = handler_calls s"
  "handler_calls (pr ms s) = handler_calls s" "handler_calls (pr_once msg s) = handler_calls s"
  "handler_calls (set_signal_archinfo v ad ec s) = handler_calls s"
  by (simp_all add: handler_calls_def pr_def pr_once_def set_signal_archinfo_def)

lemma hc_if [hc]: "handler_calls (if b then s else t) = (if b then handler_calls s else handler_calls t)"
  by simp

lemma hc_dump [hc]: "handler_calls (dump_pagetable v ad s) = handler_calls s"
  unfolding dump_pagetable_def by (rule hc_upd(7))

lemma hc_ldttss [hc]: "handler_calls (show_ldttss v nm ix s) = handler_calls s"
  by (simp only: show_ldttss_def hc Let_def if_cancel split: option.split) simp

lemma hc_show_oops [hc]: "handler_calls (show_fault_oops v ec ad s) = handler_calls s"
  by (simp only: show_fault_oops_def hc Let_def if_cancel)

lemma hc_sem [hc]: "handler_calls (up_read v s) = handler_calls s" "handler_calls (down_read v s) = handler_calls s"
  "handler_calls (snd (down_read_trylock v s)) = handler_calls s"
  by (simp_all add: up_read_def down_read_def down_read_trylock_def hc Let_def split_beta)

lemma hc_kernel [hc]:
  "handler_calls (snd (is_errata93 v ad s)) = handler_calls s" "handler_calls (vmalloc_sync v p e s) = handler_calls s"
  "handler_calls (snd (spurious_kernel_fault v ec ad s)) = handler_calls s"
  "handler_calls (snd (kmmio_fault v ad s)) = handler_calls s" "handler_calls (final (oops_end v sg s)) = handler_calls s"
  "handler_calls (after_fixup v ec ad sg co s) = handler_calls s" "handler_calls (show_signal_msg v ec ad s) = handler_calls s"
  "handler_calls (trace_page_fault_entries v ec ad s) = handler_calls s"
  by (simp_all add: is_errata93_def vmalloc_sync_def spurious_kernel_fault_def kmmio_fault_def oops_end_def
      after_fixup_def show_signal_msg_def trace_page_fault_entries_def hc Let_def split_beta)

lemma hc_vmalloc [hc]: "handler_calls (snd (vmalloc_fault v ad s)) = handler_calls s"
  by (simp add: vmalloc_fault_def hc Let_def)

lemma hc_oops [hc]: "handler_calls (final (no_context_oops v ec ad s)) = handler_calls s"
  "handler_calls (final (pgtable_bad v ec ad s)) = handler_calls s"
  by (simp_all add: no_context_oops_def pgtable_bad_def hc Let_def split_beta)

lemma hc_no_context [hc]:
  assumes "module_linked v"
  shows "handler_calls (final (no_context v ec ad sg co s)) = handler_calls s"
    "handler_calls (final (raw_bad_area_nosemaphore v ec ad pk co s)) = handler_calls s"
    "handler_calls (final (bad_area_nosemaphore v ec ad s)) = handler_calls s"
    "handler_calls (final (raw_bad_area v ec ad pk co s)) = handler_calls s"
    "handler_calls (final (bad_area v ec ad s)) = handler_calls s"
    "handler_calls (final (bad_area_access_error v ec ad a s)) = handler_calls s"
    "handler_calls (final (do_sigbus v ec ad fa s)) = handler_calls s"
    "handler_calls (final (mm_fault_error v ec ad fa s)) = handler_calls s"
    "handler_calls (final (kern_addr_tail v ec ad s)) = handler_calls s"
    "handler_calls (final (do_kern_addr_fault v ec ad s)) = handler_calls s"
proof -
  have n: "handler_calls (final (no_context v ec ad sg co s)) = handler_calls s" for sg co s
    by (simp add: no_context_def ub_fixup_none [OF assms] hc Let_def split_beta)
  have b: "handler_calls (final (raw_bad_area_nosemaphore v ec ad pk co s)) = handler_calls s" for pk co s
    by (simp add: raw_bad_area_nosemaphore_def n hc Let_def)
  have k: "handler_calls (final (kern_addr_tail v ec ad s)) = handler_calls s" for s
    by (simp add: kern_addr_tail_def bad_area_nosemaphore_def b hc Let_def split_beta)
  show "handler_calls (final (do_kern_addr_fault v ec ad s)) = handler_calls s"
    using hc_vmalloc [of v ad s] hc_vmalloc [of v ad "pr_once WarnPk s"]
    by (simp add: do_kern_addr_fault_def k hc Let_def split_beta split: option.split bool.split prod.split)
qed (simp_all add: no_context_def ub_fixup_none [OF assms] raw_bad_area_nosemaphore_def bad_area_nosemaphore_def raw_bad_area_def
    bad_area_def bad_area_access_error_def do_sigbus_def mm_fault_error_def kern_addr_tail_def hc Let_def split_beta)

lemma hc_good_area:
  assumes "module_linked v"
  shows "hc_sum (good_area v ec ad a fg major s) = handler_calls s"
  using assms
  by (simp add: good_area_def user_fault_result_def hc_sum_def hc Let_def split_beta)

lemma hc_attempt:
  assumes "module_linked v"
  shows "hc_sum (user_fault_attempt v ec ad fg major s) = handler_calls s"
proof (cases "find_vma v s ad")
  case (Some a)
  then show ?thesis using hc_good_area [OF assms] assms
    by (simp add: user_fault_attempt_def Let_def split_beta hc) (simp add: hc_sum_def hc assms)
qed (use assms in \<open>simp add: user_fault_attempt_def hc_sum_def hc\<close>)

lemma hc_loop:
  "user_fault_loop v ec ad fg major s = Some e \<Longrightarrow> module_linked v \<Longrightarrow> handler_calls (final e) = handler_calls s"
proof (induction rule: user_fault_loop.raw_induct [rotated, consumes 1, case_names 1])
  case (1 loop v ec ad fg major s e)
  note A = hc_attempt [OF 1(3), of ec ad fg major s]
  show ?case
  proof (cases "user_fault_attempt v ec ad fg major s")
    case (Inl t)
    then have "loop v ec ad (fst t) (fst (snd t)) (down_read v (snd (snd t))) = Some e" using 1(2) by simp
    from 1(1) [OF this 1(3)] A Inl show ?thesis by (simp add: hc_sum_def hc)
  next
    case (Inr e')
    with 1(2) A show ?thesis by (simp add: hc_sum_def)
  qed
qed

lemma hc_user:
  assumes "module_linked v"
  shows "user_addr_locked v ec ad fg s = Some e \<Longrightarrow> handler_calls (final e) = handler_calls s"
    "user_addr_checked v ec ad s = Some e \<Longrightarrow> handler_calls (final e) = handler_calls s"
proof -
  have l: "handler_calls (final e) = handler_calls s" if "user_addr_locked v ec ad fg s = Some e" for fg s
    using that hc_loop [OF _ assms, of ec ad fg 0 _ e] assms
    by (auto simp: user_addr_locked_def Let_def split_beta hc split: if_splits)
  show "user_addr_locked v ec ad fg s = Some e \<Longrightarrow> handler_calls (final e) = handler_calls s" by (rule l)
  assume "user_addr_checked v ec ad s = Some e"
  then show "handler_calls (final e) = handler_calls s"
    using l [of "fault_flags v ec (user_mode v (f_regs s))" s]
      l [of "fault_flags v ec (user_mode v (f_regs s))" "s\<lparr>f_irq := True\<rparr>"] assms
    by (auto simp: user_addr_checked_def Let_def hc split: if_splits)
qed

lemma hc_user_addr:
  assumes "module_linked v" and "do_user_addr_fault v ec ad s = Some e"
  shows "handler_calls (final e) = handler_calls s"
proof -
  have p: "pgtable_bad v ec ad s' = Fin s2 \<Longrightarrow> handler_calls s2 = handler_calls s'"
    "pgtable_bad v ec ad s' = Dead s2 \<Longrightarrow> handler_calls s2 = handler_calls s'" for s' s2
    using hc_oops(2) [of v ec ad s'] by simp_all
  show ?thesis
    using assms(2) hc_user(2) [OF assms(1), of ec ad _ e]
    by (auto simp: do_user_addr_fault_def Let_def split_beta hc p split: if_splits fres.splits)
qed

lemma hc_page_fault:
  assumes "module_linked v" and "do_page_fault v ec ad s = Some e"
  shows "handler_calls (final e) = handler_calls s"
  using assms(2) hc_user_addr [OF assms(1), of ec ad _ e] assms(1)
  by (auto simp: do_page_fault_def raw_do_page_fault_def Let_def split_beta hc split: if_splits)

lemma no_context_linked:
  assumes "module_linked v" and "\<not> user_mode v (f_regs s)"
    and "fst (fdo v (FixupException error_code address) s) = 0"
  shows "no_context v error_code address sig code s =
      (let s2 = asked v error_code address s; (e93, s3) = is_errata93 v address s2
       in if near_stack v address s2 then Dead (snd (fdo v (HandleStackOverflow address) s2))
          else if is_prefetch v error_code s2 then Fin s2
          else if e93 then Fin s3
          else no_context_oops v error_code address (snd (fdo v (EfiRecover address) s3)))"
  using assms(2,3) by (simp add: no_context_def ub_fixup_none [OF assms(1)] asked_def Let_def split_beta)

text \<open>
  C38: A fault of translated code is not resumed. The module answers that every fault is its own, but
  the kernel looks up the error handler under a name the module does not export: whatever page fault
  is handled, on whatever path, the handler is not called. A fault in kernel mode without an
  exception table entry goes on as if the module had not been asked: unless it is a stack overflow, a
  prefetch or the K8 erratum, it ends in an oops.
\<close>

theorem ub_fault_oops:
  assumes "module_linked v"
  shows "fst (fext v (UbFaultAddressSpace a r) t) = 1
    \<and> (\<forall>error_code address s e. do_page_fault v error_code address s = Some e \<longrightarrow> handler_calls (final e) = handler_calls s)
    \<and> (\<forall>error_code address s sig code. \<not> user_mode v (f_regs s)
        \<longrightarrow> fst (fdo v (FixupException error_code address) s) = 0
        \<longrightarrow> no_context v error_code address sig code s =
          (let s2 = asked v error_code address s; (e93, s3) = is_errata93 v address s2
           in if near_stack v address s2 then Dead (snd (fdo v (HandleStackOverflow address) s2))
              else if is_prefetch v error_code s2 then Fin s2
              else if e93 then Fin s3
              else no_context_oops v error_code address (snd (fdo v (EfiRecover address) s3))))"
proof -
  have "fst (fext v (UbFaultAddressSpace a r) t) = 1"
    using assms by (simp add: module_linked_def UB_fault_address_space_def)
  then show ?thesis using hc_page_fault [OF assms] no_context_linked [OF assms] by blast
qed

theorem ub_fault_oops_witness:
  "fst (fext fenv_ub (UbFaultAddressSpace 0x600000 0) (flt0 0 fptm0)) = 1
   \<and> (\<exists>s3. no_context fenv_ub 0 0x600000 SIGSEGV SEGV_MAPERR (flt0 0 fptm0) = no_context_oops fenv_ub 0 0x600000 s3)"
proof -
  have m: "module_linked fenv_ub"
    by (simp add: module_linked_def fenv_ub_def fenv0_def fext0_def UB_fault_address_space_def)
  note U = ub_fault_oops [OF m, of "0x600000" 0 "flt0 0 fptm0"]
  have "\<not> user_mode fenv_ub (f_regs (flt0 0 fptm0))" by (simp add: fenv_ub_def fenv0_def flt0_def test_def)
  moreover have "fst (fdo fenv_ub (FixupException 0 0x600000) (flt0 0 fptm0)) = 0"
    by (simp add: fdo_def fenv_ub_def fenv0_def fext0_def)
  moreover define s2 where "s2 = asked fenv_ub 0 0x600000 (flt0 0 fptm0)"
  moreover have "\<not> near_stack fenv_ub 0x600000 s2" "\<not> is_prefetch fenv_ub 0 s2" "\<not> fst (is_errata93 fenv_ub 0x600000 s2)"
    unfolding s2_def by code_simp+
  ultimately show ?thesis
    using U [THEN conjunct1] U [THEN conjunct2, THEN conjunct2, rule_format, of "flt0 0 fptm0" 0 "0x600000" SIGSEGV SEGV_MAPERR]
    by (auto simp: Let_def split_beta)
qed

end
